(* ===== verification/Prelude.thy ===== *)
theory Prelude
  imports Main "HOL-Library.Word" "HOL-Library.Code_Target_Nat"
begin

text \<open>
  Vocabulary shared by every component: bytes, byte strings and C strings, the codec and
  bounded-sink interfaces that several files of src/ implement, and the generic list and
  word lemmas the component proofs lean on.

  A C \<open>uint8_t\<close> or \<open>char\<close> is an 8-bit word; a buffer with a length is a list of bytes.  A
  C string is what the C library reads out of a buffer: the bytes up to the first NUL.
  Character tests in the source compare plain \<open>char\<close>s; the source only ever tests
  membership of ASCII ranges, on which signed and unsigned \<open>char\<close> agree, so the tests are
  written on unsigned bytes.  A \<open>size_t\<close> is a natural number: every buffer of the program is
  at most a few hundred kilobytes, and where the source subtracts lengths the invariant that
  keeps the subtraction from wrapping is stated and proved.
\<close>

unbundle bit_operations_syntax

type_synonym byte = "8 word"
type_synonym bytes = "byte list"

abbreviation ch :: "char \<Rightarrow> byte" where
  "ch c \<equiv> of_char c"

definition bs :: "string \<Rightarrow> bytes" where
  "bs s = map of_char s"

definition c_str :: "bytes \<Rightarrow> bytes" where
  "c_str b = takeWhile (\<lambda>x. x \<noteq> 0) b"

section \<open>Collections of facts\<close>

named_theorems wire_simps \<open>unfolding rules for the wire reader and writer\<close>
named_theorems inv_intros \<open>preservation of component invariants\<close>

section \<open>Bytes and literals\<close>

lemma unat_of_char [simp]: "unat (ch c) = of_char c"
proof -
  have "(of_char c :: nat) < 256" by simp
  moreover have "unat (ch c) = unat (word_of_nat (of_char c) :: 8 word)"
    by (simp add: of_char_def horner_sum_simps)
  ultimately show ?thesis by (simp add: unat_of_nat)
qed

lemma ch_eq_iff [simp]: "ch c = ch d \<longleftrightarrow> c = d"
proof
  assume "ch c = ch d"
  then have "unat (ch c) = unat (ch d)" by simp
  then have "(of_char c :: nat) = of_char d" by (simp only: unat_of_char)
  then show "c = d" by simp
qed simp

lemma bs_simps [simp]: "bs [] = []" "bs (c # s) = ch c # bs s"
  by (simp_all add: bs_def)

lemma bs_append [simp]: "bs (s @ t) = bs s @ bs t"
  by (simp add: bs_def)

lemma length_bs [simp]: "length (bs s) = length s"
  by (simp add: bs_def)

lemma c_str_no_nul: "0 \<notin> set (c_str b)"
  by (auto simp: c_str_def dest: set_takeWhileD)

lemma c_str_id: "0 \<notin> set b \<Longrightarrow> c_str b = b"
  unfolding c_str_def by (rule takeWhile_eq_all_conv [THEN iffD2]) auto

lemma c_str_idem [simp]: "c_str (c_str b) = c_str b"
  by (simp add: c_str_id c_str_no_nul)

lemma length_c_str: "length (c_str b) \<le> length b"
  by (simp add: c_str_def length_takeWhile_le)

lemma c_str_Nil [simp]: "c_str [] = []"
  by (simp add: c_str_def)

lemma c_str_set: "x \<in> set (c_str b) \<Longrightarrow> x \<in> set b"
  by (auto simp: c_str_def dest: set_takeWhileD)

lemma byte_lt [simp]: "unat (b :: byte) < 256"
  using unsigned_less [of b] by simp

lemma byte_pos: "b \<noteq> 0 \<Longrightarrow> 1 \<le> unat (b :: byte)"
  by (cases "unat b") (simp_all add: unsigned_eq_0_iff)

section \<open>Lists\<close>

lemma take_drop_append_exact [simp]:
  "take (length b) (drop (length a) (a @ b @ c)) = b"
  by simp

lemma drop_plus: "drop (m + n) xs = drop n (drop m xs)"
  by (simp add: add.commute)

lemma length_le_drop: "m \<le> length xs \<Longrightarrow> n \<le> length xs - m \<Longrightarrow> m + n \<le> length xs"
  by simp

lemma dropWhile_neq_Nil_hd: "dropWhile P xs = y # ys \<Longrightarrow> \<not> P y"
  using hd_dropWhile [of P xs] by simp

lemma length_tl_dropWhile: "dropWhile P xs \<noteq> [] \<Longrightarrow> length (tl (dropWhile P xs)) < length xs"
  using length_dropWhile_le [of P xs] by (cases "dropWhile P xs") simp_all

lemma case_option_Some:
  "(case z of None \<Rightarrow> None | Some a \<Rightarrow> f a) = Some d \<longleftrightarrow> (\<exists>a. z = Some a \<and> f a = Some d)"
  by (cases z) simp_all

lemma case_option_pair_Some:
  "(case z of None \<Rightarrow> None | Some (a, b) \<Rightarrow> f a b) = Some d \<longleftrightarrow>
    (\<exists>a b. z = Some (a, b) \<and> f a b = Some d)"
  by (cases z) auto

text \<open>The pieces of a buffer between separators, the last one included even when empty.\<close>

function split_on :: "byte \<Rightarrow> bytes \<Rightarrow> bytes list" where
  "split_on sep buf =
     (let rest = dropWhile (\<lambda>c. c \<noteq> sep) buf
      in takeWhile (\<lambda>c. c \<noteq> sep) buf # (if rest = [] then [] else split_on sep (tl rest)))"
  by pat_completeness auto
termination
  by (relation "measure (\<lambda>(sep, buf). length buf)")
    (simp_all add: length_tl_dropWhile del: length_tl dropWhile_eq_Nil_conv)

declare split_on.simps [simp del]

abbreviation split_lines :: "bytes \<Rightarrow> bytes list" where
  "split_lines \<equiv> split_on 0x0a"

text \<open>Decimal digits, as the C library prints an unsigned number.\<close>

fun dec_bytes :: "nat \<Rightarrow> bytes" where
  "dec_bytes n = (if n < 10 then [] else dec_bytes (n div 10)) @ [0x30 + of_nat (n mod 10)]"

declare dec_bytes.simps [simp del]

definition dec_int :: "int \<Rightarrow> bytes" where
  "dec_int i = (if i < 0 then ch (CHR ''-'') # dec_bytes (nat (- i)) else dec_bytes (nat i))"

section \<open>The calendar of the C library\<close>

text \<open>
  \<open>gmtime_r\<close> and \<open>strftime\<close> on the proleptic Gregorian calendar: a year that does not fit the C
  library's field, and a text that does not fit the buffer of \<open>cap\<close> bytes, give none.
\<close>

definition civil_from_days :: "int \<Rightarrow> int \<times> int \<times> int" where
  "civil_from_days z =
     (let z = z + 719468; era = z div 146097; doe = z mod 146097;
          yoe = (doe - doe div 1460 + doe div 36524 - doe div 146096) div 365;
          doy = doe - (365 * yoe + yoe div 4 - yoe div 100);
          mp = (5 * doy + 2) div 153;
          d = doy - (153 * mp + 2) div 5 + 1;
          m = (if mp < 10 then mp + 3 else mp - 9)
      in (yoe + era * 400 + (if m \<le> 2 then 1 else 0), m, d))"

definition two_digits :: "int \<Rightarrow> bytes" where
  "two_digits n = [0x30 + of_int (n div 10), 0x30 + of_int (n mod 10)]"

definition utc_text :: "int \<Rightarrow> nat \<Rightarrow> bytes option" where
  "utc_text t cap =
     (let (y, m, d) = civil_from_days (t div 86400); sec = t mod 86400;
          text = dec_int y @ bs ''-'' @ two_digits m @ bs ''-'' @ two_digits d @ bs ''T'' @
            two_digits (sec div 3600) @ bs '':'' @ two_digits (sec div 60 mod 60) @ bs '':'' @
            two_digits (sec mod 60) @ bs ''Z''
      in if y - 1900 < - (2 ^ 31) \<or> y - 1900 \<ge> 2 ^ 31 \<or> length text \<ge> cap then None else Some text)"

section \<open>Interfaces\<close>

text \<open>
  An encoding with its decoder.  \<open>valid\<close> is the set of values the encoder is specified for.
\<close>

locale codec =
  fixes enc :: "'a \<Rightarrow> bytes" and dec :: "bytes \<Rightarrow> 'a option" and valid :: "'a \<Rightarrow> bool"
  assumes dec_enc: "valid x \<Longrightarrow> dec (enc x) = Some x"
begin

lemma enc_inj: "valid x \<Longrightarrow> valid y \<Longrightarrow> enc x = enc y \<longleftrightarrow> x = y"
  by (metis dec_enc option.inject)

end

text \<open>
  A canonical encoding: what the decoder accepts is exactly what the encoder writes, so two
  byte strings that decode to the same value are the same byte string.
\<close>

locale canonical_codec = codec +
  assumes enc_dec: "dec b = Some x \<Longrightarrow> valid x \<and> enc x = b"
begin

lemma dec_iff: "dec b = Some x \<longleftrightarrow> valid x \<and> enc x = b"
proof
  assume "dec b = Some x"
  then show "valid x \<and> enc x = b" by (rule enc_dec)
next
  assume "valid x \<and> enc x = b"
  then show "dec b = Some x" using dec_enc [of x] by simp
qed

lemma one_spelling: "dec a = Some x \<Longrightarrow> dec b = Some x \<Longrightarrow> a = b"
  by (simp add: dec_iff)

lemma dec_None_iff: "dec b = None \<longleftrightarrow> (\<forall>x. valid x \<longrightarrow> enc x \<noteq> b)"
  by (cases "dec b") (auto simp: dec_iff dest: dec_enc)

end

text \<open>
  A self-delimiting encoding: the decoder finds the end of the value by itself and hands the
  rest of the input back, so a sequence of values is read by reading one after the other.
\<close>

locale prefix_codec =
  fixes put :: "'a \<Rightarrow> bytes" and get :: "bytes \<Rightarrow> ('a \<times> bytes) option" and valid :: "'a \<Rightarrow> bool"
  assumes get_put: "valid x \<Longrightarrow> get (put x @ r) = Some (x, r)"
    and put_nonempty: "valid x \<Longrightarrow> put x \<noteq> []"
begin

lemma put_inj_prefix: "valid x \<Longrightarrow> valid y \<Longrightarrow> put x @ r = put y @ s \<Longrightarrow> x = y \<and> r = s"
  by (metis get_put option.inject prod.inject)

lemma put_seq_inj:
  "\<forall>x \<in> set xs. valid x \<Longrightarrow> \<forall>y \<in> set ys. valid y \<Longrightarrow>
    concat (map put xs) = concat (map put ys) \<Longrightarrow> xs = ys"
proof (induction xs arbitrary: ys)
  case Nil
  then show ?case by (cases ys) (simp_all add: put_nonempty)
next
  case (Cons x xs)
  have "ys \<noteq> []"
    using Cons.prems(1,3) put_nonempty [of x] by (cases ys) simp_all
  then obtain y ys' where ys: "ys = y # ys'"
    by (cases ys) simp_all
  have "x = y \<and> concat (map put xs) = concat (map put ys')"
    by (rule put_inj_prefix) (use Cons.prems ys in simp_all)
  moreover from this have "xs = ys'"
    by (intro Cons.IH) (use Cons.prems ys in simp_all)
  ultimately show ?case using ys by simp
qed

end

text \<open>
  A bounded sink: a writer over a fixed buffer that latches its first overflow.  \<open>room\<close> is
  what is left of the buffer, \<open>fits\<close> the items it can write at all, \<open>render\<close> the bytes an
  item becomes.  The client builds a message out of many \<open>put\<close>s and looks at \<open>ok\<close> once, at
  the end: \<open>puts_ok\<close> and \<open>puts_out\<close> are what makes that sound.
\<close>

locale bounded_sink =
  fixes put :: "'s \<Rightarrow> 'i \<Rightarrow> 's" and ok :: "'s \<Rightarrow> bool" and out :: "'s \<Rightarrow> bytes"
    and room :: "'s \<Rightarrow> nat" and inv :: "'s \<Rightarrow> bool"
    and render :: "'i \<Rightarrow> bytes" and fits :: "'i \<Rightarrow> bool"
  assumes put_ok: "inv s \<Longrightarrow> ok (put s i) \<longleftrightarrow> ok s \<and> fits i \<and> length (render i) \<le> room s"
    and put_out: "inv s \<Longrightarrow> ok (put s i) \<Longrightarrow> out (put s i) = out s @ render i"
    and put_room: "inv s \<Longrightarrow> ok (put s i) \<Longrightarrow> room (put s i) = room s - length (render i)"
    and put_inv: "inv s \<Longrightarrow> inv (put s i)"
begin

lemma puts_inv: "inv s \<Longrightarrow> inv (foldl put s is)"
  by (induction "is" arbitrary: s) (auto intro: put_inv)

lemma puts_latched: "inv s \<Longrightarrow> \<not> ok s \<Longrightarrow> \<not> ok (foldl put s is)"
proof (induction "is" arbitrary: s)
  case (Cons i "is")
  then have "inv (put s i)" and "\<not> ok (put s i)" by (simp_all add: put_inv put_ok)
  then show ?case using Cons.IH by simp
qed simp

lemma puts_out: "inv s \<Longrightarrow> ok (foldl put s is) \<Longrightarrow>
    out (foldl put s is) = out s @ concat (map render is)"
proof (induction "is" arbitrary: s)
  case Nil
  then show ?case by simp
next
  case (Cons i "is")
  then have "ok (put s i)" using puts_latched put_inv by fastforce
  with Cons show ?case by (simp add: put_out put_inv)
qed

lemma puts_ok: "inv s \<Longrightarrow> ok (foldl put s is) \<longleftrightarrow>
    ok s \<and> list_all fits is \<and> length (concat (map render is)) \<le> room s"
proof (induction "is" arbitrary: s)
  case Nil
  then show ?case by simp
next
  case (Cons i "is")
  show ?case
  proof (cases "ok (put s i)")
    case True
    with Cons show ?thesis by (auto simp: put_ok put_inv put_room)
  next
    case False
    with Cons.prems have "\<not> ok (foldl put (put s i) is)"
      by (intro puts_latched put_inv)
    with False Cons.prems show ?thesis by (auto simp: put_ok)
  qed
qed

end

text \<open>
  A text filter: whatever it is given, everything it lets through is in its alphabet, and it
  never writes more than its buffer holds.
\<close>

locale text_filter =
  fixes run :: "nat \<Rightarrow> bytes \<Rightarrow> bytes" and alphabet :: "byte \<Rightarrow> bool"
  assumes run_alphabet: "b \<in> set (run cap xs) \<Longrightarrow> alphabet b"
    and run_fits: "0 < cap \<Longrightarrow> length (run cap xs) < cap"
begin

lemma run_excludes: "\<not> alphabet b \<Longrightarrow> b \<notin> set (run cap xs)"
  using run_alphabet by blast

end

end
