(* ===== verification/Log.thy ===== *)
theory Log
  imports Prelude
begin

text \<open>
  src/log.c: the log lines and the escaping every untrusted string goes through before it
  reaches one.  A call of a logging function is a value, its level with the format string of
  the source and the arguments, and the operations of the other components return the lines
  they log, in order; \<open>vlogf\<close>'s formatting by the C library and the call of syslog are not
  modelled.  The module-wide debug flag is the argument \<open>debug_enabled\<close>.

  The lemmas: an escaped string is printable ASCII whatever went in, and nothing is lost:
  an uncut escape can be undone, and a cut one is the escape of a prefix.
\<close>

section \<open>Log lines\<close>

datatype log_level = LogInfo | LogNotice | LogWarning | LogErr | LogDebug

datatype log_arg = AStr bytes | ANum int

datatype log_line = Log (log_level: log_level) (log_fmt: string) (log_args: "log_arg list")

abbreviation ssoossh_infof where "ssoossh_infof \<equiv> Log LogInfo"
abbreviation ssoossh_noticef where "ssoossh_noticef \<equiv> Log LogNotice"
abbreviation ssoossh_warnf where "ssoossh_warnf \<equiv> Log LogWarning"
abbreviation ssoossh_errf where "ssoossh_errf \<equiv> Log LogErr"
abbreviation ssoossh_debugf where "ssoossh_debugf \<equiv> Log LogDebug"

text \<open>What reaches syslog: a debug line only with the flag set.\<close>

definition logged :: "bool \<Rightarrow> log_line list \<Rightarrow> log_line list" where
  "logged debug_enabled ls = filter (\<lambda>l. debug_enabled \<or> log_level l \<noteq> LogDebug) ls"

section \<open>Escaping\<close>

definition hex_digit :: "byte \<Rightarrow> byte" where
  "hex_digit n = bs ''0123456789abcdef'' ! unat n"

definition log_esc :: "byte \<Rightarrow> bytes" where
  "log_esc c =
     (if c = ch (CHR 0x22) \<or> c = ch (CHR 0x5C) then [ch (CHR 0x5C), c]
      else if 0x20 \<le> c \<and> c < 0x7f then [c]
      else [ch (CHR 0x5C), ch (CHR ''x''), hex_digit (drop_bit 4 c), hex_digit (c AND 0x0f)])"

fun log_escape_loop :: "nat \<Rightarrow> bytes \<Rightarrow> bytes \<Rightarrow> bool \<times> bytes" where
  "log_escape_loop out_cap [] out = (True, out)"
| "log_escape_loop out_cap (c # cs) out =
     (let esc = log_esc c in
      if length out + length esc \<ge> out_cap then (False, out)
      else log_escape_loop out_cap cs (out @ esc))"

text \<open>The verdict and the C string left in the buffer.\<close>

definition ssoossh_log_escape :: "bytes \<Rightarrow> nat \<Rightarrow> bool \<times> bytes" where
  "ssoossh_log_escape p out_cap =
     (if out_cap = 0 then (p = [], []) else log_escape_loop out_cap p [])"

text \<open>Every buffer this is called with is larger than the marker.\<close>

definition ssoossh_log_escape_str :: "bytes \<Rightarrow> nat \<Rightarrow> bytes" where
  "ssoossh_log_escape_str s out_cap =
     (case ssoossh_log_escape (c_str s) (out_cap - 3) of
        (True, out) \<Rightarrow> out
      | (False, out) \<Rightarrow> out @ bs ''...'')"

datatype ssoossh_fips_state = FIPS_UNSWITCHED | FIPS_OFF | FIPS_ON

text \<open>The versions of the module, its server and the two linked libraries are parameters.\<close>

definition ssoossh_log_version ::
  "bytes \<Rightarrow> bytes \<Rightarrow> bytes \<Rightarrow> ssoossh_fips_state \<Rightarrow> bytes \<Rightarrow> log_line list" where
  "ssoossh_log_version version ssoosshd crypto fips_state http =
     (let fips = (case fips_state of
                    FIPS_ON \<Rightarrow> bs '' | fips: on''
                  | FIPS_OFF \<Rightarrow> bs '' | fips: off''
                  | FIPS_UNSWITCHED \<Rightarrow> [])
      in [ssoossh_infof ''%s | ssoosshd: %s | crypto: %s%s | http: %s''
            [AStr version, AStr ssoosshd, AStr crypto, AStr fips, AStr http]])"

section \<open>What an escaped string contains\<close>

definition printable :: "byte \<Rightarrow> bool" where
  "printable b \<longleftrightarrow> 0x20 \<le> b \<and> b < 0x7f"

lemma hex_digits: "bs ''0123456789abcdef'' = [48, 49, 50, 51, 52, 53, 54, 55, 56, 57, 97, 98, 99, 100, 101, 102]"
  by simp

lemma hex_digit_code [code]:
  "hex_digit n = [48, 49, 50, 51, 52, 53, 54, 55, 56, 57, 97, 98, 99, 100, 101, 102] ! unat n"
  by (simp add: hex_digit_def)

text \<open>The value of a hexadecimal digit, lower case, as \<open>log_esc\<close> writes it.\<close>

definition hex_value :: "byte \<Rightarrow> byte option" where
  "hex_value b =
     (if 48 \<le> b \<and> b \<le> 57 then Some (b - 48)
      else if 97 \<le> b \<and> b \<le> 102 then Some (b - 87) else None)"

lemma nibble_cases:
  assumes "n < (16 :: byte)"
  shows "hex_value (hex_digit n) = Some n \<and> printable (hex_digit n)"
proof -
  have "list_all (\<lambda>n. hex_value (hex_digit n) = Some n \<and> printable (hex_digit n))
      (map of_nat [0..<16])"
    by code_simp
  moreover have "n \<in> set (map of_nat [0..<16])"
    using assms by (auto simp: word_less_nat_alt intro!: image_eqI [of _ _ "unat n"])
  ultimately show ?thesis by (auto simp: list_all_iff)
qed

lemma nibbles: "drop_bit 4 (c :: byte) < 16" "(c :: byte) AND 0x0f < 16"
  "push_bit 4 (drop_bit 4 c) OR (c AND 0x0f) = c"
proof -
  have m: "(0x0f :: byte) = mask 4" by (simp add: mask_eq_exp_minus_1)
  show "drop_bit 4 c < 16"
    using byte_lt [of c]
    by (simp add: word_less_nat_alt unsigned_drop_bit_eq drop_bit_eq_div unat_div less_mult_imp_div_less)
  show "c AND 0x0f < 16"
    by (simp add: m word_less_nat_alt and_mask_less' flip: take_bit_eq_mask)
      (simp add: unsigned_take_bit_eq take_bit_eq_mod unat_mod)
  show "push_bit 4 (drop_bit 4 c) OR (c AND 0x0f) = c"
    unfolding m by (rule bit_word_eqI) (auto simp: bit_simps)
qed

lemma log_esc_printable: "b \<in> set (log_esc c) \<Longrightarrow> printable b"
  using nibble_cases nibbles(1,2)
  by (auto simp: log_esc_def printable_def split: if_splits)

lemma log_escape_loop_eq:
  "\<exists>done rest. p = done @ rest \<and> snd (log_escape_loop cap p out) = out @ concat (map log_esc done) \<and>
    (fst (log_escape_loop cap p out) \<longleftrightarrow> rest = []) \<and>
    (length out < cap \<longrightarrow> length (snd (log_escape_loop cap p out)) < cap)"
proof (induction p arbitrary: out)
  case (Cons c p)
  show ?case
  proof (cases "length out + length (log_esc c) \<ge> cap")
    case True
    then show ?thesis by (intro exI [of _ "[]"] exI [of _ "c # p"]) simp
  next
    case False
    from Cons.IH [of "out @ log_esc c"] obtain d r where dr: "p = d @ r"
      "snd (log_escape_loop cap p (out @ log_esc c)) = (out @ log_esc c) @ concat (map log_esc d)"
      "fst (log_escape_loop cap p (out @ log_esc c)) \<longleftrightarrow> r = []"
      "length (out @ log_esc c) < cap \<longrightarrow> length (snd (log_escape_loop cap p (out @ log_esc c))) < cap"
      by blast
    with False show ?thesis by (intro exI [of _ "c # d"] exI [of _ r]) simp
  qed
qed simp


lemma ssoossh_log_escape_eq:
  obtains shown rest where "p = shown @ rest"
    "snd (ssoossh_log_escape p cap) = concat (map log_esc shown)"
    "fst (ssoossh_log_escape p cap) \<longleftrightarrow> rest = []"
proof (cases "cap = 0")
  case True
  then show ?thesis by (intro that [of "[]" p]) (simp_all add: ssoossh_log_escape_def)
next
  case False
  then show ?thesis
    using that log_escape_loop_eq [of p cap "[]"] by (auto simp: ssoossh_log_escape_def)
qed

interpretation escape: text_filter "\<lambda>cap p. snd (ssoossh_log_escape p cap)" printable
proof
  fix b cap p
  assume "b \<in> set (snd (ssoossh_log_escape p cap))"
  moreover obtain d r where "p = d @ r" "snd (ssoossh_log_escape p cap) = concat (map log_esc d)"
    by (rule ssoossh_log_escape_eq [of p cap])
  ultimately show "printable b" using log_esc_printable by auto
next
  fix cap :: nat and p :: bytes
  assume "0 < cap"
  then show "length (snd (ssoossh_log_escape p cap)) < cap"
    using log_escape_loop_eq [of p cap "[]"] by (auto simp: ssoossh_log_escape_def)
qed

lemma bs_dots: "bs ''...'' = [46, 46, 46]"
  by simp

lemma escape_str_printable: "b \<in> set (ssoossh_log_escape_str s cap) \<Longrightarrow> printable b"
  using escape.run_alphabet [of b "c_str s" "cap - 3"]
  by (cases "ssoossh_log_escape (c_str s) (cap - 3)")
    (auto simp: ssoossh_log_escape_str_def printable_def bs_dots split: bool.splits)

lemma escape_str_fits: "4 \<le> cap \<Longrightarrow> length (ssoossh_log_escape_str s cap) < cap"
  using escape.run_fits [of "cap - 3" "c_str s"]
  by (cases "ssoossh_log_escape (c_str s) (cap - 3)")
    (auto simp: ssoossh_log_escape_str_def split: bool.splits)

section \<open>Reading an escape back\<close>

definition hex_pair :: "byte \<Rightarrow> byte \<Rightarrow> byte option" where
  "hex_pair h l =
     (case hex_value h of None \<Rightarrow> None
      | Some x \<Rightarrow> (case hex_value l of None \<Rightarrow> None | Some y \<Rightarrow> Some (push_bit 4 x OR y)))"

fun log_unescape :: "bytes \<Rightarrow> bytes option" where
  "log_unescape [] = Some []"
| "log_unescape [c] = (if printable c \<and> c \<noteq> 34 \<and> c \<noteq> 92 then Some [c] else None)"
| "log_unescape (c # d # r) =
     (if c = 92 then
        (if d = 34 \<or> d = 92 then map_option (Cons d) (log_unescape r)
         else if d = 120 then
           (case r of h # l # r' \<Rightarrow>
              (case hex_pair h l of None \<Rightarrow> None
               | Some b \<Rightarrow> map_option (Cons b) (log_unescape r'))
            | _ \<Rightarrow> None)
         else None)
      else if printable c \<and> c \<noteq> 34 then map_option (Cons c) (log_unescape (d # r))
      else None)"

lemma hex_pair_digits: "hex_pair (hex_digit (drop_bit 4 c)) (hex_digit (c AND 0x0f)) = Some c"
  using nibble_cases [OF nibbles(1), of c] nibble_cases [OF nibbles(2), of c] nibbles(3) [of c]
  by (simp add: hex_pair_def)

lemma log_unescape_esc: "log_unescape (log_esc c @ r) = map_option (Cons c) (log_unescape r)"
proof -
  have "log_unescape (c # r) = map_option (Cons c) (log_unescape r)"
    if "printable c" "c \<noteq> 34" "c \<noteq> 92"
    using that by (cases r) simp_all
  then show ?thesis
    by (auto simp: log_esc_def hex_pair_digits printable_def)
qed

lemma log_unescape_concat: "log_unescape (concat (map log_esc p)) = Some p"
  by (induction p) (simp_all add: log_unescape_esc)

interpretation log_codec: codec "\<lambda>p. concat (map log_esc p)" log_unescape "\<lambda>p. True"
  by unfold_locales (simp add: log_unescape_concat)

lemma log_escape_loop_fits:
  "length out < cap \<Longrightarrow>
    fst (log_escape_loop cap p out) \<longleftrightarrow> length out + length (concat (map log_esc p)) < cap"
  by (induction p arbitrary: out) (auto simp: Let_def)

text \<open>
  C34: what the module writes into a log line for an untrusted byte string is printable ASCII
  within its buffer, and it is not ambiguous: reading the escapes back gives a prefix of the
  bytes that went in, and all of them exactly when the verdict is true, which is the case
  exactly when the whole escape and its terminator fit.
\<close>

theorem log_escape_faithful:
  "\<exists>shown rest. p = shown @ rest \<and>
    log_unescape (snd (ssoossh_log_escape p cap)) = Some shown \<and>
    (fst (ssoossh_log_escape p cap) \<longleftrightarrow> rest = []) \<and>
    (fst (ssoossh_log_escape p cap) \<longleftrightarrow> p = [] \<or> length (concat (map log_esc p)) < cap) \<and>
    list_all printable (snd (ssoossh_log_escape p cap)) \<and>
    length (snd (ssoossh_log_escape p cap)) \<le> cap - 1"
proof -
  obtain shown rest where *: "p = shown @ rest"
    "snd (ssoossh_log_escape p cap) = concat (map log_esc shown)"
    "fst (ssoossh_log_escape p cap) \<longleftrightarrow> rest = []"
    by (rule ssoossh_log_escape_eq)
  have "fst (ssoossh_log_escape p cap) \<longleftrightarrow> p = [] \<or> length (concat (map log_esc p)) < cap"
    using log_escape_loop_fits [of "[]" cap p] by (auto simp: ssoossh_log_escape_def)
  moreover have "list_all printable (snd (ssoossh_log_escape p cap))"
    using escape.run_alphabet by (auto simp: list_all_iff)
  moreover have "length (snd (ssoossh_log_escape p cap)) \<le> cap - 1"
    using escape.run_fits [of cap p] by (cases cap) (auto simp: ssoossh_log_escape_def)
  ultimately show ?thesis using * log_unescape_concat [of shown] by auto
qed

end
