(* ===== verification/Wire.thy ===== *)
theory Wire
  imports Prelude
begin

text \<open>
  src/sshwire.c: the SSH wire encoding (RFC 4251), read and written through one bounds-checked
  cursor each.  A reader is the blob it was initialised over, the offset of its cursor and the
  latched failure flag; the three pointers \<open>base\<close>, \<open>p\<close>, \<open>end\<close> of the source are offset 0,
  \<open>rd_pos\<close> and \<open>length rd_buf\<close>.  A writer is the capacity of its buffer, the bytes written so
  far (whose number is the field \<open>len\<close> of the source) and the flag.

  The lemmas: each read preserves the cursor invariant and never moves outside the blob, the
  latch is sticky, and reading undoes writing.
\<close>

section \<open>The reader\<close>

record ssh_rd =
  rd_buf :: bytes
  rd_pos :: nat
  rd_bad :: bool

definition ssh_rd_init :: "bytes \<Rightarrow> ssh_rd" where
  "ssh_rd_init buf = \<lparr>rd_buf = buf, rd_pos = 0, rd_bad = False\<rparr>"

definition rd_have :: "ssh_rd \<Rightarrow> nat \<Rightarrow> bool" where
  "rd_have r n \<longleftrightarrow> \<not> rd_bad r \<and> n \<le> length (rd_buf r) - rd_pos r"

definition ssh_rd_u8 :: "ssh_rd \<Rightarrow> byte \<times> ssh_rd" where
  "ssh_rd_u8 r =
     (if \<not> rd_have r 1 then (0, r\<lparr>rd_bad := True\<rparr>)
      else (rd_buf r ! rd_pos r, r\<lparr>rd_pos := rd_pos r + 1\<rparr>))"

text \<open>The big-endian assembly of \<open>ssh_rd_u32\<close>.\<close>

definition be32 :: "byte \<Rightarrow> byte \<Rightarrow> byte \<Rightarrow> byte \<Rightarrow> 32 word" where
  "be32 a b c d =
     push_bit 24 (ucast a) OR push_bit 16 (ucast b) OR push_bit 8 (ucast c) OR ucast d"

definition ssh_rd_u32 :: "ssh_rd \<Rightarrow> 32 word \<times> ssh_rd" where
  "ssh_rd_u32 r =
     (if \<not> rd_have r 4 then (0, r\<lparr>rd_bad := True\<rparr>)
      else (be32 (rd_buf r ! rd_pos r) (rd_buf r ! (rd_pos r + 1))
                 (rd_buf r ! (rd_pos r + 2)) (rd_buf r ! (rd_pos r + 3)),
            r\<lparr>rd_pos := rd_pos r + 4\<rparr>))"

definition ssh_rd_u64 :: "ssh_rd \<Rightarrow> 64 word \<times> ssh_rd" where
  "ssh_rd_u64 r =
     (let (hi, r1) = ssh_rd_u32 r; (lo, r2) = ssh_rd_u32 r1
      in (push_bit 32 (ucast hi) OR ucast lo, r2))"

text \<open>\<open>None\<close> is the return value false; \<open>Some b\<close> is true with the borrowed slice.\<close>

definition ssh_rd_str :: "ssh_rd \<Rightarrow> bytes option \<times> ssh_rd" where
  "ssh_rd_str r =
     (let (n, r1) = ssh_rd_u32 r
      in if \<not> rd_have r1 (unat n) then (None, r1\<lparr>rd_bad := True\<rparr>)
         else (Some (take (unat n) (drop (rd_pos r1) (rd_buf r1))),
               r1\<lparr>rd_pos := rd_pos r1 + unat n\<rparr>))"

text \<open>
  The copied name is used as a C string by every caller, so its value is the part of the
  field before the first NUL: the length test is on the field, not on that part.
\<close>

definition ssh_rd_cstr :: "ssh_rd \<Rightarrow> nat \<Rightarrow> bytes option \<times> ssh_rd" where
  "ssh_rd_cstr r out_cap =
     (case ssh_rd_str r of
        (None, r1) \<Rightarrow> (None, r1)
      | (Some p, r1) \<Rightarrow>
          if length p = 0 \<or> out_cap \<le> length p then (None, r1)
          else (Some (c_str p), r1))"

definition ssh_rd_skip_str :: "ssh_rd \<Rightarrow> bool \<times> ssh_rd" where
  "ssh_rd_skip_str r = (case ssh_rd_str r of (p, r1) \<Rightarrow> (p \<noteq> None, r1))"

definition ssh_rd_offset :: "ssh_rd \<Rightarrow> nat" where
  "ssh_rd_offset r = rd_pos r"

definition ssh_rd_remaining :: "ssh_rd \<Rightarrow> nat" where
  "ssh_rd_remaining r = (if rd_bad r then 0 else length (rd_buf r) - rd_pos r)"

definition ssh_rd_ok :: "ssh_rd \<Rightarrow> bool" where
  "ssh_rd_ok r \<longleftrightarrow> \<not> rd_bad r"

definition ssh_rd_done :: "ssh_rd \<Rightarrow> bool" where
  "ssh_rd_done r \<longleftrightarrow> \<not> rd_bad r \<and> rd_pos r = length (rd_buf r)"

section \<open>The writer\<close>

record ssh_wr =
  wr_cap :: nat
  wr_buf :: bytes
  wr_bad :: bool

definition ssh_wr_init :: "nat \<Rightarrow> ssh_wr" where
  "ssh_wr_init cap = \<lparr>wr_cap = cap, wr_buf = [], wr_bad = False\<rparr>"

definition ssh_wr_bytes :: "ssh_wr \<Rightarrow> bytes \<Rightarrow> ssh_wr" where
  "ssh_wr_bytes w p =
     (if wr_bad w \<or> wr_cap w - length (wr_buf w) < length p then w\<lparr>wr_bad := True\<rparr>
      else w\<lparr>wr_buf := wr_buf w @ p\<rparr>)"

definition u32_bytes :: "32 word \<Rightarrow> bytes" where
  "u32_bytes v = [ucast (drop_bit 24 v), ucast (drop_bit 16 v), ucast (drop_bit 8 v), ucast v]"

definition ssh_wr_u32 :: "ssh_wr \<Rightarrow> 32 word \<Rightarrow> ssh_wr" where
  "ssh_wr_u32 w v = ssh_wr_bytes w (u32_bytes v)"

definition ssh_wr_str :: "ssh_wr \<Rightarrow> bytes \<Rightarrow> ssh_wr" where
  "ssh_wr_str w p =
     (if 0xffffffff < length p then w\<lparr>wr_bad := True\<rparr>
      else ssh_wr_bytes (ssh_wr_u32 w (of_nat (length p))) p)"

definition ssh_wr_cstr :: "ssh_wr \<Rightarrow> bytes \<Rightarrow> ssh_wr" where
  "ssh_wr_cstr w s = ssh_wr_str w (c_str s)"

text \<open>\<open>dropWhile\<close> is the loop that skips the leading zero bytes of the magnitude.\<close>

definition ssh_wr_mpint :: "ssh_wr \<Rightarrow> bytes \<Rightarrow> ssh_wr" where
  "ssh_wr_mpint w p =
     (case dropWhile (\<lambda>b. b = 0) p of
        [] \<Rightarrow> ssh_wr_u32 w 0
      | b # q \<Rightarrow>
          if b AND 0x80 \<noteq> 0
          then ssh_wr_bytes
                 (ssh_wr_bytes (ssh_wr_u32 w (of_nat (length (b # q) + 1))) [0]) (b # q)
          else ssh_wr_str w (b # q))"

definition ssh_wr_ok :: "ssh_wr \<Rightarrow> bool" where
  "ssh_wr_ok w \<longleftrightarrow> \<not> wr_bad w"

definition ssh_wr_len :: "ssh_wr \<Rightarrow> nat" where
  "ssh_wr_len w = length (wr_buf w)"

section \<open>The cursor invariant and the latch\<close>

definition rd_inv :: "ssh_rd \<Rightarrow> bool" where
  "rd_inv r \<longleftrightarrow> rd_pos r \<le> length (rd_buf r)"

definition rd_rest :: "ssh_rd \<Rightarrow> bytes" where
  "rd_rest r = drop (rd_pos r) (rd_buf r)"

lemmas [wire_simps] =
  ssh_rd_init_def rd_have_def ssh_rd_u8_def ssh_rd_u32_def ssh_rd_u64_def ssh_rd_str_def
  ssh_rd_skip_str_def ssh_rd_offset_def ssh_rd_remaining_def ssh_rd_ok_def ssh_rd_done_def
  rd_inv_def

text \<open>
  The contract every accessor of the reader keeps: the blob is never changed, the cursor only
  moves forward and stays inside the blob, and once the flag is set a read is a no-op that
  returns its failure value.
\<close>

locale latched_reader =
  fixes read :: "ssh_rd \<Rightarrow> 'a \<times> ssh_rd" and failed :: 'a
  assumes read_inv: "rd_inv r \<Longrightarrow> rd_inv (snd (read r))"
    and read_buf: "rd_buf (snd (read r)) = rd_buf r"
    and read_pos: "rd_pos r \<le> rd_pos (snd (read r))"
    and read_latched: "rd_bad r \<Longrightarrow> read r = (failed, r)"
begin

lemma ok_before: "ssh_rd_ok (snd (read r)) \<Longrightarrow> ssh_rd_ok r"
  using read_latched [of r] by (auto simp: ssh_rd_ok_def)

lemma in_bounds: "rd_inv r \<Longrightarrow>
    ssh_rd_offset r \<le> ssh_rd_offset (snd (read r)) \<and>
    ssh_rd_offset (snd (read r)) \<le> length (rd_buf r)"
  using read_inv [of r] read_buf [of r] read_pos [of r]
  by (simp add: ssh_rd_offset_def rd_inv_def)

lemma chain_contract: "rd_inv r \<Longrightarrow>
    rd_inv (((\<lambda>s. snd (read s)) ^^ n) r) \<and> rd_buf (((\<lambda>s. snd (read s)) ^^ n) r) = rd_buf r \<and>
    (rd_bad r \<longrightarrow> ((\<lambda>s. snd (read s)) ^^ n) r = r)"
proof (induction n)
  case (Suc n)
  then show ?case by (simp add: read_inv read_buf read_latched)
qed simp

end

interpretation u8: latched_reader ssh_rd_u8 0
  by unfold_locales (auto simp: wire_simps)

interpretation u32: latched_reader ssh_rd_u32 0
  by unfold_locales (auto simp: wire_simps)

interpretation u64: latched_reader ssh_rd_u64 0
proof unfold_locales
  fix r
  show "rd_inv r \<Longrightarrow> rd_inv (snd (ssh_rd_u64 r))"
    by (simp add: ssh_rd_u64_def split_beta u32.read_inv)
  show "rd_buf (snd (ssh_rd_u64 r)) = rd_buf r"
    by (simp add: ssh_rd_u64_def split_beta u32.read_buf)
  show "rd_pos r \<le> rd_pos (snd (ssh_rd_u64 r))"
    using order_trans [OF u32.read_pos u32.read_pos] by (simp add: ssh_rd_u64_def split_beta)
  show "rd_bad r \<Longrightarrow> ssh_rd_u64 r = (0, r)"
    by (simp add: ssh_rd_u64_def split_beta u32.read_latched)
qed

interpretation str: latched_reader ssh_rd_str None
proof unfold_locales
  fix r
  have buf: "rd_buf (snd (ssh_rd_u32 r)) = rd_buf r" by (rule u32.read_buf)
  show "rd_buf (snd (ssh_rd_str r)) = rd_buf r"
    by (simp add: ssh_rd_str_def split_beta buf)
  show "rd_pos r \<le> rd_pos (snd (ssh_rd_str r))"
    using u32.read_pos [of r] by (simp add: ssh_rd_str_def split_beta)
  show "rd_inv r \<Longrightarrow> rd_inv (snd (ssh_rd_str r))"
    using u32.read_inv [of r]
    by (auto simp: ssh_rd_str_def split_beta rd_inv_def rd_have_def buf)
  show "rd_bad r \<Longrightarrow> ssh_rd_str r = (None, r)"
    by (simp add: ssh_rd_str_def u32.read_latched rd_have_def)
qed

interpretation cstr: latched_reader "\<lambda>r. ssh_rd_cstr r cap" None for cap
proof unfold_locales
  fix r
  show "rd_inv r \<Longrightarrow> rd_inv (snd (ssh_rd_cstr r cap))"
    using str.read_inv [of r] by (auto simp: ssh_rd_cstr_def split: prod.splits option.splits)
  show "rd_buf (snd (ssh_rd_cstr r cap)) = rd_buf r"
    using str.read_buf [of r] by (auto simp: ssh_rd_cstr_def split: prod.splits option.splits)
  show "rd_pos r \<le> rd_pos (snd (ssh_rd_cstr r cap))"
    using str.read_pos [of r] by (auto simp: ssh_rd_cstr_def split: prod.splits option.splits)
  show "rd_bad r \<Longrightarrow> ssh_rd_cstr r cap = (None, r)"
    by (simp add: ssh_rd_cstr_def str.read_latched)
qed

interpretation skip: latched_reader ssh_rd_skip_str False
proof unfold_locales
  fix r
  show "rd_inv r \<Longrightarrow> rd_inv (snd (ssh_rd_skip_str r))"
    using str.read_inv [of r] by (simp add: ssh_rd_skip_str_def split_beta)
  show "rd_buf (snd (ssh_rd_skip_str r)) = rd_buf r"
    using str.read_buf [of r] by (simp add: ssh_rd_skip_str_def split_beta)
  show "rd_pos r \<le> rd_pos (snd (ssh_rd_skip_str r))"
    using str.read_pos [of r] by (simp add: ssh_rd_skip_str_def split_beta)
  show "rd_bad r \<Longrightarrow> ssh_rd_skip_str r = (False, r)"
    by (simp add: ssh_rd_skip_str_def str.read_latched)
qed

lemma rd_inv_init [simp]: "rd_inv (ssh_rd_init b)"
  by (simp add: wire_simps)

section \<open>Big-endian integers\<close>

lemma be32_u32_bytes [simp]:
  "be32 (ucast (drop_bit 24 v)) (ucast (drop_bit 16 v)) (ucast (drop_bit 8 v)) (ucast v) = v"
proof (rule bit_word_eqI)
  fix n
  assume "n < LENGTH(32)"
  then consider "n < 8" | "8 \<le> n" "n < 16" | "16 \<le> n" "n < 24" | "24 \<le> n" "n < 32"
    by fastforce
  then show "bit (be32 (ucast (drop_bit 24 v)) (ucast (drop_bit 16 v)) (ucast (drop_bit 8 v))
      (ucast v)) n = bit v n"
    by cases (auto simp: be32_def bit_simps)
qed

lemma byte_bit_high: "8 \<le> n \<Longrightarrow> \<not> bit (b :: byte) n"
  using bit_imp_le_length [of b n] by auto

lemma u32_bytes_be32 [simp]: "u32_bytes (be32 a b c d) = [a, b, c, d]"
  unfolding be32_def u32_bytes_def
  by (auto intro!: bit_word_eqI simp: bit_simps byte_bit_high)

lemma u64_roundtrip:
  "push_bit 32 (ucast (ucast (drop_bit 32 (v :: 64 word)) :: 32 word)) OR
     ucast (ucast v :: 32 word) = (v :: 64 word)"
proof (rule bit_word_eqI)
  fix n
  assume "n < LENGTH(64)"
  then consider "n < 32" | "32 \<le> n" "n < 64" by fastforce
  then show "bit (push_bit 32 (ucast (ucast (drop_bit 32 v) :: 32 word)) OR
     ucast (ucast v :: 32 word)  :: 64 word) n = bit v n"
    by cases (auto simp: bit_simps)
qed

lemma u32_bytes_nonempty [simp]: "u32_bytes v \<noteq> []"
  by (simp add: u32_bytes_def)

lemma length_u32_bytes [simp]: "length (u32_bytes v) = 4"
  by (simp add: u32_bytes_def)

lemma u32_bytes_inj [simp]: "u32_bytes v = u32_bytes w \<longleftrightarrow> v = w"
proof
  assume "u32_bytes v = u32_bytes w"
  then have "be32 (u32_bytes v ! 0) (u32_bytes v ! 1) (u32_bytes v ! 2) (u32_bytes v ! 3) =
    be32 (u32_bytes w ! 0) (u32_bytes w ! 1) (u32_bytes w ! 2) (u32_bytes w ! 3)"
    by (rule arg_cong)
  then show "v = w" by (simp add: u32_bytes_def)
qed simp


section \<open>Reading undoes writing\<close>

definition put_str :: "bytes \<Rightarrow> bytes" where
  "put_str p = u32_bytes (of_nat (length p)) @ p"

definition get_u32 :: "bytes \<Rightarrow> (32 word \<times> bytes) option" where
  "get_u32 b = (if length b < 4 then None else Some (be32 (b!0) (b!1) (b!2) (b!3), drop 4 b))"

definition get_str :: "bytes \<Rightarrow> (bytes \<times> bytes) option" where
  "get_str b =
     (case get_u32 b of None \<Rightarrow> None
      | Some (n, r) \<Rightarrow> if length r < unat n then None else Some (take (unat n) r, drop (unat n) r))"

lemma get_u32_bytes [simp]: "get_u32 (u32_bytes v @ r) = Some (v, r)"
  by (simp add: get_u32_def u32_bytes_def)

lemma unat_length32: "length p < 2 ^ 32 \<Longrightarrow> unat (of_nat (length p) :: 32 word) = length p"
  by (simp add: unat_of_nat)

interpretation ssh_string: prefix_codec put_str get_str "\<lambda>p. length p < 2 ^ 32"
  by unfold_locales (simp_all add: put_str_def get_str_def unat_length32)

text \<open>
  The cursor operations as functions of what is left to read.
\<close>

lemma rd_rest_init [simp]: "rd_rest (ssh_rd_init b) = b" "\<not> rd_bad (ssh_rd_init b)"
    "rd_buf (ssh_rd_init b) = b" "rd_pos (ssh_rd_init b) = 0"
  by (simp_all add: rd_rest_def ssh_rd_init_def)

lemma rd_rest_advance: "rd_rest (r\<lparr>rd_pos := rd_pos r + n\<rparr>) = drop n (rd_rest r)"
  by (simp add: rd_rest_def add.commute)

lemma length_rd_rest: "length (rd_rest r) = length (rd_buf r) - rd_pos r"
  by (simp add: rd_rest_def)

lemma ssh_rd_u32_get:
  assumes "\<not> rd_bad r"
  shows "ssh_rd_u32 r =
    (case get_u32 (rd_rest r) of None \<Rightarrow> (0, r\<lparr>rd_bad := True\<rparr>)
     | Some (v, q) \<Rightarrow> (v, r\<lparr>rd_pos := rd_pos r + 4\<rparr>))"
  using assms
  by (simp add: ssh_rd_u32_def rd_have_def get_u32_def length_rd_rest not_le)
    (simp add: rd_rest_def)

lemma ssh_rd_str_get:
  assumes "\<not> rd_bad r" and "rd_inv r"
  shows "get_str (rd_rest r) = Some (p, q) \<Longrightarrow>
      ssh_rd_str r = (Some p, r\<lparr>rd_pos := rd_pos r + 4 + length p\<rparr>) \<and>
      rd_rest (snd (ssh_rd_str r)) = q \<and> length p + length q + 4 = length (rd_rest r)"
    and "get_str (rd_rest r) = None \<Longrightarrow>
      fst (ssh_rd_str r) = None \<and> rd_bad (snd (ssh_rd_str r))"
proof -
  have len: "length (rd_rest r) = length (rd_buf r) - rd_pos r" by (rule length_rd_rest)
  {
    assume "get_str (rd_rest r) = Some (p, q)"
    then obtain n s where n: "get_u32 (rd_rest r) = Some (n, s)" "unat n \<le> length s"
        "p = take (unat n) s" "q = drop (unat n) s"
      by (auto simp: get_str_def split: option.splits if_splits)
    then have s: "s = drop (rd_pos r + 4) (rd_buf r)" "4 \<le> length (rd_rest r)"
      by (auto simp: get_u32_def rd_rest_def add.commute split: if_splits)
    have "ssh_rd_u32 r = (n, r\<lparr>rd_pos := rd_pos r + 4\<rparr>)"
      using assms n by (simp add: ssh_rd_u32_get)
    with n s assms len
    show "ssh_rd_str r = (Some p, r\<lparr>rd_pos := rd_pos r + 4 + length p\<rparr>) \<and>
      rd_rest (snd (ssh_rd_str r)) = q \<and> length p + length q + 4 = length (rd_rest r)"
      by (auto simp: ssh_rd_str_def rd_have_def rd_rest_def add.commute min_def)
  }
  assume *: "get_str (rd_rest r) = None"
  show "fst (ssh_rd_str r) = None \<and> rd_bad (snd (ssh_rd_str r))"
  proof (cases "get_u32 (rd_rest r)")
    case None
    with assms show ?thesis by (simp add: ssh_rd_str_def ssh_rd_u32_get rd_have_def)
  next
    case (Some a)
    then obtain n s where a: "get_u32 (rd_rest r) = Some (n, s)" by (cases a) auto
    then have "length s = length (rd_buf r) - (rd_pos r + 4)"
      by (auto simp: get_u32_def rd_rest_def split: if_splits)
    with a * assms show ?thesis
      by (auto simp: get_str_def ssh_rd_str_def ssh_rd_u32_get rd_have_def split: if_splits)
  qed
qed

section \<open>The writer as a bounded sink\<close>

definition wr_inv :: "ssh_wr \<Rightarrow> bool" where
  "wr_inv w \<longleftrightarrow> length (wr_buf w) \<le> wr_cap w"

definition wr_room :: "ssh_wr \<Rightarrow> nat" where
  "wr_room w = wr_cap w - length (wr_buf w)"

lemmas [wire_simps] =
  ssh_wr_init_def ssh_wr_bytes_def ssh_wr_u32_def ssh_wr_str_def ssh_wr_cstr_def
  ssh_wr_ok_def ssh_wr_len_def wr_inv_def wr_room_def

interpretation wr: bounded_sink ssh_wr_bytes ssh_wr_ok wr_buf wr_room wr_inv "\<lambda>p. p" "\<lambda>p. True"
  by unfold_locales (auto simp: wire_simps)

interpretation wr_u32: bounded_sink ssh_wr_u32 ssh_wr_ok wr_buf wr_room wr_inv u32_bytes "\<lambda>v. True"
  by unfold_locales (auto simp: wire_simps)

interpretation wr_str: bounded_sink ssh_wr_str ssh_wr_ok wr_buf wr_room wr_inv put_str
  "\<lambda>p. length p < 2 ^ 32"
proof unfold_locales
  fix w :: ssh_wr and p :: bytes
  let ?u = "ssh_wr_u32 w (of_nat (length p))"
  assume inv: "wr_inv w"
  note u = wr_u32.put_ok [OF inv, of "of_nat (length p)"] wr_u32.put_out [OF inv]
    wr_u32.put_room [OF inv] wr_u32.put_inv [OF inv]
  show ok: "ssh_wr_ok (ssh_wr_str w p) \<longleftrightarrow>
      ssh_wr_ok w \<and> length p < 2 ^ 32 \<and> length (put_str p) \<le> wr_room w"
    using inv by (auto simp: wire_simps put_str_def)
  show "ssh_wr_ok (ssh_wr_str w p) \<Longrightarrow> wr_buf (ssh_wr_str w p) = wr_buf w @ put_str p"
    by (auto simp: wire_simps put_str_def split: if_splits)
  show "ssh_wr_ok (ssh_wr_str w p) \<Longrightarrow>
      wr_room (ssh_wr_str w p) = wr_room w - length (put_str p)"
    by (auto simp: wire_simps put_str_def split: if_splits)
  show "wr_inv (ssh_wr_str w p)"
    using inv by (auto simp: wire_simps)
qed

lemma wr_init [simp]: "ssh_wr_ok (ssh_wr_init cap)" "wr_buf (ssh_wr_init cap) = []"
    "wr_room (ssh_wr_init cap) = cap" "wr_inv (ssh_wr_init cap)" "wr_cap (ssh_wr_init cap) = cap"
  by (simp_all add: wire_simps)

section \<open>mpint\<close>

primrec be_value :: "bytes \<Rightarrow> nat" where
  "be_value [] = 0"
| "be_value (b # p) = unat b * 256 ^ length p + be_value p"

definition minimal_nonneg :: "bytes \<Rightarrow> bool" where
  "minimal_nonneg m \<longleftrightarrow>
     (case m of [] \<Rightarrow> True
      | b # q \<Rightarrow> \<not> bit b 7 \<and> (b = 0 \<longrightarrow> (case q of [] \<Rightarrow> False | c # _ \<Rightarrow> bit c 7)))"

definition mpint_body :: "bytes \<Rightarrow> bytes" where
  "mpint_body p =
     (case dropWhile (\<lambda>b. b = 0) p of [] \<Rightarrow> []
      | b # q \<Rightarrow> if b AND 0x80 \<noteq> 0 then 0 # b # q else b # q)"

lemma be_value_dropWhile: "be_value (dropWhile (\<lambda>b. b = 0) p) = be_value p"
  by (induction p) auto

lemma and_80_bit7: "(b :: byte) AND 0x80 \<noteq> 0 \<longleftrightarrow> bit b 7"
proof -
  have "b AND 2 ^ 7 = 0 \<longleftrightarrow> \<not> bit b 7" by (rule and_exp_eq_0_iff_not_bit)
  then show ?thesis by simp
qed

lemma mpint_body_cases:
  "dropWhile (\<lambda>b. b = 0) p = [] \<Longrightarrow> mpint_body p = []"
  "dropWhile (\<lambda>b. b = 0) p = b # q \<Longrightarrow>
    mpint_body p = (if bit b 7 then 0 # b # q else b # q)"
  by (simp_all only: mpint_body_def list.case and_80_bit7)

lemma mpint_body_value: "be_value (mpint_body p) = be_value p"
proof (cases "dropWhile (\<lambda>b. b = 0) p")
  case Nil
  then show ?thesis
    using be_value_dropWhile [of p] by (simp only: mpint_body_cases be_value.simps)
next
  case (Cons b q)
  then show ?thesis
    using be_value_dropWhile [of p] by (simp add: mpint_body_cases)
qed

lemma mpint_body_minimal: "minimal_nonneg (mpint_body p)"
proof (cases "dropWhile (\<lambda>b. b = 0) p")
  case Nil
  then show ?thesis by (simp only: mpint_body_cases minimal_nonneg_def list.case)
next
  case (Cons b q)
  then have "b \<noteq> 0" by (rule dropWhile_neq_Nil_hd)
  with Cons show ?thesis by (simp add: mpint_body_cases minimal_nonneg_def)
qed

lemma ssh_wr_mpint_cases:
  "dropWhile (\<lambda>b. b = 0) p = [] \<Longrightarrow> ssh_wr_mpint w p = ssh_wr_u32 w 0"
  "dropWhile (\<lambda>b. b = 0) p = b # q \<Longrightarrow> ssh_wr_mpint w p =
    (if bit b 7
     then ssh_wr_bytes (ssh_wr_bytes (ssh_wr_u32 w (of_nat (length (b # q) + 1))) [0]) (b # q)
     else ssh_wr_str w (b # q))"
  by (simp_all only: ssh_wr_mpint_def list.case and_80_bit7)

lemma ssh_wr_mpint_body:
  assumes inv: "wr_inv w" and ok: "ssh_wr_ok (ssh_wr_mpint w p)"
  shows "wr_buf (ssh_wr_mpint w p) = wr_buf w @ put_str (mpint_body p)"
proof (cases "dropWhile (\<lambda>b. b = 0) p")
  case Nil
  with ok show ?thesis
    by (simp only: ssh_wr_mpint_cases mpint_body_cases wr_u32.put_out [OF inv])
      (simp add: put_str_def)
next
  case (Cons b q)
  let ?u = "ssh_wr_u32 w (of_nat (length (b # q) + 1))"
  show ?thesis
  proof (cases "bit b 7")
    case True
    with Cons have m: "ssh_wr_mpint w p = ssh_wr_bytes (ssh_wr_bytes ?u [0]) (b # q)"
      by (simp add: ssh_wr_mpint_cases)
    have i: "wr_inv ?u" "wr_inv (ssh_wr_bytes ?u [0])"
      by (intro wr.put_inv wr_u32.put_inv inv)+
    from ok m i have "ssh_wr_ok (ssh_wr_bytes ?u [0])" "ssh_wr_ok ?u"
      by (auto simp: wr.put_ok)
    with ok m i inv have "wr_buf (ssh_wr_mpint w p) =
        ((wr_buf w @ u32_bytes (of_nat (length (b # q) + 1))) @ [0]) @ b # q"
      by (simp only: wr.put_out wr_u32.put_out)
    with True Cons show ?thesis by (simp add: mpint_body_cases put_str_def)
  next
    case False
    with Cons ok inv show ?thesis by (simp add: ssh_wr_mpint_cases mpint_body_cases wr_str.put_out)
  qed
qed

section \<open>Any sequence of reads\<close>

datatype rd_op = RdU8 | RdU32 | RdU64 | RdStr | RdCstr nat | RdSkip

fun rd_step :: "ssh_rd \<Rightarrow> rd_op \<Rightarrow> ssh_rd" where
  "rd_step r RdU8 = snd (ssh_rd_u8 r)"
| "rd_step r RdU32 = snd (ssh_rd_u32 r)"
| "rd_step r RdU64 = snd (ssh_rd_u64 r)"
| "rd_step r RdStr = snd (ssh_rd_str r)"
| "rd_step r (RdCstr cap) = snd (ssh_rd_cstr r cap)"
| "rd_step r RdSkip = snd (ssh_rd_skip_str r)"

lemma get_u32_Some: "get_u32 b = Some (n, s) \<Longrightarrow> b = u32_bytes n @ s"
proof -
  assume *: "get_u32 b = Some (n, s)"
  then have "4 \<le> length b" by (auto simp: get_u32_def split: if_splits)
  then obtain c d e f q where "b = c # d # e # f # q"
    by (auto simp: numeral_eq_Suc Suc_le_length_iff)
  with * show ?thesis by (auto simp: get_u32_def)
qed

lemmas rd_step_bufs = u8.read_buf u32.read_buf u64.read_buf str.read_buf cstr.read_buf skip.read_buf
lemmas rd_step_invs = u8.read_inv u32.read_inv u64.read_inv str.read_inv cstr.read_inv skip.read_inv
lemmas rd_step_poss = u8.read_pos u32.read_pos u64.read_pos str.read_pos cstr.read_pos skip.read_pos
lemmas rd_step_latched = u8.read_latched u32.read_latched u64.read_latched str.read_latched
  cstr.read_latched skip.read_latched

lemma rd_step_buf: "rd_buf (rd_step r op) = rd_buf r"
  by (cases op) (simp_all add: rd_step_bufs)

lemma rd_step_inv: "rd_inv r \<Longrightarrow> rd_inv (rd_step r op)"
  by (cases op) (simp_all add: rd_step_invs)

lemma rd_step_pos: "rd_pos r \<le> rd_pos (rd_step r op)"
  by (cases op) (simp_all add: rd_step_poss)

lemma rd_step_bad: "rd_bad r \<Longrightarrow> rd_step r op = r"
  by (cases op) (simp_all add: rd_step_latched)

lemma rd_steps_inv: "rd_inv r \<Longrightarrow> rd_inv (foldl rd_step r ops)"
  by (induction ops arbitrary: r) (simp_all add: rd_step_inv)

lemma rd_steps_buf: "rd_buf (foldl rd_step r ops) = rd_buf r"
  by (induction ops arbitrary: r) (simp_all add: rd_step_buf)

lemma rd_steps_bad: "rd_bad r \<Longrightarrow> foldl rd_step r ops = r"
  by (induction ops arbitrary: r) (simp_all add: rd_step_bad)



text \<open>
  Reading a string succeeds exactly when the four length bytes are there and the length
  they announce does not run past the end of the blob; then the slice is exactly the announced
  bytes and the cursor stands right behind them.  In every other case, the hostile length
  0xffffffff included, nothing is returned and the failure is latched.
\<close>

theorem ssh_rd_str_bounds:
  assumes "rd_inv r" and "\<not> rd_bad r"
  shows "case ssh_rd_str r of
      (Some p, r') \<Rightarrow>
        ssh_rd_remaining r \<ge> 4 \<and>
        p = take (length p) (drop (ssh_rd_offset r + 4) (rd_buf r)) \<and>
        u32_bytes (of_nat (length p)) = take 4 (drop (ssh_rd_offset r) (rd_buf r)) \<and>
        ssh_rd_offset r' = ssh_rd_offset r + 4 + length p \<and>
        ssh_rd_offset r' \<le> length (rd_buf r) \<and> ssh_rd_ok r'
    | (None, r') \<Rightarrow>
        \<not> ssh_rd_ok r' \<and>
        (\<forall>a b c d q. drop (ssh_rd_offset r) (rd_buf r) = a # b # c # d # q \<longrightarrow>
           length q < unat (be32 a b c d))"
proof (cases "get_str (rd_rest r)")
  case None
  then have "fst (ssh_rd_str r) = None \<and> rd_bad (snd (ssh_rd_str r))"
    using assms ssh_rd_str_get(2) by simp
  moreover have "length q < unat (be32 a b c d)" if "rd_rest r = a # b # c # d # q" for a b c d q
    using None that by (simp add: get_str_def get_u32_def split: if_splits)
  ultimately show ?thesis
    by (auto simp: ssh_rd_ok_def ssh_rd_offset_def rd_rest_def split: prod.splits option.splits)
next
  case (Some pq)
  then obtain p q where pq: "get_str (rd_rest r) = Some (p, q)" by (cases pq) auto
  then obtain n s where n: "get_u32 (rd_rest r) = Some (n, s)" "unat n \<le> length s"
      "p = take (unat n) s"
    by (auto simp: get_str_def split: option.splits if_splits)
  have rest: "rd_rest r = u32_bytes n @ s" using n(1) by (rule get_u32_Some)
  then have at: "take 4 (drop (rd_pos r) (rd_buf r)) = u32_bytes n"
      "drop 4 (drop (rd_pos r) (rd_buf r)) = s"
    by (simp_all add: rd_rest_def)
  have len: "4 + length s = length (rd_buf r) - rd_pos r"
    using rest length_rd_rest [of r] by simp
  have pn: "length p = unat n" "of_nat (length p) = n" using n by simp_all
  have "ssh_rd_str r = (Some p, r\<lparr>rd_pos := rd_pos r + 4 + length p\<rparr>)"
    using ssh_rd_str_get(1) [OF assms(2,1) pq] by simp
  with at len pn n assms show ?thesis
    by (simp add: ssh_rd_offset_def ssh_rd_remaining_def ssh_rd_ok_def rd_inv_def add.commute)
qed

theorem ssh_rd_str_bounds_witness:
  "ssh_rd_str (ssh_rd_init [0, 0, 0, 1, 65, 7]) =
     (Some [65], \<lparr>rd_buf = [0, 0, 0, 1, 65, 7], rd_pos = 5, rd_bad = False\<rparr>) \<and>
   fst (ssh_rd_str (ssh_rd_init [255, 255, 255, 255, 65])) = None \<and>
   \<not> ssh_rd_ok (snd (ssh_rd_str (ssh_rd_init [255, 255, 255, 255, 65])))"
proof -
  have "fst (ssh_rd_str (ssh_rd_init [255, 255, 255, 255, 65])) = None" by code_simp
  moreover have "ssh_rd_str (ssh_rd_init [0, 0, 0, 1, 65, 7]) =
     (Some [65], \<lparr>rd_buf = [0, 0, 0, 1, 65, 7], rd_pos = 5, rd_bad = False\<rparr>)" by code_simp
  ultimately show ?thesis
    using ssh_rd_str_bounds [of "ssh_rd_init [255, 255, 255, 255, 65]"]
    by (auto split: prod.splits option.splits)
qed

lemma be_value_bound: "be_value p < 256 ^ length p"
proof (induction p)
  case (Cons b p)
  have "unat b * 256 ^ length p + be_value p < (unat b + 1) * 256 ^ length p"
    using Cons by (simp add: distrib_right)
  also have "\<dots> \<le> 256 * 256 ^ length p"
    using byte_lt [of b] by (intro mult_right_mono) linarith+
  finally show ?case by simp
qed simp

lemma be_value_hd: "b \<noteq> 0 \<Longrightarrow> 256 ^ length p \<le> be_value (b # p)"
proof -
  assume "b \<noteq> 0"
  then have "1 \<le> unat b" by (rule byte_pos)
  then have "1 * 256 ^ length p \<le> unat b * 256 ^ length p" by (rule mult_right_mono) simp
  then show ?thesis by (simp add: trans_le_add1)
qed

lemma be_value_inj: "length p = length q \<Longrightarrow> be_value p = be_value q \<Longrightarrow> p = q"
proof (induction p q rule: list_induct2)
  case (Cons b p c q)
  let ?k = "256 ^ length p :: nat"
  have eq: "unat b * ?k + be_value p = unat c * ?k + be_value q"
    using Cons by simp
  have "(unat b * ?k + be_value p) div ?k = unat b" "(unat b * ?k + be_value p) mod ?k = be_value p"
    "(unat c * ?k + be_value q) div ?k = unat c" "(unat c * ?k + be_value q) mod ?k = be_value q"
    using be_value_bound [of p] be_value_bound [of q] Cons.hyps by simp_all
  then have "unat b = unat c \<and> be_value p = be_value q" unfolding eq by simp
  then show ?case using Cons.IH by (simp add: word_unat_eq_iff)
qed simp

lemma be_value_no_zero_inj:
  assumes "p = [] \<or> hd p \<noteq> 0" "q = [] \<or> hd q \<noteq> 0" "be_value p = be_value q"
  shows "p = q"
proof -
  have len: "length s \<le> length t"
    if "s = [] \<or> hd s \<noteq> 0" "be_value s = be_value t" for s t
  proof (cases s)
    case (Cons b s')
    then have "256 ^ length s' \<le> be_value s" using that be_value_hd [of b s'] by simp
    also have "\<dots> < 256 ^ length t" using that be_value_bound [of t] by simp
    finally have "256 ^ length s' < (256 :: nat) ^ length t" .
    then have "length s' < length t" by (rule power_less_imp_less_exp [rotated]) simp
    with Cons show ?thesis by simp
  qed simp
  have "length p = length q" using len [of p q] len [of q p] assms by simp
  then show ?thesis using assms(3) by (rule be_value_inj)
qed

lemma mpint_body_unique: "be_value p = be_value q \<Longrightarrow> mpint_body p = mpint_body q"
proof -
  assume *: "be_value p = be_value q"
  have hd: "dropWhile (\<lambda>b. b = 0) s = [] \<or> hd (dropWhile (\<lambda>b. b = 0) s) \<noteq> 0" for s :: bytes
    using hd_dropWhile [of "\<lambda>b. b = 0" s] by blast
  have "dropWhile (\<lambda>b. b = 0) p = dropWhile (\<lambda>b. b = 0) q"
    by (rule be_value_no_zero_inj [OF hd hd]) (simp add: be_value_dropWhile *)
  then show "mpint_body p = mpint_body q" by (simp only: mpint_body_def)
qed

text \<open>
  When the mpint writer succeeds, what it appended is one length-prefixed string whose
  body is a minimal non-negative two's-complement integer with the same value as the magnitude
  it was given, whatever leading zero bytes that carried; any other magnitude of the same
  value gives the same bytes.
\<close>

theorem ssh_wr_mpint_canonical:
  assumes "ssh_wr_ok (ssh_wr_mpint (ssh_wr_init cap) p)"
  shows "\<exists>m. wr_buf (ssh_wr_mpint (ssh_wr_init cap) p) = put_str m \<and>
      be_value m = be_value p \<and> minimal_nonneg m \<and>
      (\<forall>q. be_value q = be_value p \<and> ssh_wr_ok (ssh_wr_mpint (ssh_wr_init cap) q) \<longrightarrow>
        wr_buf (ssh_wr_mpint (ssh_wr_init cap) q) = put_str m)"
proof (intro exI conjI allI impI)
  show "wr_buf (ssh_wr_mpint (ssh_wr_init cap) p) = put_str (mpint_body p)"
    using ssh_wr_mpint_body [OF wr_init(4) assms] by simp
  fix q
  assume "be_value q = be_value p \<and> ssh_wr_ok (ssh_wr_mpint (ssh_wr_init cap) q)"
  then show "wr_buf (ssh_wr_mpint (ssh_wr_init cap) q) = put_str (mpint_body p)"
    using ssh_wr_mpint_body [OF wr_init(4), of cap q] mpint_body_unique [of q p] by simp
qed (rule mpint_body_value mpint_body_minimal)+

theorem ssh_wr_mpint_canonical_witness:
  "wr_buf (ssh_wr_mpint (ssh_wr_init 16) [0, 0, 200, 1]) = [0, 0, 0, 3, 0, 200, 1] \<and>
   (\<exists>m. put_str m = [0, 0, 0, 3, 0, 200, 1] \<and>
      be_value m = be_value [0, 0, 200, 1] \<and> minimal_nonneg m)"
proof -
  have "ssh_wr_ok (ssh_wr_mpint (ssh_wr_init 16) [0, 0, 200, 1])" by code_simp
  moreover have "wr_buf (ssh_wr_mpint (ssh_wr_init 16) [0, 0, 200, 1]) = [0, 0, 0, 3, 0, 200, 1]"
    by code_simp
  ultimately show ?thesis using ssh_wr_mpint_canonical [of 16 "[0, 0, 200, 1]"] by metis
qed

section \<open>A cursor between what has been read and what has not\<close>

definition cur :: "bytes \<Rightarrow> bytes \<Rightarrow> ssh_rd" where
  "cur pre x = \<lparr>rd_buf = pre @ x, rd_pos = length pre, rd_bad = False\<rparr>"

lemma cur_init: "ssh_rd_init b = cur [] b"
  by (simp add: cur_def ssh_rd_init_def)

lemma cur_simps [simp]:
  "rd_rest (cur pre x) = x" "rd_inv (cur pre x)" "\<not> rd_bad (cur pre x)" "rd_pos (cur pre x) = length pre"
  "rd_buf (cur pre x) = pre @ x"
  by (simp_all add: cur_def rd_rest_def rd_inv_def)

lemma cur_done [simp]: "ssh_rd_done (cur pre x) \<longleftrightarrow> x = []"
  by (simp add: ssh_rd_done_def)

lemma cur_ok [simp]: "ssh_rd_ok (cur pre x)"
  by (simp add: ssh_rd_ok_def)

lemma cur_offset [simp]: "ssh_rd_offset (cur pre x) = length pre"
  by (simp add: ssh_rd_offset_def)

lemma cur_eq_iff [simp]: "cur p x = cur q y \<longleftrightarrow> p = q \<and> x = y"
  by (auto simp: cur_def)

lemma cur_advance: "(cur pre (a @ b))\<lparr>rd_pos := length pre + length a\<rparr> = cur (pre @ a) b"
  by (simp add: cur_def)

lemma length_put_str [simp]: "length (put_str p) = 4 + length p"
  by (simp add: put_str_def)

lemma put_str_eq [simp]: "put_str p = put_str t \<longleftrightarrow> p = t"
proof
  assume "put_str p = put_str t"
  then have "drop 4 (put_str p) = drop 4 (put_str t)" by simp
  then show "p = t" by (simp add: put_str_def)
qed simp

lemma get_str_Some: "get_str x = Some (p, q) \<longleftrightarrow> length p < 2 ^ 32 \<and> x = put_str p @ q"
proof
  assume "get_str x = Some (p, q)"
  then obtain n s where n: "get_u32 x = Some (n, s)" "unat n \<le> length s" "p = take (unat n) s"
      "q = drop (unat n) s"
    by (auto simp: get_str_def split: option.splits if_splits)
  then have len: "length p = unat n" and s: "s = p @ q" by simp_all
  have "unat n < 2 ^ 32" using unsigned_less [of n] by simp
  moreover have "of_nat (length p) = n" unfolding len by simp
  ultimately show "length p < 2 ^ 32 \<and> x = put_str p @ q"
    using get_u32_Some [OF n(1)] len s by (simp only: put_str_def append_assoc simp_thms)
qed (simp add: ssh_string.get_put)

lemma str_cur_Some:
  "ssh_rd_str (cur pre x) = (Some p, r) \<longleftrightarrow>
    length p < 2 ^ 32 \<and> (\<exists>q. x = put_str p @ q \<and> r = cur (pre @ put_str p) q)"
proof (cases "get_str x")
  case None
  then have "fst (ssh_rd_str (cur pre x)) = None" using ssh_rd_str_get(2) [of "cur pre x"] by simp
  moreover have "\<not> (length p < 2 ^ 32 \<and> (\<exists>q. x = put_str p @ q))"
    using None get_str_Some [of x p] by auto
  ultimately show ?thesis by (cases "ssh_rd_str (cur pre x)") auto
next
  case (Some pq)
  then obtain p' q' where g: "get_str x = Some (p', q')" by (cases pq) auto
  then have x: "x = put_str p' @ q'" "length p' < 2 ^ 32" by (simp_all add: get_str_Some)
  have "ssh_rd_str (cur pre x) = (Some p', cur (pre @ put_str p') q')"
    using ssh_rd_str_get(1) [of "cur pre x" p' q'] g x cur_advance [of pre "put_str p'" q']
    by (simp add: add.assoc)
  then show ?thesis
    using x ssh_string.put_inj_prefix [of p' p q'] by auto
qed

lemma str_cur: "length p < 2 ^ 32 \<Longrightarrow>
    ssh_rd_str (cur pre (put_str p @ q)) = (Some p, cur (pre @ put_str p) q)"
  by (simp add: str_cur_Some)

lemma str_cur_None: "ssh_rd_str (cur pre x) = (None, r) \<Longrightarrow>
    rd_bad r \<and> (\<forall>p q. x = put_str p @ q \<longrightarrow> \<not> length p < 2 ^ 32)"
proof -
  assume *: "ssh_rd_str (cur pre x) = (None, r)"
  have n: "get_str x = None"
  proof (cases "get_str x")
    case (Some pq)
    then obtain p q where "get_str x = Some (p, q)" by (cases pq) auto
    then have "x = put_str p @ q" "length p < 2 ^ 32" by (simp_all add: get_str_Some)
    with * str_cur [of p pre q] show ?thesis by simp
  qed
  then have "rd_bad r" using ssh_rd_str_get(2) [of "cur pre x"] * by simp
  moreover have "\<not> length p < 2 ^ 32" if "x = put_str p @ q" for p q
    using n that get_str_Some [of x p q] by auto
  ultimately show ?thesis by blast
qed

lemma str_cur_cases:
  obtains (refused) r where "ssh_rd_str (cur pre x) = (None, r)" "rd_bad r"
      "\<And>p q. length p < 2 ^ 32 \<Longrightarrow> x \<noteq> put_str p @ q"
    | (read) p q where "length p < 2 ^ 32" "x = put_str p @ q"
      "ssh_rd_str (cur pre x) = (Some p, cur (pre @ put_str p) q)"
proof (cases "ssh_rd_str (cur pre x)")
  case (Pair a r)
  show ?thesis
  proof (cases a)
    case None
    with Pair str_cur_None [of pre x r] refused [of r] show ?thesis by blast
  next
    case (Some p)
    with Pair str_cur_Some [of pre x p r] read [of p] show ?thesis by blast
  qed
qed

lemma put_str_inj:
  "length p < 2 ^ 32 \<Longrightarrow> length t < 2 ^ 32 \<Longrightarrow> put_str p @ q = put_str t @ s \<longleftrightarrow> p = t \<and> q = s"
  using ssh_string.put_inj_prefix [of p t q s] by blast

lemma skip_cur_True:
  "ssh_rd_skip_str (cur pre x) = (True, r) \<longleftrightarrow>
    (\<exists>p q. length p < 2 ^ 32 \<and> x = put_str p @ q \<and> r = cur (pre @ put_str p) q)"
proof (cases rule: str_cur_cases [of pre x])
  case (refused s)
  then have "ssh_rd_skip_str (cur pre x) = (False, s)" by (simp add: ssh_rd_skip_str_def)
  with refused(3) show ?thesis by auto
next
  case (read p q)
  then have "ssh_rd_skip_str (cur pre x) = (True, cur (pre @ put_str p) q)"
    by (simp add: ssh_rd_skip_str_def)
  with read(1,2) put_str_inj [of p] show ?thesis by fastforce
qed

lemma cstr_cur_Some:
  "ssh_rd_cstr (cur pre x) cap = (Some s, r) \<longleftrightarrow>
    (\<exists>t q. length t < 2 ^ 32 \<and> x = put_str t @ q \<and> r = cur (pre @ put_str t) q \<and>
      t \<noteq> [] \<and> length t < cap \<and> s = c_str t)"
proof (cases rule: str_cur_cases [of pre x])
  case (refused s)
  then have "ssh_rd_cstr (cur pre x) cap = (None, s)" by (simp add: ssh_rd_cstr_def)
  with refused(3) show ?thesis by auto
next
  case (read p q)
  then have c: "ssh_rd_cstr (cur pre x) cap =
      (if length p = 0 \<or> cap \<le> length p then None else Some (c_str p), cur (pre @ put_str p) q)"
    by (simp add: ssh_rd_cstr_def)
  have u: "x = put_str t @ q' \<longleftrightarrow> p = t \<and> q = q'" if "length t < 2 ^ 32" for t q'
    using read(1,2) put_str_inj [of p t q q'] that by (simp only:)
  show ?thesis
    unfolding c using u read(1) by (auto split: if_splits)
qed

definition u64_bytes :: "64 word \<Rightarrow> bytes" where
  "u64_bytes v = u32_bytes (ucast (drop_bit 32 v)) @ u32_bytes (ucast v)"

lemma length_u64_bytes [simp]: "length (u64_bytes v) = 8"
  by (simp add: u64_bytes_def)

lemma u32_cur: "ssh_rd_u32 (cur pre (u32_bytes v @ q)) = (v, cur (pre @ u32_bytes v) q)"
  using cur_advance [of pre "u32_bytes v" q] by (simp add: ssh_rd_u32_get)

lemma u32_cur_ok:
  "\<not> rd_bad (snd (ssh_rd_u32 (cur pre x))) \<Longrightarrow>
    \<exists>v q. x = u32_bytes v @ q \<and> ssh_rd_u32 (cur pre x) = (v, cur (pre @ u32_bytes v) q)"
proof -
  assume "\<not> rd_bad (snd (ssh_rd_u32 (cur pre x)))"
  then obtain v q where "get_u32 x = Some (v, q)"
    by (auto simp: ssh_rd_u32_get split: option.splits)
  then have "x = u32_bytes v @ q" by (rule get_u32_Some)
  with u32_cur show ?thesis by blast
qed

lemma u64_cur: "ssh_rd_u64 (cur pre (u64_bytes v @ q)) = (v, cur (pre @ u64_bytes v) q)"
proof -
  show ?thesis using u64_roundtrip [of v] by (simp add: ssh_rd_u64_def u64_bytes_def u32_cur)
qed

lemma u64_cur_ok:
  "\<not> rd_bad (snd (ssh_rd_u64 (cur pre x))) \<Longrightarrow>
    \<exists>v q. x = u64_bytes v @ q \<and> ssh_rd_u64 (cur pre x) = (v, cur (pre @ u64_bytes v) q)"
proof -
  assume ok: "\<not> rd_bad (snd (ssh_rd_u64 (cur pre x)))"
  have "\<not> rd_bad (snd (ssh_rd_u32 (cur pre x)))"
    using ok u32.read_latched by (auto simp: ssh_rd_u64_def split_beta)
  then obtain a q where a: "x = u32_bytes a @ q" "ssh_rd_u32 (cur pre x) = (a, cur (pre @ u32_bytes a) q)"
    using u32_cur_ok by blast
  with ok have "\<not> rd_bad (snd (ssh_rd_u32 (cur (pre @ u32_bytes a) q)))"
    by (simp add: ssh_rd_u64_def split_beta)
  then obtain b s where b: "q = u32_bytes b @ s"
    using u32_cur_ok by blast
  let ?v = "push_bit 32 (ucast a) OR ucast b :: 64 word"
  have "ucast (drop_bit 32 ?v) = a" "ucast ?v = b"
    by (rule bit_word_eqI, auto simp: bit_simps dest: bit_imp_le_length)+
  then have "x = u64_bytes ?v @ s" using a b by (simp add: u64_bytes_def)
  with u64_cur show ?thesis by blast
qed

end
