(* ===== verification/Base64.thy ===== *)
theory Base64
  imports Wire
begin

text \<open>
  src/base64.c: the strict base64 codec of authorized_keys.  The decoder is the source's loop
  over the input with its accumulator (a 32-bit word that is allowed to lose its high bits),
  the number of bits it holds, the bytes written and the number of padding characters seen.
  \<open>None\<close> is the return value false.  The lemmas take the loop a group of four characters at a
  time and end in the interpretation of the canonical codec: what the decoder accepts is
  exactly what the encoder writes.
\<close>

section \<open>Definitions\<close>

definition alphabet :: bytes where
  "alphabet = bs ''ABCDEFGHIJKLMNOPQRSTUVWXYZabcdefghijklmnopqrstuvwxyz0123456789+/''"

definition decode_value :: "byte \<Rightarrow> byte" where
  "decode_value c =
     (if ch (CHR ''A'') \<le> c \<and> c \<le> ch (CHR ''Z'') then c - ch (CHR ''A'')
      else if ch (CHR ''a'') \<le> c \<and> c \<le> ch (CHR ''z'') then c - ch (CHR ''a'') + 26
      else if ch (CHR ''0'') \<le> c \<and> c \<le> ch (CHR ''9'') then c - ch (CHR ''0'') + 52
      else if c = ch (CHR ''+'') then 62
      else if c = ch (CHR ''/'') then 63
      else if c = ch (CHR ''='') then 64
      else 255)"

fun b64_decode_loop ::
  "nat \<Rightarrow> nat \<Rightarrow> nat \<Rightarrow> bytes \<Rightarrow> 32 word \<Rightarrow> nat \<Rightarrow> bytes \<Rightarrow> nat \<Rightarrow> (32 word \<times> nat \<times> bytes) option"
where
  "b64_decode_loop in_len out_cap i [] acc nbits out pad = Some (acc, nbits, out)"
| "b64_decode_loop in_len out_cap i (c # cs) acc nbits out pad =
     (let v = decode_value c in
      if v = 255 then None
      else if v = 64 then
        (if pad + 1 > 2 \<or> i < in_len - 2 then None
         else b64_decode_loop in_len out_cap (i + 1) cs acc nbits out (pad + 1))
      else if pad > 0 then None
      else
        let acc = push_bit 6 acc OR ucast v; nbits = nbits + 6 in
        if nbits \<ge> 8 then
          (if length out \<ge> out_cap then None
           else b64_decode_loop in_len out_cap (i + 1) cs acc (nbits - 8)
                  (out @ [ucast (drop_bit (nbits - 8) acc)]) pad)
        else b64_decode_loop in_len out_cap (i + 1) cs acc nbits out pad)"

definition ssoossh_b64_decode :: "bytes \<Rightarrow> nat \<Rightarrow> bytes option" where
  "ssoossh_b64_decode inp out_cap =
     (if length inp mod 4 \<noteq> 0 then None
      else
        case b64_decode_loop (length inp) out_cap 0 inp 0 0 [] 0 of
          None \<Rightarrow> None
        | Some (acc, nbits, out) \<Rightarrow>
            if nbits > 0 \<and> acc AND (push_bit nbits 1 - 1) \<noteq> 0 then None else Some out)"

text \<open>The four characters of a group, from the 24-bit value the source builds.\<close>

definition b64_char :: "32 word \<Rightarrow> nat \<Rightarrow> byte" where
  "b64_char v k = alphabet ! unat (drop_bit k v AND 0x3f)"

fun b64_encode_loop :: "bytes \<Rightarrow> bytes" where
  "b64_encode_loop (a # b # c # r) =
     (let v = push_bit 16 (ucast a) OR push_bit 8 (ucast b) OR ucast c
      in [b64_char v 18, b64_char v 12, b64_char v 6, b64_char v 0] @ b64_encode_loop r)"
| "b64_encode_loop [a, b] =
     (let v = push_bit 16 (ucast a) OR push_bit 8 (ucast b)
      in [b64_char v 18, b64_char v 12, b64_char v 6, ch (CHR ''='')])"
| "b64_encode_loop [a] =
     (let v = push_bit 16 (ucast a)
      in [b64_char v 18, b64_char v 12, ch (CHR ''=''), ch (CHR ''='')])"
| "b64_encode_loop [] = []"

definition ssoossh_b64_encode :: "bytes \<Rightarrow> nat \<Rightarrow> bytes option" where
  "ssoossh_b64_encode inp out_cap =
     (let need = (length inp + 2) div 3 * 4
      in if out_cap < need + 1 then None else Some (b64_encode_loop inp))"

section \<open>The alphabet\<close>

lemma alphabet_code [code]:
  "alphabet =
    [65, 66, 67, 68, 69, 70, 71, 72, 73, 74, 75, 76, 77, 78, 79, 80,
     81, 82, 83, 84, 85, 86, 87, 88, 89, 90, 97, 98, 99, 100, 101, 102,
     103, 104, 105, 106, 107, 108, 109, 110, 111, 112, 113, 114, 115, 116, 117, 118,
     119, 120, 121, 122, 48, 49, 50, 51, 52, 53, 54, 55, 56, 57, 43, 47]"
  by (simp add: alphabet_def)

lemma decode_value_code [code]:
  "decode_value c =
     (if 65 \<le> c \<and> c \<le> 90 then c - 65
      else if 97 \<le> c \<and> c \<le> 122 then c - 97 + 26
      else if 48 \<le> c \<and> c \<le> 57 then c - 48 + 52
      else if c = 43 then 62
      else if c = 47 then 63
      else if c = 61 then 64
      else 255)"
  by (simp add: decode_value_def)

lemma decode_alphabet_table: "map decode_value alphabet = map of_nat [0..<64]"
  by code_simp

lemma length_alphabet: "length alphabet = 64"
  by (simp add: alphabet_def)

lemma alphabet_ranges:
  "alphabet = map (\<lambda>n. of_nat (65 + n)) [0..<26] @ map (\<lambda>n. of_nat (97 + n)) [0..<26] @
     map (\<lambda>n. of_nat (48 + n)) [0..<10] @ [43, 47]"
  by code_simp

lemma alphabet_nth:
  "n < 26 \<Longrightarrow> alphabet ! n = of_nat (65 + n)"
  "n < 26 \<Longrightarrow> alphabet ! (26 + n) = of_nat (97 + n)"
  "n < 10 \<Longrightarrow> alphabet ! (52 + n) = of_nat (48 + n)"
  "alphabet ! 62 = 43" "alphabet ! 63 = 47"
  unfolding alphabet_ranges by (simp_all add: nth_append del: of_nat_add)

lemma byte_range:
  assumes "of_nat lo \<le> (c :: byte)" "c \<le> of_nat hi" "lo \<le> hi" "hi < 256"
  shows "unat (c - of_nat lo) = unat c - lo" "unat c - lo \<le> hi - lo" "of_nat (lo + (unat c - lo)) = c"
proof -
  have "unat (of_nat lo :: byte) = lo" "unat (of_nat hi :: byte) = hi"
    using assms by (simp_all add: unat_of_nat)
  then have "lo \<le> unat c" "unat c \<le> hi"
    using assms(1,2) by (simp_all add: word_le_nat_alt)
  moreover from this have "c - of_nat lo = of_nat (unat c - lo)"
    by (simp add: of_nat_diff del: word_le_nat_alt)
  moreover have "unat (of_nat (unat c - lo) :: byte) = unat c - lo"
  proof -
    have "unat c - lo < 256" using byte_lt [of c] by linarith
    then show ?thesis by (simp add: unat_of_nat)
  qed
  ultimately show "unat (c - of_nat lo) = unat c - lo" "unat c - lo \<le> hi - lo"
    "of_nat (lo + (unat c - lo)) = c"
    by simp_all
qed

lemma decode_value_cases:
  "(decode_value c < 64 \<and> alphabet ! unat (decode_value c) = c) \<or>
   (decode_value c = 64 \<and> c = ch (CHR ''='')) \<or> decode_value c = 255"
proof -
  consider "65 \<le> c" "c \<le> 90" | "\<not> (65 \<le> c \<and> c \<le> 90)" "97 \<le> c" "c \<le> 122"
    | "\<not> (65 \<le> c \<and> c \<le> 90)" "\<not> (97 \<le> c \<and> c \<le> 122)" "48 \<le> c" "c \<le> 57"
    | "\<not> (65 \<le> c \<and> c \<le> 90)" "\<not> (97 \<le> c \<and> c \<le> 122)" "\<not> (48 \<le> c \<and> c \<le> 57)"
    by blast
  then show ?thesis
  proof cases
    case 1
    with byte_range [of 65 c 90] have
      "unat (c - 65) < 26" "of_nat (65 + unat (c - 65)) = c" by simp_all
    with 1 show ?thesis by (simp add: decode_value_code alphabet_nth word_less_nat_alt)
  next
    case 2
    with byte_range [of 97 c 122] have
      r: "unat (c - 97) < 26" "of_nat (97 + unat (c - 97)) = c" by simp_all
    have "unat ((c - 97) + 26) = 26 + unat (c - 97)"
      using r(1) by (simp only: unat_word_ariths) simp
    then have "unat (c - 71) = 26 + unat (c - 97)" by simp
    with 2 r show ?thesis by (auto simp add: decode_value_code alphabet_nth word_less_nat_alt)
  next
    case 3
    with byte_range [of 48 c 57] have
      r: "unat (c - 48) < 10" "of_nat (48 + unat (c - 48)) = c" by simp_all
    have "unat ((c - 48) + 52) = 52 + unat (c - 48)"
      using r(1) by (simp only: unat_word_ariths) simp
    then have "unat (4 + c) = 52 + unat (c - 48)" by (simp add: add.commute)
    with 3 r show ?thesis by (auto simp add: decode_value_code alphabet_nth word_less_nat_alt)
  next
    case 4
    then show ?thesis by (auto simp: decode_value_code alphabet_nth)
  qed
qed

lemma decode_pad: "decode_value (ch (CHR ''='')) = 64"
  by code_simp

section \<open>A group at a time\<close>

definition b64_byte0 :: "byte \<Rightarrow> byte \<Rightarrow> byte" where
  "b64_byte0 v0 v1 = push_bit 2 v0 OR drop_bit 4 v1"

definition b64_byte1 :: "byte \<Rightarrow> byte \<Rightarrow> byte" where
  "b64_byte1 v1 v2 = push_bit 4 v1 OR drop_bit 2 v2"

definition b64_byte2 :: "byte \<Rightarrow> byte \<Rightarrow> byte" where
  "b64_byte2 v2 v3 = push_bit 6 v2 OR v3"

fun b64_groups :: "bytes \<Rightarrow> bytes option" where
  "b64_groups [] = Some []"
| "b64_groups (c0 # c1 # c2 # c3 # r) =
     (let v0 = decode_value c0; v1 = decode_value c1; v2 = decode_value c2; v3 = decode_value c3 in
      if v0 < 64 \<and> v1 < 64 \<and> v2 < 64 \<and> v3 < 64 then
        map_option (\<lambda>out. b64_byte0 v0 v1 # b64_byte1 v1 v2 # b64_byte2 v2 v3 # out) (b64_groups r)
      else if v0 < 64 \<and> v1 < 64 \<and> v2 < 64 \<and> v3 = 64 \<and> r = [] \<and> v2 AND 3 = 0 then
        Some [b64_byte0 v0 v1, b64_byte1 v1 v2]
      else if v0 < 64 \<and> v1 < 64 \<and> v2 = 64 \<and> v3 = 64 \<and> r = [] \<and> v1 AND 15 = 0 then
        Some [b64_byte0 v0 v1]
      else None)"
| "b64_groups _ = None"

definition b64_finish :: "(32 word \<times> nat \<times> bytes) option \<Rightarrow> bytes option" where
  "b64_finish res =
     (case res of None \<Rightarrow> None
      | Some (acc, nbits, out) \<Rightarrow>
          if nbits > 0 \<and> acc AND (push_bit nbits 1 - 1) \<noteq> 0 then None else Some out)"

lemma sextet_bits: "(v :: byte) < 64 \<Longrightarrow> bit v n \<Longrightarrow> n < 6"
proof -
  assume *: "v < 64" "bit v n"
  then have "take_bit 6 (unat v) = unat v"
    by (simp add: take_bit_nat_eq_self_iff word_less_nat_alt)
  moreover have "bit (unat v) n" using *(2) by (simp add: bit_unsigned_iff bit_imp_le_length)
  ultimately show "n < 6" by (metis bit_take_bit_iff)
qed

definition acc_step :: "32 word \<Rightarrow> byte \<Rightarrow> 32 word" where
  "acc_step acc v = push_bit 6 acc OR ucast v"

lemma loop_char:
  "decode_value c = 255 \<Longrightarrow> b64_decode_loop L cap i (c # cs) acc nb out pad = None"
  "decode_value c = 64 \<Longrightarrow> b64_decode_loop L cap i (c # cs) acc nb out pad =
    (if pad + 1 > 2 \<or> i < L - 2 then None
     else b64_decode_loop L cap (i + 1) cs acc nb out (pad + 1))"
  "decode_value c < 64 \<Longrightarrow> b64_decode_loop L cap i (c # cs) acc nb out pad =
    (if pad > 0 then None
     else if nb + 6 \<ge> 8 then
       (if length out \<ge> cap then None
        else b64_decode_loop L cap (i + 1) cs (acc_step acc (decode_value c)) (nb + 6 - 8)
          (out @ [ucast (drop_bit (nb + 6 - 8) (acc_step acc (decode_value c)))]) pad)
     else b64_decode_loop L cap (i + 1) cs (acc_step acc (decode_value c)) (nb + 6) out pad)"
proof -
  assume "decode_value c < 64"
  then have "decode_value c \<noteq> 255" "decode_value c \<noteq> 64" by auto
  then show "b64_decode_loop L cap i (c # cs) acc nb out pad =
    (if pad > 0 then None
     else if nb + 6 \<ge> 8 then
       (if length out \<ge> cap then None
        else b64_decode_loop L cap (i + 1) cs (acc_step acc (decode_value c)) (nb + 6 - 8)
          (out @ [ucast (drop_bit (nb + 6 - 8) (acc_step acc (decode_value c)))]) pad)
     else b64_decode_loop L cap (i + 1) cs (acc_step acc (decode_value c)) (nb + 6) out pad)"
    by (simp add: Let_def acc_step_def)
qed simp_all

declare b64_decode_loop.simps(2) [simp del]

text \<open>The accumulator's high bits never reach an output byte.\<close>

lemma b64_window:
  fixes acc :: "32 word" and v0 v1 v2 v3 :: byte
  shows "v1 < 64 \<Longrightarrow> ucast (drop_bit 4 (acc_step (acc_step acc v0) v1)) = b64_byte0 v0 v1"
    and "v2 < 64 \<Longrightarrow> ucast (drop_bit 2 (acc_step (acc_step acc v1) v2)) = b64_byte1 v1 v2"
    and "v3 < 64 \<Longrightarrow> ucast (acc_step (acc_step acc v2) v3) = b64_byte2 v2 v3"
  unfolding b64_byte0_def b64_byte1_def b64_byte2_def acc_step_def
  using sextet_bits by (auto intro!: bit_word_eqI simp: bit_simps)

lemma and_mask_zero_iff: "(w :: 'a::len word) AND mask k = 0 \<longleftrightarrow> (\<forall>n < k. \<not> bit w n)"
  by (auto simp: bit_eq_iff bit_simps dest: bit_imp_le_length)

lemma b64_leftover:
  "acc_step acc v AND (push_bit 2 1 - 1) = 0 \<longleftrightarrow> v AND 3 = 0"
  "acc_step acc v AND (push_bit 4 1 - 1) = 0 \<longleftrightarrow> v AND 15 = 0"
proof -
  have m: "(push_bit 2 1 - 1 :: 32 word) = mask 2" "(push_bit 4 1 - 1 :: 32 word) = mask 4"
    "(3 :: byte) = mask 2" "(15 :: byte) = mask 4"
    by (simp_all add: mask_eq_exp_minus_1 push_bit_of_1)
  show "acc_step acc v AND (push_bit 2 1 - 1) = 0 \<longleftrightarrow> v AND 3 = 0"
    unfolding m and_mask_zero_iff by (simp add: bit_simps acc_step_def)
  show "acc_step acc v AND (push_bit 4 1 - 1) = 0 \<longleftrightarrow> v AND 15 = 0"
    unfolding m and_mask_zero_iff by (simp add: bit_simps acc_step_def)
qed

text \<open>One full group, read by four turns of the loop.\<close>

lemma loop_group:
  assumes "decode_value c0 < 64" "decode_value c1 < 64" "decode_value c2 < 64" "decode_value c3 < 64"
  shows "\<exists>acc'. b64_decode_loop L cap i (c0 # c1 # c2 # c3 # r) acc 0 out 0 =
    (if cap < length out + 3 then None
     else b64_decode_loop L cap (Suc (Suc (Suc (Suc i)))) r acc' 0
       (out @ [b64_byte0 (decode_value c0) (decode_value c1),
               b64_byte1 (decode_value c1) (decode_value c2),
               b64_byte2 (decode_value c2) (decode_value c3)]) 0)"
  by (rule exI [of _ "acc_step (acc_step (acc_step (acc_step acc (decode_value c0)) (decode_value c1))
        (decode_value c2)) (decode_value c3)"])
    (simp add: loop_char assms b64_window)

text \<open>What the decoder makes of the loop's result, and what the output buffer allows.\<close>

definition capped :: "nat \<Rightarrow> bytes \<Rightarrow> bytes option \<Rightarrow> bytes option" where
  "capped cap out res = (case res of None \<Rightarrow> None
    | Some new \<Rightarrow> if cap < length out + length new then None else Some (out @ new))"

lemma b64_value3:
  obtains "decode_value c < 64" | "decode_value c = 64" | "decode_value c = 255"
  using decode_value_cases by blast

lemma loop_last:
  assumes "L = i + 4" "\<not> (decode_value c0 < 64 \<and> decode_value c1 < 64 \<and> decode_value c2 < 64 \<and>
      decode_value c3 < 64)" "length out \<le> cap"
  shows "b64_finish (b64_decode_loop L cap i [c0, c1, c2, c3] acc 0 out 0) =
    capped cap out (b64_groups [c0, c1, c2, c3])"
  using b64_leftover [unfolded One_nat_def] assms
  by (cases c0 rule: b64_value3; cases c1 rule: b64_value3; cases c2 rule: b64_value3;
      cases c3 rule: b64_value3)
    (auto simp: loop_char capped_def b64_finish_def b64_window Let_def)

lemma loop_not_last:
  assumes "i + 6 \<le> L" "\<not> (decode_value c0 < 64 \<and> decode_value c1 < 64 \<and> decode_value c2 < 64 \<and>
      decode_value c3 < 64)" "length out \<le> cap"
  shows "b64_decode_loop L cap i (c0 # c1 # c2 # c3 # r) acc 0 out 0 = None"
  using assms
  by (cases c0 rule: b64_value3; cases c1 rule: b64_value3; cases c2 rule: b64_value3;
      cases c3 rule: b64_value3)
    (auto simp: loop_char)

lemma capped_append:
  "length out + 3 \<le> cap \<Longrightarrow>
    capped cap (out @ [x, y, z]) res = capped cap out (map_option (\<lambda>o'. x # y # z # o') res)"
  by (cases res) (simp_all add: capped_def)

lemma loop_groups:
  assumes "length s mod 4 = 0" "L = i + length s" "length out \<le> cap"
  shows "b64_finish (b64_decode_loop L cap i s acc 0 out 0) = capped cap out (b64_groups s)"
  using assms
proof (induction s arbitrary: i acc out rule: b64_groups.induct)
  case 1
  then show ?case by (simp add: b64_finish_def capped_def)
next
  case (2 c0 c1 c2 c3 r)
  let ?v = decode_value
  show ?case
  proof (cases "?v c0 < 64 \<and> ?v c1 < 64 \<and> ?v c2 < 64 \<and> ?v c3 < 64")
    case True
    let ?g = "[b64_byte0 (?v c0) (?v c1), b64_byte1 (?v c1) (?v c2), b64_byte2 (?v c2) (?v c3)]"
    obtain acc' where step: "b64_decode_loop L cap i (c0 # c1 # c2 # c3 # r) acc 0 out 0 =
        (if cap < length out + 3 then None
         else b64_decode_loop L cap (Suc (Suc (Suc (Suc i)))) r acc' 0 (out @ ?g) 0)"
      using True loop_group by blast
    have groups: "b64_groups (c0 # c1 # c2 # c3 # r) = map_option (\<lambda>o'. b64_byte0 (?v c0) (?v c1) #
        b64_byte1 (?v c1) (?v c2) # b64_byte2 (?v c2) (?v c3) # o') (b64_groups r)"
      using True by (simp add: Let_def)
    show ?thesis
    proof (cases "cap < length out + 3")
      case True
      then show ?thesis
        unfolding step groups by (cases "b64_groups r") (auto simp: b64_finish_def capped_def)
    next
      case False
      have "b64_finish (b64_decode_loop L cap (Suc (Suc (Suc (Suc i)))) r acc' 0 (out @ ?g) 0) =
          capped cap (out @ ?g) (b64_groups r)"
        using 2(2-) True False by (intro 2(1)) auto
      then show ?thesis unfolding step groups using False by (simp add: capped_append)
    qed
  next
    case False
    show ?thesis
    proof (cases "r = []")
      case True
      have "L = i + 4" using 2(3) True by simp
      then show ?thesis unfolding True using False 2(4) by (rule loop_last)
    next
      case rest: False
      then have "i + 6 \<le> L" using 2(2,3) by (cases r rule: b64_groups.cases) auto
      from loop_not_last [OF this False 2(4)] rest False show ?thesis
        by (auto simp: b64_finish_def capped_def Let_def)
    qed
  qed
qed simp_all

lemma ssoossh_b64_decode_groups:
  "ssoossh_b64_decode s cap = capped cap [] (b64_groups s)"
proof (cases "length s mod 4 = 0")
  case True
  then show ?thesis
    using loop_groups [of s "length s" 0 "[]" cap 0]
    by (simp add: ssoossh_b64_decode_def b64_finish_def)
next
  case False
  then have "b64_groups s = None"
    by (induction s rule: b64_groups.induct) (auto simp: Let_def)
  with False show ?thesis by (simp add: ssoossh_b64_decode_def capped_def)
qed


section \<open>Decoding undoes encoding, and only that\<close>

lemma decode_alphabet: "n < 64 \<Longrightarrow> decode_value (alphabet ! n) = of_nat n"
proof -
  assume "n < 64"
  then have "map decode_value alphabet ! n = map of_nat [0..<64] ! n"
    by (simp only: decode_alphabet_table)
  with \<open>n < 64\<close> show ?thesis by (simp add: length_alphabet)
qed

lemma and_3f_less: "unat ((w :: 32 word) AND 63) < 64"
proof -
  have "w AND 63 = take_bit 6 w" by (simp add: take_bit_eq_mask mask_eq_exp_minus_1)
  then have "unat (w AND 63) = take_bit 6 (unat w)" by (simp add: unsigned_take_bit_eq)
  then show ?thesis by (simp add: take_bit_eq_mod)
qed

lemma decode_b64_char: "decode_value (b64_char v k) = ucast (drop_bit k v AND 63)"
proof -
  have "decode_value (b64_char v k) = of_nat (unat (drop_bit k v AND 63))"
    unfolding b64_char_def by (rule decode_alphabet) (rule and_3f_less)
  then show ?thesis by (simp add: unsigned_ucast_eq)
qed


definition v24 :: "byte \<Rightarrow> byte \<Rightarrow> byte \<Rightarrow> 32 word" where
  "v24 a b c = push_bit 16 (ucast a) OR push_bit 8 (ucast b) OR ucast c"

definition sextet :: "32 word \<Rightarrow> nat \<Rightarrow> byte" where
  "sextet v k = ucast (drop_bit k v AND 63)"

lemma bit_63: "bit (63 :: 'a::len word) n \<longleftrightarrow> n < 6 \<and> n < LENGTH('a)"
proof -
  have m: "(63 :: 'a word) = mask 6" by (simp add: mask_eq_exp_minus_1)
  show ?thesis unfolding m bit_mask_iff by auto
qed

lemma bit_sextet: "bit (sextet v k) n \<longleftrightarrow> n < 6 \<and> bit v (k + n)"
  unfolding sextet_def bit_ucast_iff bit_and_iff bit_drop_bit_eq bit_63
  by (auto dest: bit_imp_le_length)

lemma bit_v24:
  "bit (v24 a b c) n \<longleftrightarrow>
    (if n < 8 then bit c n else if n < 16 then bit b (n - 8) else n < 24 \<and> bit a (n - 16))"
  by (auto simp: v24_def bit_simps dest: bit_imp_le_length)

lemma byte_eqI: "(\<And>n. n < 8 \<Longrightarrow> bit (x :: byte) n = bit y n) \<Longrightarrow> x = y"
  by (rule bit_word_eqI) simp

lemma nat_lt8: "n < 8 \<longleftrightarrow> n = 0 \<or> n = 1 \<or> n = 2 \<or> n = 3 \<or> n = 4 \<or> n = 5 \<or> n = 6 \<or> n = (7 :: nat)"
  by auto

lemma bit_b64_byte:
  "bit (b64_byte0 v0 v1) n \<longleftrightarrow> n < 8 \<and> (2 \<le> n \<and> bit v0 (n - 2) \<or> bit v1 (4 + n))"
  "bit (b64_byte1 v1 v2) n \<longleftrightarrow> n < 8 \<and> (4 \<le> n \<and> bit v1 (n - 4) \<or> bit v2 (2 + n))"
  "bit (b64_byte2 v2 v3) n \<longleftrightarrow> n < 8 \<and> (6 \<le> n \<and> bit v2 (n - 6) \<or> bit v3 n)"
  by (auto simp: b64_byte0_def b64_byte1_def b64_byte2_def bit_simps dest: bit_imp_le_length)

lemma bytes_of_sextets:
  "b64_byte0 (sextet (v24 a b c) 18) (sextet (v24 a b c) 12) = a"
  "b64_byte1 (sextet (v24 a b c) 12) (sextet (v24 a b c) 6) = b"
  "b64_byte2 (sextet (v24 a b c) 6) (sextet (v24 a b c) 0) = c"
  by (rule byte_eqI; auto simp: bit_b64_byte bit_sextet bit_v24
      nat_lt8 numeral_2_eq_2 [symmetric])+

lemma sextets_of_bytes:
  assumes "v0 < 64" "v1 < 64" "v2 < 64" "v3 < 64"
  defines "v \<equiv> v24 (b64_byte0 v0 v1) (b64_byte1 v1 v2) (b64_byte2 v2 v3)"
  shows "sextet v 18 = v0" "sextet v 12 = v1" "sextet v 6 = v2" "sextet v 0 = v3"
proof -
  have z: "\<not> bit v0 n" "\<not> bit v1 n" "\<not> bit v2 n" "\<not> bit v3 n" if "6 \<le> n" for n
    using sextet_bits [of _ n] assms(1-4) that by fastforce+
  show "sextet v 18 = v0" "sextet v 12 = v1" "sextet v 6 = v2" "sextet v 0 = v3"
    unfolding v_def
    by (rule byte_eqI; auto simp: bit_b64_byte bit_sextet bit_v24
      nat_lt8 z numeral_2_eq_2 [symmetric])+
qed

lemma b64_char_sextet: "b64_char v k = alphabet ! unat (sextet v k)"
proof -
  have "unat (sextet v k) = unat (drop_bit k v AND 63)"
    unfolding sextet_def unsigned_ucast_eq
    using and_3f_less [of "drop_bit k v"] by (simp add: take_bit_nat_eq_self_iff)
  then show ?thesis by (simp add: b64_char_def)
qed

lemma sextet_less: "sextet v k < 64"
proof -
  have "take_bit 6 (sextet v k) = sextet v k"
    by (rule byte_eqI) (auto simp: bit_take_bit_iff bit_sextet)
  then have "take_bit 6 (unat (sextet v k)) = unat (sextet v k)" by (metis unsigned_take_bit_eq)
  then have "unat (sextet v k) < 64" by (simp add: take_bit_nat_eq_self_iff)
  then show ?thesis by (simp add: word_less_nat_alt)
qed

lemma decode_char [simp]: "decode_value (b64_char v k) = sextet v k"
  by (simp add: decode_b64_char sextet_def)

lemma encode_simps:
  "b64_encode_loop (a # b # c # r) =
    b64_char (v24 a b c) 18 # b64_char (v24 a b c) 12 # b64_char (v24 a b c) 6 #
    b64_char (v24 a b c) 0 # b64_encode_loop r"
  "b64_encode_loop [a, b] =
    [b64_char (v24 a b 0) 18, b64_char (v24 a b 0) 12, b64_char (v24 a b 0) 6, ch (CHR ''='')]"
  "b64_encode_loop [a] =
    [b64_char (v24 a 0 0) 18, b64_char (v24 a 0 0) 12, ch (CHR ''=''), ch (CHR ''='')]"
  by (simp_all add: v24_def Let_def)

declare b64_encode_loop.simps(1-3) [simp del]

lemma sextet_pad:
  "sextet (v24 a b 0) 6 AND 3 = 0" "sextet (v24 a 0 0) 12 AND 15 = 0"
proof -
  have m: "(3 :: byte) = mask 2" "(15 :: byte) = mask 4" by (simp_all add: mask_eq_exp_minus_1)
  show "sextet (v24 a b 0) 6 AND 3 = 0" "sextet (v24 a 0 0) 12 AND 15 = 0"
    unfolding m and_mask_zero_iff by (auto simp: bit_sextet bit_v24)
qed

lemma groups_encode: "b64_groups (b64_encode_loop x) = Some x"
proof (induction x rule: b64_encode_loop.induct)
  case (2 a b)
  show ?case
    using bytes_of_sextets [of a b 0] decode_pad
    by (simp add: encode_simps sextet_less sextet_pad Let_def)
next
  case (3 a)
  show ?case
    using bytes_of_sextets [of a 0 0] decode_pad
    by (simp add: encode_simps sextet_less sextet_pad Let_def)
qed (simp_all add: encode_simps sextet_less bytes_of_sextets Let_def)

lemma char_of_value: "decode_value c < 64 \<Longrightarrow> alphabet ! unat (decode_value c) = c"
  using decode_value_cases [of c] by auto

lemma pad_of_value: "decode_value c = 64 \<Longrightarrow> c = ch (CHR ''='')"
  using decode_value_cases [of c] by auto

lemma b64_byte_zero:
  "v2 < 64 \<Longrightarrow> v2 AND 3 = 0 \<Longrightarrow> b64_byte2 v2 0 = 0"
  "v1 < 64 \<Longrightarrow> v1 AND 15 = 0 \<Longrightarrow> b64_byte1 v1 0 = 0"
proof -
  have m: "(3 :: byte) = mask 2" "(15 :: byte) = mask 4" by (simp_all add: mask_eq_exp_minus_1)
  assume "v2 < 64" "v2 AND 3 = 0"
  then have "\<not> bit v2 n" if "n < 2" for n using that unfolding m and_mask_zero_iff by simp
  then show "b64_byte2 v2 0 = 0"
    by (intro byte_eqI) (auto simp: bit_b64_byte)
next
  have m: "(3 :: byte) = mask 2" "(15 :: byte) = mask 4" by (simp_all add: mask_eq_exp_minus_1)
  assume "v1 < 64" "v1 AND 15 = 0"
  then have "\<not> bit v1 n" if "n < 4" for n using that unfolding m and_mask_zero_iff by simp
  then show "b64_byte1 v1 0 = 0"
    by (intro byte_eqI) (auto simp: bit_b64_byte)
qed

lemma encode_group:
  assumes "decode_value c0 < 64" "decode_value c1 < 64" "decode_value c2 < 64" "decode_value c3 < 64"
  shows "b64_encode_loop (b64_byte0 (decode_value c0) (decode_value c1) #
      b64_byte1 (decode_value c1) (decode_value c2) # b64_byte2 (decode_value c2) (decode_value c3) # r) =
    c0 # c1 # c2 # c3 # b64_encode_loop r"
  unfolding encode_simps b64_char_sextet
  by (subst sextets_of_bytes; (rule assms)?)+ (simp add: assms char_of_value)

lemma encode_groups: "b64_groups s = Some x \<Longrightarrow> b64_encode_loop x = s"
proof (induction s arbitrary: x rule: b64_groups.induct)
  case (2 c0 c1 c2 c3 r)
  let ?v = decode_value
  consider (full) out where "?v c0 < 64" "?v c1 < 64" "?v c2 < 64" "?v c3 < 64"
      "b64_groups r = Some out"
      "x = b64_byte0 (?v c0) (?v c1) # b64_byte1 (?v c1) (?v c2) # b64_byte2 (?v c2) (?v c3) # out"
    | (two) "?v c0 < 64" "?v c1 < 64" "?v c2 < 64" "?v c3 = 64" "r = []" "?v c2 AND 3 = 0"
      "x = [b64_byte0 (?v c0) (?v c1), b64_byte1 (?v c1) (?v c2)]"
    | (one) "?v c0 < 64" "?v c1 < 64" "?v c2 = 64" "?v c3 = 64" "r = []" "?v c1 AND 15 = 0"
      "x = [b64_byte0 (?v c0) (?v c1)]"
    using 2(2) by (auto simp: Let_def split: if_splits)
  then show ?case
  proof cases
    case full
    have "b64_encode_loop out = r" by (rule 2(1) [OF refl refl refl refl]) (use full in simp_all)
    with full encode_group show ?thesis by simp
  next
    case two
    then show ?thesis
      using sextets_of_bytes [of "?v c0" "?v c1" "?v c2" 0] b64_byte_zero(1) [of "?v c2"]
        pad_of_value [of c3]
      by (simp add: encode_simps b64_char_sextet char_of_value)
  next
    case one
    then show ?thesis
      using sextets_of_bytes [of "?v c0" "?v c1" 0 0] b64_byte_zero(2) [of "?v c1"]
        pad_of_value [of c2] pad_of_value [of c3]
      by (simp add: encode_simps b64_char_sextet char_of_value b64_byte2_def)
  qed
qed simp_all


lemma b64_char_nat: "b64_char v k = alphabet ! (unat v div 2 ^ k mod 64)"
proof -
  have "drop_bit k v AND 0x3f = take_bit 6 (drop_bit k v)"
    by (simp add: take_bit_eq_mask mask_eq_exp_minus_1)
  moreover have "unat v mod 4294967296 = unat v" using unsigned_less [of v, where 'a = nat] by simp
  ultimately have "unat (drop_bit k v AND 0x3f) = unat v div 2 ^ k mod 64"
    by (simp only: unsigned_take_bit_eq unsigned_drop_bit_eq) (simp add: take_bit_eq_mod drop_bit_eq_div)
  then show ?thesis by (simp add: b64_char_def)
qed

lemma unat_v24: "unat (v24 a b c) = unat a * 65536 + unat b * 256 + unat c"
proof -
  have "v24 a b c = push_bit 16 (ucast a) + (push_bit 8 (ucast b) + ucast c)"
  proof -
    have "push_bit 8 (ucast b) AND ucast c = (0 :: 32 word)"
      "push_bit 16 (ucast a) AND (push_bit 8 (ucast b) OR ucast c) = (0 :: 32 word)"
      by (rule bit_word_eqI; auto simp: bit_simps dest: bit_imp_le_length)+
    then show ?thesis by (simp only: v24_def disjunctive_add_eq_or)
  qed
  also have "\<dots> = of_nat (unat a * 65536 + unat b * 256 + unat c)"
    by (simp add: push_bit_eq_mult unsigned_ucast_eq mult.commute)
  finally have "unat (v24 a b c) = (unat a * 65536 + unat b * 256 + unat c) mod 2 ^ 32"
    by (simp only: unat_of_nat) simp
  moreover have "unat a * 65536 + unat b * 256 + unat c < 4294967296"
    using byte_lt [of a] byte_lt [of b] byte_lt [of c] by linarith
  ultimately show ?thesis by simp
qed

text \<open>The same output computed on natural numbers, for evaluation.\<close>

lemma b64_encode_code [code]:
  "b64_encode_loop (a # b # c # r) =
    (let v = unat a * 65536 + unat b * 256 + unat c
     in alphabet ! (v div 262144 mod 64) # alphabet ! (v div 4096 mod 64) # alphabet ! (v div 64 mod 64) #
        alphabet ! (v mod 64) # b64_encode_loop r)"
  "b64_encode_loop [a, b] =
    (let v = unat a * 65536 + unat b * 256
     in [alphabet ! (v div 262144 mod 64), alphabet ! (v div 4096 mod 64), alphabet ! (v div 64 mod 64), 61])"
  "b64_encode_loop [a] =
    (let v = unat a * 65536
     in [alphabet ! (v div 262144 mod 64), alphabet ! (v div 4096 mod 64), 61, 61])"
  "b64_encode_loop [] = []"
  by (simp_all add: encode_simps b64_char_nat unat_v24 Let_def)

section \<open>The codec\<close>

lemma length_b64_groups: "b64_groups s = Some x \<Longrightarrow> length x < length s \<or> x = []"
  by (induction s arbitrary: x rule: b64_groups.induct)
    (fastforce simp: Let_def split: if_splits)+

interpretation b64: canonical_codec b64_encode_loop
  "\<lambda>s. ssoossh_b64_decode s cap" "\<lambda>x. length x \<le> cap" for cap
  by unfold_locales
    (auto simp: ssoossh_b64_decode_groups groups_encode capped_def dest: encode_groups
      split: option.splits if_splits)

lemma length_b64_encode: "length (b64_encode_loop x) = (length x + 2) div 3 * 4"
proof -
  have "(5 + n) div 3 = Suc (Suc (Suc n) div 3)" for n :: nat
    using div_add_self2 [of 3 "Suc (Suc n)"] by simp
  then show ?thesis
    by (induction x rule: b64_encode_loop.induct) (simp_all add: encode_simps)
qed

text \<open>
  C29: the base64 decoder and encoder are inverse to each other.  Whatever the encoder writes
  (it writes exactly when the output and its terminator fit) decodes to the bytes it was
  given, given room for them, and what decodes at all is the encoder's spelling: stray
  characters, missing, misplaced or excess padding and padding bits that carry data are all
  refused.  So one key has one spelling.
\<close>

theorem b64_canonical:
  "ssoossh_b64_decode s cap = Some x \<longleftrightarrow>
    length x \<le> cap \<and> ssoossh_b64_encode x (length s + 1) = Some s"
proof -
  have "ssoossh_b64_decode s cap = Some x \<longleftrightarrow> length x \<le> cap \<and> b64_encode_loop x = s"
    by (rule b64.dec_iff)
  then show ?thesis
    using length_b64_encode [of x] by (auto simp: ssoossh_b64_encode_def Let_def)
qed

lemma b64_encode_chars: "set (b64_encode_loop x) \<subseteq> set alphabet \<union> {ch (CHR ''='')}"
proof -
  have "b64_char v k \<in> set alphabet" for v k
    unfolding b64_char_def using and_3f_less by (intro nth_mem) (simp add: length_alphabet)
  then show ?thesis
    by (induction x rule: b64_encode_loop.induct) (auto simp: encode_simps)
qed

text \<open>
  The encoder is total up to its buffer: it succeeds exactly when four characters for every
  started group of three bytes and the terminating NUL fit, and its output, all of it in the
  alphabet or padding, has exactly that length.
\<close>

theorem b64_encode_fits:
  "(case ssoossh_b64_encode x cap of
      None \<Rightarrow> cap \<le> (length x + 2) div 3 * 4
    | Some s \<Rightarrow> length s = (length x + 2) div 3 * 4 \<and> length s < cap \<and>
        set s \<subseteq> set alphabet \<union> {ch (CHR ''='')} \<and>
        ssoossh_b64_decode s (length x) = Some x)"
  using b64_encode_chars [of x] b64.dec_enc [of x "length x"]
  by (auto simp: ssoossh_b64_encode_def Let_def length_b64_encode)

end
