(* ===== verification/Sse.thy ===== *)
theory Sse
  imports Prelude
begin

text \<open>
  src/sse.c: the event stream client.  The parser's state is a record; the buffers are the bytes in
  them, and the callback with its context is a function that returns the verdict and the new
  context.  The name buffer is handed over as it is, to be read as a C string.

  The lemmas: the buffers never overflow, the result does not depend on how the stream is cut into
  chunks, and the events of a well-formed stream are delivered whole, in order, until one of them
  ends the wait.
\<close>

section \<open>The parser\<close>

definition SSOOSSH_SSE_MAX_LINE :: nat where "SSOOSSH_SSE_MAX_LINE = 64 * 1024"
definition SSOOSSH_SSE_MAX_DATA :: nat where "SSOOSSH_SSE_MAX_DATA = 64 * 1024"

record ssoossh_sse =
  sse_line :: bytes
  sse_name :: bytes
  sse_data :: bytes
  sse_have_event :: bool
  sse_overflow :: bool
  sse_stopped :: bool

type_synonym 'c sse_cb = "bytes \<Rightarrow> bytes \<Rightarrow> 'c \<Rightarrow> bool \<times> 'c"

definition ssoossh_sse_init :: ssoossh_sse where
  "ssoossh_sse_init =
     \<lparr> sse_line = [], sse_name = [], sse_data = [], sse_have_event = False, sse_overflow = False,
       sse_stopped = False \<rparr>"

definition dispatch :: "'c sse_cb \<Rightarrow> ssoossh_sse \<Rightarrow> 'c \<Rightarrow> bool \<times> ssoossh_sse \<times> 'c" where
  "dispatch cb s ctx =
     (let (keep_going, ctx) = (if sse_have_event s then cb (sse_name s) (sse_data s) ctx else (True, ctx));
          s = (if sse_have_event s \<and> \<not> keep_going then s\<lparr>sse_stopped := True\<rparr> else s)
      in (keep_going, s\<lparr>sse_name := [], sse_data := [], sse_have_event := False\<rparr>, ctx))"

definition handle_line :: "'c sse_cb \<Rightarrow> ssoossh_sse \<Rightarrow> 'c \<Rightarrow> bool \<times> ssoossh_sse \<times> 'c" where
  "handle_line cb s ctx =
     (let line = sse_line s in
      if length line = 0 then dispatch cb s ctx
      else if hd line = 0x3a then (True, s, ctx)
      else
        let field = takeWhile (\<lambda>c. c \<noteq> 0x3a) line; rest = dropWhile (\<lambda>c. c \<noteq> 0x3a) line in
        if rest = [] then (True, s, ctx)
        else
          let v = tl rest;
              v = (if length v > 0 \<and> hd v = 0x20 then tl v else v) in
          if field = bs ''event'' then
            (if length v \<ge> 128 then (False, s\<lparr>sse_overflow := True\<rparr>, ctx)
             else (True, s\<lparr>sse_name := v, sse_have_event := True\<rparr>, ctx))
          else if field = bs ''data'' then
            (let need = length v + (if length (sse_data s) > 0 then 1 else 0) in
             if length (sse_data s) + need + 1 > SSOOSSH_SSE_MAX_DATA
               then (False, s\<lparr>sse_overflow := True\<rparr>, ctx)
             else
               (True, s\<lparr>sse_data := (if length (sse_data s) > 0 then sse_data s @ [0x0a] else []) @ v,
                  sse_have_event := True\<rparr>, ctx))
          else (True, s, ctx))"

definition drop_cr :: "bytes \<Rightarrow> bytes" where
  "drop_cr line = (if length line > 0 \<and> last line = 0x0d then butlast line else line)"

fun sse_feed_loop :: "'c sse_cb \<Rightarrow> bytes \<Rightarrow> ssoossh_sse \<Rightarrow> 'c \<Rightarrow> bool \<times> ssoossh_sse \<times> 'c" where
  "sse_feed_loop cb [] s ctx = (True, s, ctx)"
| "sse_feed_loop cb (c # p) s ctx =
     (if c = 0x0a then
        (case handle_line cb (s\<lparr>sse_line := drop_cr (sse_line s)\<rparr>) ctx of
           (ok, s, ctx) \<Rightarrow>
             let s = s\<lparr>sse_line := []\<rparr> in
             if \<not> ok then (False, s, ctx) else sse_feed_loop cb p s ctx)
      else if length (sse_line s) + 1 \<ge> SSOOSSH_SSE_MAX_LINE then (False, s\<lparr>sse_overflow := True\<rparr>, ctx)
      else sse_feed_loop cb p (s\<lparr>sse_line := sse_line s @ [c]\<rparr>) ctx)"

definition ssoossh_sse_feed :: "'c sse_cb \<Rightarrow> bytes \<Rightarrow> ssoossh_sse \<Rightarrow> 'c \<Rightarrow> bool \<times> ssoossh_sse \<times> 'c" where
  "ssoossh_sse_feed cb p s ctx =
     (if sse_overflow s \<or> sse_stopped s then (False, s, ctx) else sse_feed_loop cb p s ctx)"

section \<open>Bounds and flags\<close>

definition sse_inv :: "ssoossh_sse \<Rightarrow> bool" where
  "sse_inv s \<longleftrightarrow> length (sse_line s) < SSOOSSH_SSE_MAX_LINE \<and> length (sse_name s) < 128 \<and>
    length (sse_data s) < SSOOSSH_SSE_MAX_DATA"

lemma sse_inv_init: "sse_inv ssoossh_sse_init"
  by (simp add: sse_inv_def ssoossh_sse_init_def SSOOSSH_SSE_MAX_LINE_def SSOOSSH_SSE_MAX_DATA_def)

lemma drop_cr_length: "length (drop_cr l) \<le> length l"
  by (simp add: drop_cr_def)

lemma dispatch_inv:
  "sse_inv s \<Longrightarrow> dispatch cb s ctx = (ok, s', ctx') \<Longrightarrow> sse_inv s'"
  by (auto simp: dispatch_def sse_inv_def Let_def SSOOSSH_SSE_MAX_DATA_def split: prod.splits if_splits)

text \<open>The five things a line can do.\<close>

lemma handle_line_cases:
  obtains "sse_line s = []" and "handle_line cb s ctx = dispatch cb s ctx"
  | "handle_line cb s ctx = (True, s, ctx)"
  | "handle_line cb s ctx = (False, s\<lparr>sse_overflow := True\<rparr>, ctx)"
  | v where "length v < 128" and "handle_line cb s ctx = (True, s\<lparr>sse_name := v, sse_have_event := True\<rparr>, ctx)"
  | d where "length d < SSOOSSH_SSE_MAX_DATA"
      and "handle_line cb s ctx = (True, s\<lparr>sse_data := d, sse_have_event := True\<rparr>, ctx)"
proof -
  let ?rest = "dropWhile (\<lambda>c. c \<noteq> 0x3a) (sse_line s)"
  define v where "v = (if length (tl ?rest) > 0 \<and> hd (tl ?rest) = 0x20 then tl (tl ?rest) else tl ?rest)"
  define d where "d = (if length (sse_data s) > 0 then sse_data s @ [0x0a] else []) @ v"
  define ev where "ev = (takeWhile (\<lambda>c. c \<noteq> 0x3a) (sse_line s) = bs ''event'')"
  define da where "da = (takeWhile (\<lambda>c. c \<noteq> 0x3a) (sse_line s) = bs ''data'')"
  have len: "length d = length (sse_data s) + (length v + (if length (sse_data s) > 0 then 1 else 0))"
    by (simp add: d_def)
  have eq: "handle_line cb s ctx =
     (if sse_line s = [] then dispatch cb s ctx
      else if hd (sse_line s) = 0x3a \<or> ?rest = [] then (True, s, ctx)
      else if ev then
        (if length v \<ge> 128 then (False, s\<lparr>sse_overflow := True\<rparr>, ctx)
         else (True, s\<lparr>sse_name := v, sse_have_event := True\<rparr>, ctx))
      else if da then
        (if length d + 1 > SSOOSSH_SSE_MAX_DATA then (False, s\<lparr>sse_overflow := True\<rparr>, ctx)
         else (True, s\<lparr>sse_data := d, sse_have_event := True\<rparr>, ctx))
      else (True, s, ctx))"
    unfolding len unfolding handle_line_def Let_def ev_def da_def v_def d_def
    by (cases "?rest = []"; cases "hd (sse_line s) = 0x3a"; cases "sse_line s = []";
      simp only: simp_thms if_True if_False length_0_conv)
  show thesis
  proof (cases "sse_line s = []")
    case True
    then show thesis by (intro that(1)) (simp_all add: eq)
  next
    case ne: False
    show thesis
    proof (cases "hd (sse_line s) = 0x3a \<or> ?rest = [] \<or> \<not> ev \<and> \<not> da")
      case True
      then have "handle_line cb s ctx = (True, s, ctx)" using ne by (auto simp: eq)
      then show thesis by (rule that(2))
    next
      case False
      then consider "ev" "length v \<ge> 128" | "ev" "length v < 128"
        | "\<not> ev" "length d + 1 > SSOOSSH_SSE_MAX_DATA" | "\<not> ev" "length d < SSOOSSH_SSE_MAX_DATA"
        by linarith
      then show thesis
      proof cases
        case 1 then show thesis using ne False by (intro that(3)) (auto simp: eq)
      next
        case 2 then show thesis using ne False by (intro that(4) [of v]) (auto simp: eq)
      next
        case 3 then show thesis using ne False by (intro that(3)) (auto simp: eq)
      next
        case 4 then show thesis using ne False by (intro that(5) [of d]) (auto simp: eq)
      qed
    qed
  qed
qed

lemma handle_line_inv:
  assumes "sse_inv s" and "handle_line cb s ctx = (ok, s', ctx')"
  shows "sse_inv s'"
  by (rule handle_line_cases [of s cb ctx])
    (use assms dispatch_inv [OF assms(1), of cb ctx ok s' ctx'] in \<open>auto simp: sse_inv_def\<close>)

text \<open>A step that goes on leaves the flags clear; one that stops has set one of them.\<close>

lemma dispatch_flags:
  "dispatch cb s ctx = (ok, s', ctx') \<Longrightarrow>
    sse_overflow s' = sse_overflow s \<and> sse_stopped s' = (sse_stopped s \<or> \<not> ok)"
  by (auto simp: dispatch_def Let_def split: prod.splits if_splits)

lemma handle_line_flags:
  assumes "handle_line cb s ctx = (ok, s', ctx')" and "\<not> sse_overflow s" and "\<not> sse_stopped s"
  shows "ok \<longleftrightarrow> \<not> sse_overflow s' \<and> \<not> sse_stopped s'"
  by (rule handle_line_cases [of s cb ctx]) (use assms dispatch_flags [of cb s ctx ok s' ctx'] in auto)

lemma feed_loop_flags:
  assumes "sse_feed_loop cb p s ctx = (ok, s', ctx')" and "\<not> sse_overflow s" and "\<not> sse_stopped s"
  shows "ok \<longleftrightarrow> \<not> sse_overflow s' \<and> \<not> sse_stopped s'"
  using assms
proof (induction cb p s ctx rule: sse_feed_loop.induct)
  case (2 cb c p s ctx)
  show ?case
  proof (cases "c = 0x0a")
    case True
    obtain ok1 s1 c1 where h: "handle_line cb (s\<lparr>sse_line := drop_cr (sse_line s)\<rparr>) ctx = (ok1, s1, c1)"
      by (metis prod_cases3)
    then show ?thesis using handle_line_flags [OF h] "2.IH"(1) [OF True h [symmetric] refl refl] "2.prems" True
      by (cases ok1) auto
  next
    case False
    then show ?thesis using "2.IH"(2) [OF False] "2.prems"
      by (cases "length (sse_line s) + 1 \<ge> SSOOSSH_SSE_MAX_LINE") auto
  qed
qed auto

lemma feed_loop_inv:
  assumes "sse_feed_loop cb p s ctx = (ok, s', ctx')" and "sse_inv s"
  shows "sse_inv s'"
  using assms
proof (induction cb p s ctx rule: sse_feed_loop.induct)
  case (2 cb c p s ctx)
  show ?case
  proof (cases "c = 0x0a")
    case True
    obtain ok1 s1 c1 where h: "handle_line cb (s\<lparr>sse_line := drop_cr (sse_line s)\<rparr>) ctx = (ok1, s1, c1)"
      by (metis prod_cases3)
    have "sse_inv (s\<lparr>sse_line := drop_cr (sse_line s)\<rparr>)"
      using "2.prems"(2) drop_cr_length [of "sse_line s"] by (auto simp: sse_inv_def)
    from handle_line_inv [OF this h] have "sse_inv (s1\<lparr>sse_line := []\<rparr>)"
      by (simp add: sse_inv_def SSOOSSH_SSE_MAX_LINE_def)
    then show ?thesis using "2.IH"(1) [OF True h [symmetric] refl refl] "2.prems" True h
      by (cases ok1) auto
  next
    case False
    then show ?thesis using "2.IH"(2) [OF False] "2.prems"
      by (cases "length (sse_line s) + 1 \<ge> SSOOSSH_SSE_MAX_LINE") (auto simp: sse_inv_def)
  qed
qed auto

lemma feed_loop_append:
  "sse_feed_loop cb (p @ q) s ctx =
    (case sse_feed_loop cb p s ctx of (ok, s', ctx') \<Rightarrow> if ok then sse_feed_loop cb q s' ctx' else (ok, s', ctx'))"
  by (induction cb p s ctx rule: sse_feed_loop.induct) (auto simp: Let_def split: prod.splits)

text \<open>The calls that hand a stream over in pieces, stopping when a call says so.\<close>

fun feed_chunks :: "'c sse_cb \<Rightarrow> bytes list \<Rightarrow> ssoossh_sse \<Rightarrow> 'c \<Rightarrow> bool \<times> ssoossh_sse \<times> 'c" where
  "feed_chunks cb [] s ctx = (\<not> (sse_overflow s \<or> sse_stopped s), s, ctx)"
| "feed_chunks cb (p # ps) s ctx =
     (case ssoossh_sse_feed cb p s ctx of
        (ok, s, ctx) \<Rightarrow> if ok then feed_chunks cb ps s ctx else (False, s, ctx))"

text \<open>
  C23: how the network cuts the stream does not matter.  Feeding the pieces one by one, until a call
  returns false, gives the same verdict, the same parser state and the same calls of the callback
  as feeding the whole stream at once.
\<close>

theorem sse_chunks_irrelevant:
  "feed_chunks cb ps s ctx = ssoossh_sse_feed cb (concat ps) s ctx"
proof (induction ps arbitrary: s ctx)
  case (Cons p ps)
  show ?case
  proof (cases "sse_overflow s \<or> sse_stopped s")
    case False
    obtain ok s' c' where p: "sse_feed_loop cb p s ctx = (ok, s', c')" by (metis prod_cases3)
    then show ?thesis using False feed_loop_flags [OF p] Cons.IH [of s' c']
      by (auto simp: ssoossh_sse_feed_def feed_loop_append)
  qed (auto simp: ssoossh_sse_feed_def)
qed (simp add: ssoossh_sse_feed_def)

text \<open>
  C25: no input overruns the parser's three buffers, terminators included, and a call that returns
  false has latched why: the stream is over, and every later call returns false without reading.
\<close>

theorem sse_bounded_and_latched:
  assumes "sse_inv s" and "ssoossh_sse_feed cb p s ctx = (ok, s', ctx')"
  shows "sse_inv s' \<and> (\<not> ok \<longrightarrow> (sse_overflow s' \<or> sse_stopped s') \<and>
    ssoossh_sse_feed cb q s' ctx' = (False, s', ctx'))"
  using assms feed_loop_inv [of cb p s ctx ok s' ctx'] feed_loop_flags [of cb p s ctx ok s' ctx']
  by (auto simp: ssoossh_sse_feed_def split: if_splits)

theorem sse_bounded_and_latched_witness:
  "\<exists>s'. ssoossh_sse_feed (\<lambda>name data n. (n = 0, n + 1)) (bs ''data:x'' @ [0x0a, 0x0a] @ bs ''data:y'' @ [0x0a, 0x0a, 0x41])
      ssoossh_sse_init (0 :: nat) = (False, s', 2) \<and> sse_inv s' \<and> sse_stopped s'"
proof -
  let ?cb = "\<lambda>name data n. (n = 0, n + 1 :: nat)"
  let ?p = "bs ''data:x'' @ [0x0a, 0x0a] @ bs ''data:y'' @ [0x0a, 0x0a, 0x41]"
  let ?s = "ssoossh_sse_init\<lparr>sse_stopped := True\<rparr>"
  have "ssoossh_sse_feed ?cb ?p ssoossh_sse_init 0 = (False, ?s, 2)"
    by (simp add: ssoossh_sse_feed_def ssoossh_sse_init_def SSOOSSH_SSE_MAX_LINE_def handle_line_def dispatch_def
        drop_cr_def Let_def SSOOSSH_SSE_MAX_DATA_def)
  then show ?thesis using sse_bounded_and_latched [OF sse_inv_init, of ?cb ?p 0 False ?s 2 "[]"] by auto
qed


section \<open>A server's stream\<close>

text \<open>An event with the lines of its data, or a keep-alive comment, as a server writes them.\<close>

datatype sse_item = KeepAlive bytes | Event bytes "bytes list"

definition join_lines :: "bytes list \<Rightarrow> bytes" where
  "join_lines ls = (case ls of [] \<Rightarrow> [] | l # ls \<Rightarrow> l @ concat (map (\<lambda>x. 0x0a # x) ls))"

fun item_text :: "sse_item \<Rightarrow> bytes" where
  "item_text (KeepAlive c) = 0x3a # c @ [0x0a]"
| "item_text (Event name ls) =
     bs ''event: '' @ name @ 0x0a # concat (map (\<lambda>l. bs ''data: '' @ l @ [0x0a]) ls) @ [0x0a]"

text \<open>No line break inside a line, no carriage return at its end, and everything fits.\<close>

definition plain_line :: "bytes \<Rightarrow> bool" where
  "plain_line l \<longleftrightarrow> 0x0a \<notin> set l \<and> (l \<noteq> [] \<longrightarrow> last l \<noteq> 0x0d) \<and> length l + 7 < SSOOSSH_SSE_MAX_LINE"

fun item_ok :: "sse_item \<Rightarrow> bool" where
  "item_ok (KeepAlive c) \<longleftrightarrow> plain_line c"
| "item_ok (Event name ls) \<longleftrightarrow> plain_line name \<and> length name < 128 \<and> list_all plain_line ls \<and>
     (length ls > 1 \<longrightarrow> hd ls \<noteq> []) \<and> length (join_lines ls) < SSOOSSH_SSE_MAX_DATA"

fun deliver :: "'c sse_cb \<Rightarrow> sse_item list \<Rightarrow> 'c \<Rightarrow> bool \<times> 'c" where
  "deliver cb [] ctx = (True, ctx)"
| "deliver cb (KeepAlive c # items) ctx = deliver cb items ctx"
| "deliver cb (Event name ls # items) ctx =
     (case cb name (join_lines ls) ctx of (go, ctx) \<Rightarrow> if go then deliver cb items ctx else (False, ctx))"

lemma feed_line:
  assumes "0x0a \<notin> set l" and "length (sse_line s) + length l < SSOOSSH_SSE_MAX_LINE"
  shows "sse_feed_loop cb (l @ 0x0a # q) s ctx =
    (case handle_line cb (s\<lparr>sse_line := drop_cr (sse_line s @ l)\<rparr>) ctx of
       (ok, s, ctx) \<Rightarrow> if ok then sse_feed_loop cb q (s\<lparr>sse_line := []\<rparr>) ctx else (False, s\<lparr>sse_line := []\<rparr>, ctx))"
  using assms
proof (induction l arbitrary: s)
  case Nil
  show ?case by (auto simp: Let_def split: prod.split)
next
  case (Cons c l)
  then have c: "c \<noteq> 0x0a" "\<not> length (sse_line s) + 1 \<ge> SSOOSSH_SSE_MAX_LINE" by auto
  have "sse_feed_loop cb ((c # l) @ 0x0a # q) s ctx =
      sse_feed_loop cb (l @ 0x0a # q) (s\<lparr>sse_line := sse_line s @ [c]\<rparr>) ctx"
    using c by simp
  also have "\<dots> = (case handle_line cb (s\<lparr>sse_line := drop_cr (sse_line s @ c # l)\<rparr>) ctx of
       (ok, s, ctx) \<Rightarrow> if ok then sse_feed_loop cb q (s\<lparr>sse_line := []\<rparr>) ctx else (False, s\<lparr>sse_line := []\<rparr>, ctx))"
    using Cons.IH [of "s\<lparr>sse_line := sse_line s @ [c]\<rparr>"] Cons.prems by simp
  finally show ?case .
qed

lemma drop_cr_plain: "l = [] \<or> last l \<noteq> 0x0d \<Longrightarrow> drop_cr l = l"
  by (auto simp: drop_cr_def)

lemma handle_event:
  "length v < 128 \<Longrightarrow> handle_line cb (s\<lparr>sse_line := bs ''event: '' @ v\<rparr>) ctx =
    (True, s\<lparr>sse_line := bs ''event: '' @ v, sse_name := v, sse_have_event := True\<rparr>, ctx)"
  by (simp add: handle_line_def Let_def)

lemma handle_data:
  "length ((if sse_data s = [] then [] else sse_data s @ [0x0a]) @ v) < SSOOSSH_SSE_MAX_DATA \<Longrightarrow>
    handle_line cb (s\<lparr>sse_line := bs ''data: '' @ v\<rparr>) ctx =
    (True, s\<lparr>sse_line := bs ''data: '' @ v, sse_data := (if sse_data s = [] then [] else sse_data s @ [0x0a]) @ v,
       sse_have_event := True\<rparr>, ctx)"
  by (auto simp: handle_line_def Let_def)

lemma feed_event_line:
  assumes "plain_line v" and "length v < 128" and "sse_line s = []"
  shows "sse_feed_loop cb (bs ''event: '' @ v @ 0x0a # q) s ctx =
    sse_feed_loop cb q (s\<lparr>sse_name := v, sse_have_event := True\<rparr>) ctx"
proof -
  have l: "0x0a \<notin> set (bs ''event: '' @ v)" "length (sse_line s) + length (bs ''event: '' @ v) < SSOOSSH_SSE_MAX_LINE"
      "drop_cr (sse_line s @ bs ''event: '' @ v) = bs ''event: '' @ v"
    using assms by (auto simp: plain_line_def drop_cr_plain)
  show ?thesis using feed_line [OF l(1,2), of cb q ctx] assms(3)
    unfolding l(3) handle_event [OF assms(2)] by (cases s) (simp del: bs_simps)
qed

lemma feed_data_line:
  assumes "plain_line v" and "length ((if sse_data s = [] then [] else sse_data s @ [0x0a]) @ v) < SSOOSSH_SSE_MAX_DATA"
    and "sse_line s = []"
  shows "sse_feed_loop cb (bs ''data: '' @ v @ 0x0a # q) s ctx =
    sse_feed_loop cb q (s\<lparr>sse_data := (if sse_data s = [] then [] else sse_data s @ [0x0a]) @ v,
      sse_have_event := True\<rparr>) ctx"
proof -
  have l: "0x0a \<notin> set (bs ''data: '' @ v)" "length (sse_line s) + length (bs ''data: '' @ v) < SSOOSSH_SSE_MAX_LINE"
      "drop_cr (sse_line s @ bs ''data: '' @ v) = bs ''data: '' @ v"
    using assms by (auto simp: plain_line_def drop_cr_plain)
  show ?thesis using feed_line [OF l(1,2), of cb q ctx] assms(3)
    unfolding l(3) handle_data [OF assms(2)] by (cases s) (simp del: bs_simps)
qed

text \<open>The data lines after the first.\<close>

lemma feed_data_rest:
  assumes "list_all plain_line ls" and "sse_data s \<noteq> []" and "sse_line s = []" and "sse_have_event s"
    and "length (sse_data s @ concat (map (\<lambda>x. 0x0a # x) ls)) < SSOOSSH_SSE_MAX_DATA"
  shows "sse_feed_loop cb (concat (map (\<lambda>l. bs ''data: '' @ l @ [0x0a]) ls) @ q) s ctx =
    sse_feed_loop cb q (s\<lparr>sse_data := sse_data s @ concat (map (\<lambda>x. 0x0a # x) ls)\<rparr>) ctx"
  using assms
proof (induction ls arbitrary: s)
  case (Cons l ls)
  let ?s = "s\<lparr>sse_data := sse_data s @ 0x0a # l, sse_have_event := True\<rparr>"
  have "sse_feed_loop cb (concat (map (\<lambda>l. bs ''data: '' @ l @ [0x0a]) (l # ls)) @ q) s ctx =
      sse_feed_loop cb (concat (map (\<lambda>l. bs ''data: '' @ l @ [0x0a]) ls) @ q) ?s ctx"
    using feed_data_line [of l s cb _ ctx] Cons.prems by (simp del: bs_simps)
  also have "\<dots> = sse_feed_loop cb q (?s\<lparr>sse_data := sse_data ?s @ concat (map (\<lambda>x. 0x0a # x) ls)\<rparr>) ctx"
    by (rule Cons.IH) (use Cons.prems in simp_all)
  finally show ?case using Cons.prems by (cases s) (simp del: bs_simps)
qed simp

lemma feed_event:
  assumes "item_ok (Event name ls)"
  shows "sse_feed_loop cb (item_text (Event name ls) @ q) ssoossh_sse_init ctx =
    (case cb name (join_lines ls) ctx of
       (go, ctx) \<Rightarrow> if go then sse_feed_loop cb q ssoossh_sse_init ctx
                  else (False, ssoossh_sse_init\<lparr>sse_stopped := True\<rparr>, ctx))"
proof -
  let ?text = "concat (map (\<lambda>l. bs ''data: '' @ l @ [0x0a]) ls) @ 0x0a # q"
  let ?s = "ssoossh_sse_init\<lparr>sse_name := name, sse_have_event := True\<rparr>"
  let ?t = "?s\<lparr>sse_data := join_lines ls\<rparr>"
  have "sse_feed_loop cb (item_text (Event name ls) @ q) ssoossh_sse_init ctx = sse_feed_loop cb ?text ?s ctx"
    using feed_event_line [of name ssoossh_sse_init cb ?text ctx] assms
    by (simp add: ssoossh_sse_init_def del: bs_simps)
  also have "\<dots> = sse_feed_loop cb (0x0a # q) ?t ctx"
  proof (cases ls)
    case Nil
    then show ?thesis by (simp add: join_lines_def ssoossh_sse_init_def)
  next
    case (Cons l ls')
    let ?u = "?s\<lparr>sse_data := l, sse_have_event := True\<rparr>"
    have "sse_feed_loop cb ?text ?s ctx =
        sse_feed_loop cb (concat (map (\<lambda>l. bs ''data: '' @ l @ [0x0a]) ls') @ 0x0a # q) ?u ctx"
      using feed_data_line [of l ?s cb _ ctx] assms
      by (simp add: Cons join_lines_def ssoossh_sse_init_def del: bs_simps)
    also have "\<dots> = sse_feed_loop cb (0x0a # q) ?t ctx"
    proof (cases ls')
      case Nil
      then show ?thesis by (simp add: Cons join_lines_def ssoossh_sse_init_def)
    next
      case (Cons l2 ls2)
      then have "l \<noteq> []" using assms \<open>ls = l # ls'\<close> by simp
      then show ?thesis using feed_data_rest [of ls' ?u cb "0x0a # q" ctx] assms \<open>ls = l # ls'\<close>
        by (simp add: join_lines_def ssoossh_sse_init_def del: bs_simps)
    qed
    finally show ?thesis .
  qed
  also have "\<dots> = (case cb name (join_lines ls) ctx of
       (go, ctx) \<Rightarrow> if go then sse_feed_loop cb q ssoossh_sse_init ctx
                  else (False, ssoossh_sse_init\<lparr>sse_stopped := True\<rparr>, ctx))"
    by (auto simp: drop_cr_def handle_line_def dispatch_def ssoossh_sse_init_def Let_def split: prod.split)
  finally show ?thesis .
qed

lemma feed_keep_alive:
  assumes "plain_line c"
  shows "sse_feed_loop cb (item_text (KeepAlive c) @ q) ssoossh_sse_init ctx = sse_feed_loop cb q ssoossh_sse_init ctx"
proof -
  have l: "0x0a \<notin> set (0x3a # c)" "length (sse_line ssoossh_sse_init) + length (0x3a # c) < SSOOSSH_SSE_MAX_LINE"
      "drop_cr (sse_line ssoossh_sse_init @ 0x3a # c) = 0x3a # c"
    using assms by (auto simp: plain_line_def drop_cr_plain ssoossh_sse_init_def)
  have "handle_line cb (ssoossh_sse_init\<lparr>sse_line := 0x3a # c\<rparr>) ctx =
      (True, ssoossh_sse_init\<lparr>sse_line := 0x3a # c\<rparr>, ctx)"
    by (simp add: handle_line_def Let_def)
  then show ?thesis using feed_line [OF l(1,2), of cb q ctx] unfolding l(3)
    by (simp add: ssoossh_sse_init_def)
qed

lemma feed_delivers:
  assumes "list_all item_ok items"
  shows "case ssoossh_sse_feed cb (concat (map item_text items)) ssoossh_sse_init ctx of
    (ok, s, ctx') \<Rightarrow> (ok, ctx') = deliver cb items ctx \<and> s = ssoossh_sse_init\<lparr>sse_stopped := \<not> ok\<rparr>"
proof -
  have "case sse_feed_loop cb (concat (map item_text items)) ssoossh_sse_init ctx of
    (ok, s, ctx') \<Rightarrow> (ok, ctx') = deliver cb items ctx \<and> s = ssoossh_sse_init\<lparr>sse_stopped := \<not> ok\<rparr>"
    using assms
  proof (induction items arbitrary: ctx)
    case Nil
    show ?case by (simp add: ssoossh_sse_init_def)
  next
    case (Cons i items)
    show ?case
    proof (cases i)
      case (KeepAlive c)
      then show ?thesis using Cons by (simp add: feed_keep_alive del: item_text.simps)
    next
      case (Event name ls)
      obtain go c1 where go: "cb name (join_lines ls) ctx = (go, c1)" by (metis prod.exhaust)
      have "sse_feed_loop cb (concat (map item_text (i # items))) ssoossh_sse_init ctx =
          (if go then sse_feed_loop cb (concat (map item_text items)) ssoossh_sse_init c1
           else (False, ssoossh_sse_init\<lparr>sse_stopped := True\<rparr>, c1))"
        using Cons.prems feed_event [of name ls cb _ ctx] by (simp add: Event go del: item_text.simps)
      then show ?thesis using Cons.IH [of c1] Cons.prems by (simp add: Event go del: item_text.simps)
    qed
  qed
  then show ?thesis by (simp add: ssoossh_sse_feed_def) (simp add: ssoossh_sse_init_def)
qed

text \<open>
  C24: a stream of events and keep-alives as a server writes them reaches the callback as exactly
  those events, name and data byte for byte and in order, up to and including the first for which
  the callback asks to stop; and the stream stays open exactly when it never does.
\<close>

theorem sse_delivers:
  assumes "list_all item_ok items"
  shows "case ssoossh_sse_feed cb (concat (map item_text items)) ssoossh_sse_init ctx of
    (ok, s, ctx') \<Rightarrow> (ok, ctx') = deliver cb items ctx \<and> s = ssoossh_sse_init\<lparr>sse_stopped := \<not> ok\<rparr>"
  using assms by (rule feed_delivers)

theorem sse_delivers_witness:
  "\<exists>s. ssoossh_sse_feed (\<lambda>name data ctx. (name \<noteq> bs ''done'', ctx @ [(name, data)]))
     (concat (map item_text [KeepAlive [], Event (bs ''status'') [bs ''a'', [], bs ''b''], Event (bs ''done'') [], Event [] []]))
     ssoossh_sse_init [] = (False, s, [(bs ''status'', bs ''a'' @ [0x0a, 0x0a] @ bs ''b''), (bs ''done'', [])])"
proof -
  let ?items = "[KeepAlive [], Event (bs ''status'') [bs ''a'', [], bs ''b''], Event (bs ''done'') [], Event [] []]"
  let ?cb = "\<lambda>name data ctx. (name \<noteq> bs ''done'', ctx @ [(name, data :: bytes)])"
  have "list_all item_ok ?items"
    by (simp add: plain_line_def SSOOSSH_SSE_MAX_LINE_def SSOOSSH_SSE_MAX_DATA_def join_lines_def)
  from sse_delivers [OF this, of ?cb "[]"] show ?thesis
    by (auto simp: join_lines_def simp del: item_text.simps split: prod.splits)
qed

end
