(* ===== verification/Duration.thy ===== *)
theory Duration
  imports Prelude Complex_Main
begin

text \<open>
  The durations of src/args.c: the grammar of Go's time.ParseDuration and its printer.  A
  C string is the list of its bytes, so the terminating NUL is the end of the list.

  Durations are \<open>int64_t\<close> in the source.  Every sum the source then tests for being negative is
  taken modulo 2^64, which is the result those tests are written for; C itself leaves a signed
  overflow undefined, so for the inputs that reach one (and only for them) the model is one of the
  behaviours the compiler may choose.  A double is a dyadic number \<open>m * 2 ^ e\<close> with \<open>m < 2 ^ 53\<close>,
  and each operation rounds its exact result to nearest, ties to even.  The exponent is not
  bounded: the only values of the source that can leave the range of a double are a scale above
  10 ^ 308, whose quotient is zero or far below one nanosecond either way.

  The lemmas: the double operations are exact on the values of a printed fraction; what a sequence
  of whole numbers with units means and when it is refused; printing and parsing are inverse; and
  the printed text fits its buffer.
\<close>

section \<open>64-bit integers and doubles\<close>

definition INT64_MAX :: int where "INT64_MAX = 9223372036854775807"

definition wrap64 :: "int \<Rightarrow> int" where
  "wrap64 x = (x + 2 ^ 63) mod 2 ^ 64 - 2 ^ 63"

type_synonym dbl = "nat \<times> int"

function bit_length :: "nat \<Rightarrow> nat" where
  "bit_length n = (if n = 0 then 0 else 1 + bit_length (n div 2))"
  by pat_completeness auto
termination by (relation "measure id") auto

declare bit_length.simps [simp del]

text \<open>The double nearest to \<open>n / d * 2 ^ e\<close>, for positive \<open>n\<close> and \<open>d\<close>.\<close>

definition dbl_num :: "nat \<Rightarrow> int \<Rightarrow> nat" where
  "dbl_num n k = (if 0 \<le> k then n else n * 2 ^ nat (- k))"

definition dbl_den :: "nat \<Rightarrow> int \<Rightarrow> nat" where
  "dbl_den d k = (if 0 \<le> k then d * 2 ^ nat k else d)"

definition dbl_round :: "nat \<Rightarrow> nat \<Rightarrow> int \<Rightarrow> dbl" where
  "dbl_round n d e =
     (if n = 0 then (0, 0)
      else
        let k = int (bit_length n) - int (bit_length d) - 53;
            k = (if 2 ^ 53 \<le> dbl_num n k div dbl_den d k then k + 1 else k);
            num = dbl_num n k; den = dbl_den d k;
            q = num div den; r = num mod den;
            m = (if 2 * r < den then q else if den < 2 * r then q + 1
                 else if even q then q else q + 1)
        in (m, k + e))"

definition dbl_of_nat :: "nat \<Rightarrow> dbl" where
  "dbl_of_nat n = dbl_round n 1 0"

definition dbl_mult :: "dbl \<Rightarrow> dbl \<Rightarrow> dbl" where
  "dbl_mult x y = dbl_round (fst x * fst y) 1 (snd x + snd y)"

definition dbl_div :: "dbl \<Rightarrow> dbl \<Rightarrow> dbl" where
  "dbl_div x y = dbl_round (fst x) (fst y) (snd x - snd y)"

text \<open>The cast to \<open>int64_t\<close>: truncation.\<close>

definition dbl_trunc :: "dbl \<Rightarrow> int" where
  "dbl_trunc x = int (if 0 \<le> snd x then fst x * 2 ^ nat (snd x) else fst x div 2 ^ nat (- snd x))"

section \<open>Parsing\<close>

definition is_digit :: "byte \<Rightarrow> bool" where
  "is_digit c \<longleftrightarrow> 0x30 \<le> c \<and> c \<le> 0x39"

definition digit_val :: "byte \<Rightarrow> int" where
  "digit_val c = int (unat c) - 48"

text \<open>\<open>\<mu>\<close> is spelled in the two encodings of the source's table.\<close>

definition duration_units :: "(bytes \<times> int) list" where
  "duration_units =
    [(bs ''ns'', 1), (bs ''us'', 1000), ([0xc2, 0xb5] @ bs ''s'', 1000),
     ([0xce, 0xbc] @ bs ''s'', 1000), (bs ''ms'', 1000000), (bs ''s'', 1000000000),
     (bs ''m'', 60 * 1000000000), (bs ''h'', 3600 * 1000000000)]"

fun leading_int_loop :: "int \<Rightarrow> bytes \<Rightarrow> (int \<times> bytes) option" where
  "leading_int_loop x [] = Some (x, [])"
| "leading_int_loop x (c # cs) =
     (if is_digit c then
        (if x > INT64_MAX div 10 then None
         else
           let x = x * 10; d = digit_val c in
           if x > INT64_MAX - d then None else leading_int_loop (x + d) cs)
      else Some (x, c # cs))"

definition leading_int :: "bytes \<Rightarrow> (int \<times> bytes) option" where
  "leading_int s = leading_int_loop 0 s"

fun leading_fraction_loop :: "int \<Rightarrow> dbl \<Rightarrow> bool \<Rightarrow> bytes \<Rightarrow> int \<times> dbl \<times> bytes" where
  "leading_fraction_loop x sc overflow [] = (x, sc, [])"
| "leading_fraction_loop x sc overflow (c # cs) =
     (if is_digit c then
        (if overflow then leading_fraction_loop x sc overflow cs
         else if x > INT64_MAX div 10 then leading_fraction_loop x sc True cs
         else
           let y = wrap64 (x * 10 + digit_val c) in
           if y < 0 then leading_fraction_loop x sc True cs
           else leading_fraction_loop y (dbl_mult sc (10, 0)) overflow cs)
      else (x, sc, c # cs))"

definition leading_fraction :: "bytes \<Rightarrow> int \<times> dbl \<times> bytes" where
  "leading_fraction s = leading_fraction_loop 0 (1, 0) False s"

definition is_unit_char :: "byte \<Rightarrow> bool" where
  "is_unit_char c \<longleftrightarrow> c \<noteq> 0x2e \<and> \<not> is_digit c"

text \<open>One number with its unit: its value, and what follows it.\<close>

definition duration_term :: "bytes \<Rightarrow> (int \<times> bytes) option" where
  "duration_term s =
     (if \<not> (hd s = 0x2e \<or> is_digit (hd s)) then None
      else
        (case leading_int s of
           None \<Rightarrow> None
         | Some (v, s1) \<Rightarrow>
             let pre = (s1 \<noteq> s);
                 (f, scale, s2, post) =
                   (if s1 \<noteq> [] \<and> hd s1 = 0x2e then
                      (case leading_fraction (tl s1) of (f, scale, s2) \<Rightarrow> (f, scale, s2, s2 \<noteq> tl s1))
                    else (0, (1, 0), s1, False)) in
             if \<not> pre \<and> \<not> post then None
             else
               let name = takeWhile is_unit_char s2; s3 = dropWhile is_unit_char s2 in
               if name = [] then None
               else
                 (case map_of duration_units name of
                    None \<Rightarrow> None
                  | Some unit \<Rightarrow>
                      if v > INT64_MAX div unit then None
                      else
                        let v = v * unit in
                        if f > 0 then
                          let v = wrap64 (v + dbl_trunc
                            (dbl_mult (dbl_of_nat (nat f)) (dbl_div (dbl_of_nat (nat unit)) scale))) in
                          if v < 0 then None else Some (v, s3)
                        else Some (v, s3))))"

lemma leading_int_loop_length: "leading_int_loop x s = Some (v, t) \<Longrightarrow> length t \<le> length s"
  by (induction x s rule: leading_int_loop.induct) (auto simp: Let_def le_SucI split: if_splits)

lemma leading_fraction_loop_length: "length (snd (snd (leading_fraction_loop x sc b s))) \<le> length s"
  by (induction x sc b s rule: leading_fraction_loop.induct) (auto simp: Let_def le_SucI)

lemma duration_term_shorter:
  assumes "duration_term s = Some (v, t)"
  shows "length t < length s"
proof -
  have drop: "length (dropWhile is_unit_char x) < length x" if "takeWhile is_unit_char x \<noteq> []" for x
    using that by (cases x) (auto simp: length_dropWhile_le le_imp_less_Suc split: if_splits)
  have frac: "length s2 \<le> length x" if "leading_fraction x = (f, sc, s2)" for x f sc s2
    using leading_fraction_loop_length [of 0 "(1, 0)" False x] that by (simp add: leading_fraction_def)
  from assms show ?thesis
    by (auto simp: duration_term_def leading_int_def Let_def split: if_splits option.splits prod.splits
        dest!: leading_int_loop_length frac intro: less_le_trans [OF drop])
qed


function duration_loop :: "bytes \<Rightarrow> int \<Rightarrow> int option" where
  "duration_loop s d =
     (if s = [] then Some d
      else
        (case duration_term s of
           None \<Rightarrow> None
         | Some (v, s) \<Rightarrow>
             let d = wrap64 (d + v) in if d < 0 then None else duration_loop s d))"
  by pat_completeness auto
termination
  by (relation "measure (\<lambda>(s, d). length s)") (auto dest: duration_term_shorter)

declare duration_loop.simps [simp del]

definition ssoossh_duration_parse :: "bytes \<Rightarrow> int option" where
  "ssoossh_duration_parse s =
     (let signed = (s \<noteq> [] \<and> (hd s = ch (CHR ''-'') \<or> hd s = ch (CHR ''+'')));
          neg = (signed \<and> hd s = ch (CHR ''-''));
          s = (if signed then tl s else s) in
      if s = bs ''0'' then Some 0
      else if s = [] then None
      else map_option (\<lambda>d. if neg then - d else d) (duration_loop s 0))"

section \<open>Printing\<close>

text \<open>The buffer is filled from its end, so it is the list of what has been written.\<close>

function fmt_digits :: "bytes \<Rightarrow> nat \<Rightarrow> bytes" where
  "fmt_digits buf v =
     (if v > 0 then fmt_digits ((0x30 + of_nat (v mod 10)) # buf) (v div 10) else buf)"
  by pat_completeness auto
termination by (relation "measure snd") auto

declare fmt_digits.simps [simp del]

definition fmt_int :: "bytes \<Rightarrow> nat \<Rightarrow> bytes" where
  "fmt_int buf v = (if v = 0 then 0x30 # buf else fmt_digits buf v)"

fun fmt_frac_loop :: "nat \<Rightarrow> bool \<Rightarrow> bytes \<Rightarrow> nat \<Rightarrow> bytes \<times> nat \<times> bool" where
  "fmt_frac_loop 0 print buf v = (buf, v, print)"
| "fmt_frac_loop (Suc n) print buf v =
     (let digit = v mod 10; print = (print \<or> digit \<noteq> 0)
      in fmt_frac_loop n print (if print then (0x30 + of_nat digit) # buf else buf) (v div 10))"

definition fmt_frac :: "bytes \<Rightarrow> nat \<Rightarrow> nat \<Rightarrow> bytes \<times> nat" where
  "fmt_frac buf v prec =
     (case fmt_frac_loop prec False buf v of
        (buf, v, print) \<Rightarrow> (if print then 0x2e # buf else buf, v))"

text \<open>The whole of the buffer of 32 bytes that is written; the caller's has at least that many.\<close>

definition ssoossh_duration_string :: "int \<Rightarrow> bytes" where
  "ssoossh_duration_string d =
     (let neg = (d < 0); u = (if neg then nat (- (d + 1)) + 1 else nat d) in
      if u < 1000000000 then
        (if u = 0 then bs ''0s''
         else
           let (buf, prec) =
             (if u < 1000 then (bs ''ns'', 0)
              else if u < 1000000 then ([0xc2, 0xb5] @ bs ''s'', 3)
              else (bs ''ms'', 6));
             (buf, u) = fmt_frac buf u prec;
             buf = fmt_int buf u
           in if neg then ch (CHR ''-'') # buf else buf)
      else
        let (buf, u) = fmt_frac (bs ''s'') u 9;
            buf = fmt_int buf (u mod 60);
            u = u div 60;
            buf =
              (if u > 0 then
                 let buf = fmt_int (ch (CHR ''m'') # buf) (u mod 60); u = u div 60
                 in if u > 0 then fmt_int (ch (CHR ''h'') # buf) u else buf
               else buf)
        in if neg then ch (CHR ''-'') # buf else buf)"

section \<open>Exact doubles\<close>

definition dval :: "dbl \<Rightarrow> real" where
  "dval x = real (fst x) * 2 powi snd x"

lemma bit_length_bounds:
  assumes "0 < n"
  shows "2 ^ (bit_length n - 1) \<le> n \<and> n < 2 ^ bit_length n \<and> 0 < bit_length n"
  using assms
proof (induction n rule: bit_length.induct)
  case (1 n)
  show ?case
  proof (cases "n div 2 = 0")
    case True
    then have "n = 1" using "1.prems" by simp
    then show ?thesis by (simp add: bit_length.simps [of "Suc 0"] bit_length.simps [of 0])
  next
    case False
    then have ih: "2 ^ (bit_length (n div 2) - 1) \<le> n div 2" "n div 2 < 2 ^ bit_length (n div 2)"
        "0 < bit_length (n div 2)"
      using "1.IH" "1.prems" by auto
    then obtain b where b: "bit_length (n div 2) = Suc b"
      by (cases "bit_length (n div 2)") auto
    have "bit_length n = Suc (Suc b)" using "1.prems" b by (simp add: bit_length.simps [of n])
    then show ?thesis using ih b by auto
  qed
qed

text \<open>The quotient and divisor of the rounding step, as a real number.\<close>

lemma scaled_quotient:
  "0 < d \<Longrightarrow> real (dbl_num n k) / real (dbl_den d k) = real n / real d * 2 powi (- k)"
  by (auto simp: dbl_num_def dbl_den_def power_int_def field_simps)

lemma dbl_round_exact:
  assumes "0 < d" and "real n / real d * 2 powi e = real Q" and "Q < 2 ^ 53"
  shows "dval (dbl_round n d e) = real Q"
proof (cases "n = 0")
  case True
  then show ?thesis using assms by (simp add: dbl_round_def dval_def)
next
  case False
  define k0 where "k0 = int (bit_length n) - int (bit_length d) - 53"
  define num where "num = dbl_num n"
  define den where "den = dbl_den d"
  define k where "k = (if 2 ^ 53 \<le> num k0 div den k0 then k0 + 1 else k0)"
  have den_pos: "0 < den k" for k using assms(1) by (simp add: den_def dbl_den_def)
  have ratio: "real (num k) / real (den k) = real n / real d * 2 powi (- k)" for k
    using scaled_quotient [OF assms(1)] by (simp add: num_def den_def)
  have n: "2 ^ (bit_length n - 1) \<le> n" "0 < bit_length n"
    using bit_length_bounds [of n] False by auto
  have d: "d < 2 ^ bit_length d" using bit_length_bounds [of d] assms(1) by auto
  have "real (2 ^ bit_length n) \<le> 2 * real n"
  proof -
    have "(2 :: nat) ^ bit_length n = 2 * 2 ^ (bit_length n - 1)" using n(2) by (cases "bit_length n") auto
    then have "2 ^ bit_length n \<le> 2 * n" using n(1) by simp
    then show ?thesis using of_nat_mono [where 'a = real] by fastforce
  qed
  moreover have "real d \<le> real (2 ^ bit_length d)" using d by (simp only: of_nat_le_iff less_imp_le)
  ultimately have "real (2 ^ bit_length n) / real (2 ^ bit_length d) \<le> 2 * real n / real d"
    using assms(1) by (intro frac_le) auto
  moreover have "real (2 ^ bit_length n) / real (2 ^ bit_length d) * 2 powi (- k0) = 2 ^ 53"
    by (simp add: k0_def power_int_diff power_int_minus power_int_add field_simps)
  ultimately have base: "2 ^ 53 \<le> 2 * real n / real d * 2 powi (- k0)"
    using mult_right_mono [of "real (2 ^ bit_length n) / real (2 ^ bit_length d)" "2 * real n / real d"
        "2 powi (- k0)"] by simp
  have low: "2 ^ 52 \<le> real (num k) / real (den k)"
  proof (cases "2 ^ 53 \<le> num k0 div den k0")
    case True
    then have "2 ^ 53 * den k0 \<le> num k0" using den_pos [of k0] by (simp add: less_eq_div_iff_mult_less_eq)
    then have "real (2 ^ 53 * den k0) \<le> real (num k0)" by (simp only: of_nat_le_iff)
    then have "real (2 ^ 53) \<le> real (num k0) / real (den k0)"
      using den_pos [of k0] by (simp add: field_simps)
    moreover have "2 powi (- (k0 + 1)) = 2 powi (- k0) / (2 :: real)"
      using power_int_add [of "2 :: real" "- k0" "- 1"] by (simp add: power_int_minus)
    then have "real n / real d * 2 powi (- (k0 + 1)) = real n / real d * 2 powi (- k0) / 2"
      by (simp only: times_divide_eq_right)
    moreover have "k = k0 + 1" using True by (simp add: k_def)
    ultimately show ?thesis using assms(1) by (simp only: ratio) (simp add: field_simps)
  next
    case False
    then show ?thesis using base by (simp add: k_def ratio)
  qed
  have val: "real (num k) / real (den k) = real Q * 2 powi (- (k + e))"
  proof -
    have "real Q * 2 powi (- (k + e)) = real n / real d * (2 powi e * 2 powi (- (k + e)))"
      by (simp add: assms(2) [symmetric])
    also have "2 powi e * 2 powi (- (k + e)) = (2 powi (- k) :: real)"
      by (simp add: power_int_add [symmetric])
    finally show ?thesis by (simp add: ratio)
  qed
  have "0 \<le> - (k + e)"
  proof (rule ccontr)
    assume "\<not> 0 \<le> - (k + e)"
    then have "2 powi (- (k + e)) \<le> (2 powi (- 1) :: real)"
      by (intro power_int_increasing) auto
    then have "real Q * 2 powi (- (k + e)) \<le> real Q * (1 / 2)"
      by (intro mult_left_mono) (auto simp: power_int_minus)
    then have "2 ^ 53 \<le> real Q" using low val by simp
    then show False using assms(3) by (simp add: not_le [symmetric])
  qed
  then obtain t where t: "- (k + e) = int t" by (metis nonneg_int_cases)
  have "real (num k) / real (den k) = real Q * 2 ^ t" using val unfolding t by simp
  then have "real (num k) = real (Q * 2 ^ t * den k)"
    using den_pos [of k] by (simp add: field_simps)
  then have exact: "num k = Q * 2 ^ t * den k" by (simp only: of_nat_eq_iff)
  have "dbl_round n d e = (num k div den k, k + e)"
    unfolding dbl_round_def Let_def k0_def [symmetric] num_def [symmetric] den_def [symmetric]
      k_def [symmetric]
    using False den_pos [of k] exact by simp
  also have "num k div den k = Q * 2 ^ t" using exact den_pos [of k] by simp
  finally have "dbl_round n d e = (Q * 2 ^ t, - int t)" using t by simp
  then show ?thesis by (simp add: dval_def power_int_minus)
qed


lemma dbl_of_nat_exact: "n < 2 ^ 53 \<Longrightarrow> dval (dbl_of_nat n) = real n"
  by (simp add: dbl_of_nat_def dbl_round_exact)

lemma dbl_mult_exact:
  assumes "dval x * dval y = real Q" and "Q < 2 ^ 53"
  shows "dval (dbl_mult x y) = real Q"
  unfolding dbl_mult_def
  by (rule dbl_round_exact) (use assms in \<open>simp_all add: dval_def power_int_add algebra_simps\<close>)

lemma dbl_div_exact:
  assumes "dval x / dval y = real Q" and "dval y \<noteq> 0" and "Q < 2 ^ 53"
  shows "dval (dbl_div x y) = real Q"
  unfolding dbl_div_def
  by (rule dbl_round_exact) (use assms in \<open>auto simp: dval_def power_int_diff field_simps\<close>)

lemma dbl_trunc_exact:
  assumes "dval x = real Q"
  shows "dbl_trunc x = int Q"
proof (cases "0 \<le> snd x")
  case True
  then have "real (fst x * 2 ^ nat (snd x)) = real Q" using assms by (simp add: dval_def power_int_def)
  then show ?thesis using True unfolding dbl_trunc_def by (simp only: of_nat_eq_iff) simp
next
  case False
  then have "real (fst x) = real (Q * 2 ^ nat (- snd x))"
    using assms by (simp add: dval_def power_int_def field_simps)
  then have "fst x = Q * 2 ^ nat (- snd x)" by (simp only: of_nat_eq_iff)
  then show ?thesis using False by (simp add: dbl_trunc_def)
qed

section \<open>Digits\<close>

text \<open>The \<open>k\<close> low decimal digits of a number, zeros included.\<close>

fun pad_digits :: "nat \<Rightarrow> nat \<Rightarrow> bytes" where
  "pad_digits 0 x = []"
| "pad_digits (Suc k) x = pad_digits k (x div 10) @ [0x30 + of_nat (x mod 10)]"

lemma digit_byte:
  assumes "n < 10"
  shows "is_digit (0x30 + of_nat n)" and "digit_val (0x30 + of_nat n) = int n"
    and "(0x30 + of_nat n :: byte) \<noteq> 0x2e" "(0x30 + of_nat n :: byte) \<noteq> 0x2d" "(0x30 + of_nat n :: byte) \<noteq> 0x2b"
proof -
  have u: "unat (0x30 + of_nat n :: byte) = 48 + n"
    using assms by (simp add: unat_word_ariths unat_of_nat take_bit_nat_eq_self)
  then show "is_digit (0x30 + of_nat n)" and "digit_val (0x30 + of_nat n) = int n"
    using assms by (simp_all add: is_digit_def digit_val_def word_le_nat_alt)
  show "(0x30 + of_nat n :: byte) \<noteq> 0x2e" "(0x30 + of_nat n :: byte) \<noteq> 0x2d" "(0x30 + of_nat n :: byte) \<noteq> 0x2b"
    using u by (auto simp: word_unat_eq_iff)
qed

definition no_digit :: "bytes \<Rightarrow> bool" where
  "no_digit s \<longleftrightarrow> s = [] \<or> \<not> is_digit (hd s)"

lemma fmt_digits_dec: "0 < v \<Longrightarrow> fmt_digits buf v = dec_bytes v @ buf"
proof (induction buf v rule: fmt_digits.induct)
  case (1 buf v)
  show ?case
  proof (cases "v < 10")
    case True
    then show ?thesis using 1 by (simp add: fmt_digits.simps [of buf v] fmt_digits.simps [of _ 0] dec_bytes.simps [of v])
  next
    case False
    then show ?thesis using 1 by (simp add: fmt_digits.simps [of buf v] dec_bytes.simps [of v])
  qed
qed

lemma fmt_int_dec: "fmt_int buf v = dec_bytes v @ buf"
  by (simp add: fmt_int_def fmt_digits_dec dec_bytes.simps [of 0])

lemma leading_int_digit:
  assumes "n < 10" and "0 \<le> x"
  shows "leading_int_loop x ((0x30 + of_nat n) # s) =
    (if x * 10 + int n \<le> INT64_MAX then leading_int_loop (x * 10 + int n) s else None)"
  using assms by (auto simp: digit_byte Let_def INT64_MAX_def)

lemma leading_int_loop_dec:
  assumes "no_digit s"
  shows "leading_int_loop 0 (dec_bytes n @ s) = (if int n \<le> INT64_MAX then Some (int n, s) else None)"
proof -
  have go: "leading_int_loop 0 (dec_bytes n @ s) =
    (if int n \<le> INT64_MAX then leading_int_loop (int n) s else None)" for s
  proof (induction n arbitrary: s rule: dec_bytes.induct)
    case (1 n)
    show ?case
    proof (cases "n < 10")
      case True
      then show ?thesis using leading_int_digit [of n 0 s] by (simp add: dec_bytes.simps [of n])
    next
      case False
      have n: "n div 10 * 10 + n mod 10 = n" by simp
      have "int n = int (n div 10) * 10 + int (n mod 10)" by presburger
      then show ?thesis using False 1 [OF False, of "(0x30 + of_nat (n mod 10)) # s"]
        by (auto simp: dec_bytes.simps [of n] leading_int_digit simp del: leading_int_loop.simps)
    qed
  qed
  show ?thesis using assms go [of s] by (cases s) (auto simp: no_digit_def)
qed


section \<open>Fractions\<close>

lemma wrap64_id: "0 \<le> x \<Longrightarrow> x \<le> INT64_MAX \<Longrightarrow> wrap64 x = x"
  by (simp add: wrap64_def INT64_MAX_def)

lemma pad_digits_mod [simp]: "pad_digits k (x mod 10 ^ k) = pad_digits k x"
proof (induction k arbitrary: x)
  case (Suc k)
  have "x mod 10 ^ Suc k = 10 * (x div 10 mod 10 ^ k) + x mod 10"
    by (simp add: mod_mult2_eq)
  then have "x mod 10 ^ Suc k div 10 = x div 10 mod 10 ^ k" "x mod 10 ^ Suc k mod 10 = x mod 10"
    by simp_all
  then show ?case by (simp add: Suc)
qed simp

lemma length_pad_digits [simp]: "length (pad_digits k x) = k"
  by (induction k arbitrary: x) simp_all

lemma leading_fraction_loop_pad:
  assumes "k \<le> 9" and "y < 10 ^ k"
  shows "\<exists>sc. leading_fraction_loop 0 (1, 0) False (pad_digits k y @ s) =
    leading_fraction_loop (int y) sc False s \<and> dval sc = 10 ^ k"
  using assms
proof (induction k arbitrary: y s)
  case 0
  then show ?case by (intro exI [of _ "(1, 0)"]) (simp add: dval_def)
next
  case (Suc k)
  let ?c = "0x30 + of_nat (y mod 10) :: byte"
  have small: "y div 10 < 10 ^ k" using Suc.prems by (simp add: less_mult_imp_div_less)
  obtain sc where sc: "leading_fraction_loop 0 (1, 0) False (pad_digits k (y div 10) @ ?c # s) =
      leading_fraction_loop (int (y div 10)) sc False (?c # s)" and v: "dval sc = 10 ^ k"
    using Suc.IH [of "y div 10" "?c # s"] Suc.prems small by auto
  have "(10 :: nat) ^ Suc k \<le> 10 ^ 9" using Suc.prems by (intro power_increasing) auto
  then have y: "y < 10 ^ 9" using Suc.prems by linarith
  then have "int (y div 10) \<le> INT64_MAX div 10" by (simp add: INT64_MAX_def)
  moreover have "int (y div 10) * 10 + int (y mod 10) = int y" by presburger
  moreover have "wrap64 (int y) = int y" using y by (intro wrap64_id) (auto simp: INT64_MAX_def)
  ultimately have "leading_fraction_loop (int (y div 10)) sc False (?c # s) =
      leading_fraction_loop (int y) (dbl_mult sc (10, 0)) False s"
    by (simp add: digit_byte Let_def)
  moreover have "dval (dbl_mult sc (10, 0)) = real (10 ^ Suc k)"
    using \<open>10 ^ Suc k \<le> 10 ^ 9\<close> by (intro dbl_mult_exact) (auto simp: v, simp add: dval_def)
  ultimately show ?case using sc by (intro exI [of _ "dbl_mult sc (10, 0)"]) simp
qed

lemma leading_fraction_pad:
  assumes "k \<le> 9" and "y < 10 ^ k" and "no_digit s"
  shows "\<exists>sc. leading_fraction (pad_digits k y @ s) = (int y, sc, s) \<and> dval sc = 10 ^ k"
proof -
  have "leading_fraction_loop x sc False s = (x, sc, s)" for x sc
    using assms(3) by (cases s) (auto simp: no_digit_def)
  then show ?thesis using leading_fraction_loop_pad [OF assms(1,2), of s]
    by (simp add: leading_fraction_def)
qed

text \<open>The fraction the printer writes for \<open>r\<close> of \<open>10 ^ prec\<close>: none, or a point and digits.\<close>

definition frac_text :: "nat \<Rightarrow> nat \<Rightarrow> bytes \<Rightarrow> bool" where
  "frac_text prec r fr \<longleftrightarrow> (r = 0 \<and> fr = []) \<or>
    (\<exists>k x. 0 < k \<and> k \<le> prec \<and> x < 10 ^ k \<and> r = x * 10 ^ (prec - k) \<and> fr = 0x2e # pad_digits k x)"

lemma fmt_frac_loop_print: "fmt_frac_loop n True buf v = (pad_digits n v @ buf, v div 10 ^ n, True)"
  by (induction n arbitrary: buf v) (simp_all add: Let_def div_mult2_eq)

lemma fmt_frac_loop_text:
  "\<exists>fr. fmt_frac_loop n False buf v = (drop 1 fr @ buf, v div 10 ^ n, fr \<noteq> []) \<and>
    frac_text n (v mod 10 ^ n) fr"
proof (induction n arbitrary: v)
  case 0
  show ?case by (auto simp: frac_text_def intro!: exI [of _ "[]"])
next
  case (Suc n)
  have split: "v mod 10 ^ Suc n = 10 * (v div 10 mod 10 ^ n) + v mod 10" by (simp add: mod_mult2_eq)
  have dv: "v div 10 div 10 ^ n = v div 10 ^ Suc n" by (simp add: div_mult2_eq)
  show ?case
  proof (cases "v mod 10 = 0")
    case True
    obtain fr where "fmt_frac_loop n False buf (v div 10) = (drop 1 fr @ buf, v div 10 div 10 ^ n, fr \<noteq> [])"
        and fr: "frac_text n (v div 10 mod 10 ^ n) fr" using Suc.IH by blast
    moreover have "frac_text (Suc n) (v mod 10 ^ Suc n) fr"
      using fr unfolding split True frac_text_def by (auto simp: Suc_diff_le)
    ultimately show ?thesis using True dv by (auto simp: Let_def)
  next
    case False
    let ?fr = "0x2e # pad_digits (Suc n) v"
    have "v mod 10 ^ Suc n < 10 ^ Suc n" by simp
    then have "frac_text (Suc n) (v mod 10 ^ Suc n) ?fr"
      unfolding frac_text_def using pad_digits_mod [of "Suc n" v]
      by (intro disjI2 exI [of _ "Suc n"] exI [of _ "v mod 10 ^ Suc n"]) (simp del: pad_digits.simps power_Suc)
    then show ?thesis using False dv
      by (intro exI [of _ ?fr]) (simp add: Let_def fmt_frac_loop_print)
  qed
qed

lemma fmt_frac_text:
  "\<exists>fr. fmt_frac buf v prec = (fr @ buf, v div 10 ^ prec) \<and> frac_text prec (v mod 10 ^ prec) fr"
proof -
  obtain fr where fr: "fmt_frac_loop prec False buf v = (drop 1 fr @ buf, v div 10 ^ prec, fr \<noteq> [])"
      "frac_text prec (v mod 10 ^ prec) fr" using fmt_frac_loop_text by blast
  have "fr \<noteq> [] \<Longrightarrow> 0x2e # drop 1 fr = fr" using fr(2) by (auto simp: frac_text_def)
  then show ?thesis using fr by (auto simp: fmt_frac_def intro!: exI [of _ fr])
qed


section \<open>Terms\<close>

lemma unit_name:
  assumes "map_of duration_units name = Some u"
  shows "0 < u" and "u \<le> 3600000000000" and "name \<noteq> []" and "takeWhile is_unit_char name = name"
    and "name = c # cs \<Longrightarrow> \<not> is_digit c \<and> c \<noteq> 0x2e"
proof -
  have name: "(name, u) \<in> set duration_units" using assms by (rule map_of_SomeD)
  show "0 < u" "u \<le> 3600000000000" "name \<noteq> []" "takeWhile is_unit_char name = name"
    and "name = c # cs \<Longrightarrow> \<not> is_digit c \<and> c \<noteq> 0x2e"
    using name by (auto simp: duration_units_def bs_def is_unit_char_def is_digit_def)
qed

text \<open>What follows a unit: nothing, or the number of the next term.\<close>

definition term_end :: "bytes \<Rightarrow> bool" where
  "term_end s \<longleftrightarrow> s = [] \<or> is_digit (hd s) \<or> hd s = 0x2e"

lemma unit_split:
  assumes "map_of duration_units name = Some u" and "term_end s"
  shows "takeWhile is_unit_char (name @ s) = name" and "dropWhile is_unit_char (name @ s) = s"
    and "no_digit (name @ s)" and "name @ s \<noteq> []" and "hd (name @ s) \<noteq> 0x2e"
proof -
  obtain c cs where name: "name = c # cs" using unit_name(3) [OF assms(1)] by (cases name) auto
  have all: "\<forall>c\<in>set name. is_unit_char c"
    using unit_name(4) [OF assms(1)] by (simp add: takeWhile_eq_all_conv)
  have s: "takeWhile is_unit_char s = []" "dropWhile is_unit_char s = s"
    using assms(2) by (cases s; simp add: term_end_def is_unit_char_def; auto)+
  show "takeWhile is_unit_char (name @ s) = name" "dropWhile is_unit_char (name @ s) = s"
    using all s by (simp_all add: takeWhile_append dropWhile_append)
  show "no_digit (name @ s)" "name @ s \<noteq> []" "hd (name @ s) \<noteq> 0x2e"
    using unit_name(5) [OF assms(1) name] name by (simp_all add: no_digit_def)
qed

lemma dec_bytes_Cons: "\<exists>c cs. dec_bytes n = c # cs \<and> is_digit c"
proof (induction n rule: dec_bytes.induct)
  case (1 n)
  then show ?case by (cases "n < 10") (auto simp: dec_bytes.simps [of n] digit_byte)
qed

lemma le_div_iff:
  assumes "(0 :: int) < u"
  shows "a \<le> b div u \<longleftrightarrow> a * u \<le> b"
proof
  assume "a \<le> b div u"
  then have "a * u \<le> b div u * u" using assms by simp
  also have "\<dots> \<le> b" using pos_mod_sign [OF assms, of b] div_mult_mod_eq [of b u] by linarith
  finally show "a * u \<le> b" .
next
  assume "a * u \<le> b"
  then show "a \<le> b div u" using zdiv_mono1 [OF _ assms, of "a * u" b] assms by simp
qed

lemma duration_term_whole:
  assumes "map_of duration_units name = Some u" and "term_end s"
  shows "duration_term (dec_bytes a @ name @ s) =
    (if int a * u \<le> INT64_MAX then Some (int a * u, s) else None)"
proof -
  obtain c cs where c: "dec_bytes a = c # cs" "is_digit c" using dec_bytes_Cons by blast
  note us = unit_split [OF assms] unit_name(3) [OF assms(1)] and u = unit_name(1) [OF assms(1)]
  have big: "int a * u \<le> INT64_MAX \<longleftrightarrow> \<not> INT64_MAX div u < int a"
    using le_div_iff [OF u] by (simp add: not_less)
  have "\<not> int a \<le> INT64_MAX \<Longrightarrow> \<not> int a * u \<le> INT64_MAX"
    using u by (smt (verit) mult_le_cancel_left1 of_nat_0_le_iff)
  then show ?thesis using leading_int_loop_dec [OF us(3), of a] us c big assms(1)
    by (auto simp: duration_term_def leading_int_def Let_def)
qed

lemma duration_term_frac:
  assumes "map_of duration_units name = Some u" and "term_end s" and "u = 10 ^ prec" and "prec \<le> 9"
    and "frac_text prec r fr" and "int a * u + int r \<le> INT64_MAX"
  shows "duration_term (dec_bytes a @ fr @ name @ s) = Some (int a * u + int r, s)"
proof (cases "fr = []")
  case True
  then have "r = 0" using assms(5) by (auto simp: frac_text_def)
  then show ?thesis using True duration_term_whole [OF assms(1,2), of a] assms(6) by simp
next
  case False
  then obtain k x where k: "0 < k" "k \<le> prec" and x: "x < 10 ^ k" and r: "r = x * 10 ^ (prec - k)"
      and fr: "fr = 0x2e # pad_digits k x"
    using assms(5) by (auto simp: frac_text_def)
  obtain c cs where c: "dec_bytes a = c # cs" "is_digit c" using dec_bytes_Cons by blast
  note us = unit_split [OF assms(1,2)] unit_name(3) [OF assms(1)] and u = unit_name(1) [OF assms(1)]
  have au: "int a * u \<le> INT64_MAX" using assms(6) by simp
  then have a: "int a \<le> INT64_MAX" using u by (smt (verit) mult_le_cancel_left1 of_nat_0_le_iff)
  have big: "\<not> INT64_MAX div u < int a" using le_div_iff [OF u] au by (simp add: not_less)
  have dot: "no_digit (0x2e # t)" for t by (simp add: no_digit_def is_digit_def)
  obtain sc where sc: "leading_fraction (pad_digits k x @ name @ s) = (int x, sc, name @ s)"
      and v: "dval sc = 10 ^ k"
    using leading_fraction_pad [OF _ x us(3)] k assms(4) by auto
  have p9: "(10 :: nat) ^ prec \<le> 10 ^ 9" using assms(4) by (intro power_increasing) auto
  have split: "(10 :: nat) ^ prec = 10 ^ k * 10 ^ (prec - k)" using k by (simp flip: power_add)
  have nu: "nat u = 10 ^ prec" using assms(3) by (simp add: nat_power_eq)
  have "r < 10 ^ prec" using x unfolding r split by simp
  then have small: "r < 2 ^ 53" using p9 by simp
  have "dval (dbl_div (dbl_of_nat (nat u)) sc) = real (10 ^ (prec - k))"
  proof (rule dbl_div_exact)
    have "dval (dbl_of_nat (nat u)) = real (10 ^ k * 10 ^ (prec - k))"
      using p9 unfolding nu split [symmetric] by (intro dbl_of_nat_exact) simp
    then show "dval (dbl_of_nat (nat u)) / dval sc = real (10 ^ (prec - k))" by (simp add: v)
    show "dval sc \<noteq> 0" by (simp add: v)
    have "(10 :: nat) ^ (prec - k) \<le> 10 ^ 9" using assms(4) by (intro power_increasing) auto
    then show "10 ^ (prec - k) < (2 :: nat) ^ 53" by simp
  qed
  moreover have "dval (dbl_of_nat x) = real x"
  proof (rule dbl_of_nat_exact)
    have "(10 :: nat) ^ k \<le> 10 ^ 9" using k assms(4) by (intro power_increasing) auto
    then show "x < 2 ^ 53" using x by simp
  qed
  ultimately have "dbl_trunc (dbl_mult (dbl_of_nat x) (dbl_div (dbl_of_nat (nat u)) sc)) = int r"
    using small by (intro dbl_trunc_exact dbl_mult_exact) (simp_all add: r)
  moreover have "wrap64 (int a * u + int r) = int a * u + int r"
    using assms(6) u by (intro wrap64_id) auto
  moreover have "0 \<le> int a * u" using u by simp
  moreover have "x = 0 \<Longrightarrow> r = 0" by (simp add: r)
  ultimately show ?thesis
    using leading_int_loop_dec [OF dot, of a] sc us c big a assms(1) k unfolding fr
    by (auto simp: duration_term_def leading_int_def Let_def)
qed


section \<open>Whole texts\<close>

lemma duration_loop_Nil [simp]: "duration_loop [] d = Some d"
  by (simp add: duration_loop.simps)

lemma wrap64_sum_neg: "0 \<le> d \<Longrightarrow> d \<le> INT64_MAX \<Longrightarrow> 0 \<le> v \<Longrightarrow> v \<le> INT64_MAX \<Longrightarrow>
    wrap64 (d + v) < 0 \<longleftrightarrow> INT64_MAX < d + v"
proof (cases "INT64_MAX < d + v")
  case True
  assume d: "0 \<le> d" "d \<le> INT64_MAX" "0 \<le> v" "v \<le> INT64_MAX"
  have "(d + v + 2 ^ 63) mod 2 ^ 64 = (d + v + 2 ^ 63 - 2 ^ 64) mod 2 ^ 64"
    by (simp only: minus_mod_self2)
  also have "\<dots> = d + v + 2 ^ 63 - 2 ^ 64"
    using True d by (intro mod_pos_pos_trivial) (auto simp: INT64_MAX_def)
  finally show ?thesis using True d by (simp add: wrap64_def INT64_MAX_def)
qed (auto simp: wrap64_id)

lemma duration_loop_term:
  assumes "duration_term s = Some (v, t)" and "s \<noteq> []" and "0 \<le> d" "d \<le> INT64_MAX" "0 \<le> v" "v \<le> INT64_MAX"
  shows "duration_loop s d = (if d + v \<le> INT64_MAX then duration_loop t (d + v) else None)"
  using assms wrap64_sum_neg [OF assms(3,4,5,6)] by (auto simp: duration_loop.simps [of s] Let_def wrap64_id)

lemma duration_parse_body:
  assumes "is_digit c" and "\<exists>x \<in> set cs. \<not> is_digit x"
  shows "ssoossh_duration_parse (sg @ c # cs) =
    (if sg = [] \<or> sg = [0x2b] then duration_loop (c # cs) 0
     else if sg = [0x2d] then map_option uminus (duration_loop (c # cs) 0)
     else ssoossh_duration_parse (sg @ c # cs))"
proof -
  have "cs \<noteq> []" using assms(2) by auto
  moreover have "c \<noteq> 0x2d" "c \<noteq> 0x2b" using assms(1) by (auto simp: is_digit_def)
  ultimately show ?thesis by (auto simp: ssoossh_duration_parse_def bs_def Let_def option.map_id0 option.map_ident)
qed


text \<open>A text of whole numbers with units, and what it denotes in nanoseconds.\<close>

definition whole_text :: "(nat \<times> bytes) list \<Rightarrow> bytes" where
  "whole_text ts = concat (map (\<lambda>(n, name). dec_bytes n @ name) ts)"

definition whole_ns :: "(nat \<times> bytes) list \<Rightarrow> int" where
  "whole_ns ts = (\<Sum>(n, name) \<leftarrow> ts. int n * the (map_of duration_units name))"

definition known_units :: "(nat \<times> bytes) list \<Rightarrow> bool" where
  "known_units ts \<longleftrightarrow> (\<forall>(n, name) \<in> set ts. name \<in> fst ` set duration_units)"

lemma known_units_Cons [simp]:
  "known_units ((n, name) # ts) \<longleftrightarrow> (\<exists>u. map_of duration_units name = Some u) \<and> known_units ts"
  using map_of_eq_None_iff [of duration_units name] by (auto simp: known_units_def)

lemma whole_ns_Cons [simp]:
  "whole_ns ((n, name) # ts) = int n * the (map_of duration_units name) + whole_ns ts"
  by (simp add: whole_ns_def)

lemma whole_text_Cons [simp]: "whole_text ((n, name) # ts) = dec_bytes n @ name @ whole_text ts"
  by (simp add: whole_text_def)

lemma whole_Nil [simp]: "whole_text [] = []" "whole_ns [] = 0" "known_units []"
  by (simp_all add: whole_text_def whole_ns_def known_units_def)

lemma whole_text_end: "term_end s \<Longrightarrow> term_end (whole_text ts @ s)"
proof (cases ts)
  case (Cons t ts)
  obtain c cs where "dec_bytes (fst t) = c # cs" "is_digit c" using dec_bytes_Cons by blast
  then show ?thesis using Cons by (cases t) (simp add: term_end_def)
qed simp

lemma whole_ns_nonneg: "known_units ts \<Longrightarrow> 0 \<le> whole_ns ts"
proof (induction ts)
  case (Cons t ts)
  then show ?case by (cases t) (auto simp: unit_name(1) less_imp_le)
qed simp

lemma duration_loop_whole:
  assumes "known_units ts" and "term_end s" and "0 \<le> d" and "d \<le> INT64_MAX"
  shows "duration_loop (whole_text ts @ s) d =
    (if d + whole_ns ts \<le> INT64_MAX then duration_loop s (d + whole_ns ts) else None)"
  using assms(1,3,4)
proof (induction ts arbitrary: d)
  case (Cons t ts)
  obtain n name where t: "t = (n, name)" by (cases t)
  obtain u where u: "map_of duration_units name = Some u" and ts: "known_units ts"
    using Cons.prems by (auto simp: t)
  note trm = duration_term_whole [OF u whole_text_end [OF assms(2)], of n ts]
  have pos: "0 < u" "0 \<le> int n * u" using unit_name(1) [OF u] by auto
  have ne: "dec_bytes n @ name @ whole_text ts @ s \<noteq> []" using unit_name(3) [OF u] by simp
  show ?case
  proof (cases "int n * u \<le> INT64_MAX")
    case True
    then have "duration_loop (whole_text (t # ts) @ s) d =
      (if d + int n * u \<le> INT64_MAX then duration_loop (whole_text ts @ s) (d + int n * u) else None)"
      using trm duration_loop_term [OF _ ne] Cons.prems pos by (simp add: t)
    then show ?thesis using Cons.IH [OF ts, of "d + int n * u"] Cons.prems pos u whole_ns_nonneg [OF ts]
      by (auto simp: t algebra_simps)
  next
    case False
    then show ?thesis using trm pos Cons.prems u whole_ns_nonneg [OF ts] ne
      by (auto simp: t duration_loop.simps [of "dec_bytes n @ name @ whole_text ts @ s"])
  qed
qed simp

text \<open>
  A duration made of whole numbers with units, with or without a sign, means the sum of its
  terms in nanoseconds, and is refused exactly when that sum does not fit in an \<open>int64_t\<close>: no
  product and no sum along the way is let through wrapped.
\<close>

theorem duration_parse_whole:
  assumes "known_units ts" and "ts \<noteq> []" and "sg = [] \<or> sg = bs ''+'' \<or> sg = bs ''-''"
  shows "ssoossh_duration_parse (sg @ whole_text ts) =
    (if whole_ns ts \<le> INT64_MAX then Some (if sg = bs ''-'' then - whole_ns ts else whole_ns ts) else None)"
proof -
  obtain n name ts' where ts: "ts = (n, name) # ts'" using assms(2) by (cases ts) auto
  obtain u where u: "map_of duration_units name = Some u" using assms(1) by (auto simp: ts)
  obtain x xs where x: "name = x # xs" "\<not> is_digit x"
    using unit_name(3) [OF u] unit_name(5) [OF u] by (cases name) auto
  obtain c cs where c: "dec_bytes n = c # cs" "is_digit c" using dec_bytes_Cons by blast
  have "whole_text ts = c # cs @ name @ whole_text ts'" by (simp add: ts c)
  moreover have "\<exists>y \<in> set (cs @ name @ whole_text ts'). \<not> is_digit y" using x by auto
  ultimately show ?thesis
    using duration_parse_body [OF c(2), of "cs @ name @ whole_text ts'" sg] assms(3)
      duration_loop_whole [OF assms(1), of "[]" 0]
    by (auto simp: bs_def INT64_MAX_def term_end_def)
qed

theorem duration_parse_whole_witness:
  "ssoossh_duration_parse (bs ''-'' @ whole_text [(2, bs ''h''), (45, bs ''m'')]) = Some (- 9900000000000) \<and>
   ssoossh_duration_parse (bs ''+'' @ whole_text [(9223372037, bs ''s'')]) = None"
  using duration_parse_whole [of "[(2, bs ''h''), (45, bs ''m'')]" "bs ''-''"]
    duration_parse_whole [of "[(9223372037, bs ''s'')]" "bs ''+''"]
  by (simp add: duration_units_def bs_def INT64_MAX_def)

section \<open>Printed durations\<close>

lemma duration_string_sign:
  assumes "0 < u"
  shows "ssoossh_duration_string (- int u) = ch (CHR ''-'') # ssoossh_duration_string (int u)"
proof -
  have "nat (- (- int u + 1)) + 1 = u" "- int u < 0" "\<not> int u < 0" using assms by auto
  then show ?thesis using assms
    unfolding ssoossh_duration_string_def Let_def by (simp split: prod.splits)
qed

text \<open>The two shapes of a printed duration: one term below a second, and up to three above.\<close>

lemma duration_string_small:
  assumes "0 < u" and "u < 1000000000"
  shows "\<exists>fr name prec. ssoossh_duration_string (int u) = dec_bytes (u div 10 ^ prec) @ fr @ name \<and>
    map_of duration_units name = Some (10 ^ prec) \<and> prec \<le> 6 \<and> frac_text prec (u mod 10 ^ prec) fr \<and>
    length name \<le> 3 \<and> u div 10 ^ prec < 1000"
proof -
  have "\<exists>name prec. map_of duration_units name = Some (10 ^ prec) \<and> prec \<le> 6 \<and>
     ssoossh_duration_string (int u) = (case fmt_frac name u prec of (buf, u) \<Rightarrow> fmt_int buf u) \<and>
     length name \<le> 3 \<and> u div 10 ^ prec < 1000"
  proof (cases "u < 1000")
    case True
    then show ?thesis using assms
      by (intro exI [of _ "bs ''ns''"] exI [of _ 0]) (simp add: ssoossh_duration_string_def duration_units_def)
  next
    case big: False
    show ?thesis
    proof (cases "u < 1000000")
      case True
      then show ?thesis using assms big
        by (intro exI [of _ "[0xc2, 0xb5] @ bs ''s''"] exI [of _ 3])
          (simp add: ssoossh_duration_string_def duration_units_def bs_def less_mult_imp_div_less)
    next
      case False
      then show ?thesis using assms big
        by (intro exI [of _ "bs ''ms''"] exI [of _ 6])
          (simp add: ssoossh_duration_string_def duration_units_def bs_def less_mult_imp_div_less)
    qed
  qed
  then obtain name prec where np: "map_of duration_units name = Some (10 ^ prec)" "prec \<le> 6"
      "ssoossh_duration_string (int u) = (case fmt_frac name u prec of (buf, u) \<Rightarrow> fmt_int buf u)"
      "length name \<le> 3" "u div 10 ^ prec < 1000" by blast
  obtain fr where "fmt_frac name u prec = (fr @ name, u div 10 ^ prec)" "frac_text prec (u mod 10 ^ prec) fr"
    using fmt_frac_text by blast
  then show ?thesis using np by (intro exI [of _ fr] exI [of _ name] exI [of _ prec]) (simp add: fmt_int_dec)
qed

text \<open>The hours and minutes in front of the seconds.\<close>

definition hours_minutes :: "nat \<Rightarrow> (nat \<times> bytes) list" where
  "hours_minutes sec =
    (if 3600 \<le> sec then [(sec div 3600, bs ''h'')] else []) @
    (if 60 \<le> sec then [(sec div 60 mod 60, bs ''m'')] else [])"

lemma duration_string_large:
  assumes "1000000000 \<le> u"
  shows "\<exists>fr. ssoossh_duration_string (int u) =
      whole_text (hours_minutes (u div 10 ^ 9)) @ dec_bytes (u div 10 ^ 9 mod 60) @ fr @ bs ''s'' \<and>
    frac_text 9 (u mod 10 ^ 9) fr"
proof -
  obtain fr where fr: "fmt_frac (bs ''s'') u 9 = (fr @ bs ''s'', u div 10 ^ 9)" "frac_text 9 (u mod 10 ^ 9) fr"
    using fmt_frac_text by blast
  define sec where "sec = u div 10 ^ 9"
  have hm: "0 < sec div 60 \<longleftrightarrow> 60 \<le> sec" "0 < sec div 60 div 60 \<longleftrightarrow> 3600 \<le> sec"
      "sec div 60 div 60 = sec div 3600"
    by (auto simp: div_greater_zero_iff div_mult2_eq [symmetric])
  have "ssoossh_duration_string (int u) =
      whole_text (hours_minutes sec) @ dec_bytes (sec mod 60) @ fr @ bs ''s''"
    using assms fr(1) hm unfolding sec_def [symmetric]
    by (auto simp: ssoossh_duration_string_def Let_def fmt_int_dec hours_minutes_def bs_def)
  then show ?thesis using fr(2) by (auto simp: sec_def)
qed


lemma hours_minutes_known: "known_units (hours_minutes sec)"
  by (simp add: hours_minutes_def duration_units_def bs_def)

lemma hours_minutes_ns: "whole_ns (hours_minutes sec) + int (sec mod 60) * 1000000000 = int sec * 1000000000"
proof -
  have "sec div 60 div 60 = sec div 3600" by (simp add: div_mult2_eq [symmetric])
  then have sec: "sec = sec div 3600 * 3600 + sec div 60 mod 60 * 60 + sec mod 60"
    using div_mult_mod_eq [of sec 60] div_mult_mod_eq [of "sec div 60" 60] by linarith
  have "whole_ns (hours_minutes sec) =
      int (sec div 3600) * 3600000000000 + int (sec div 60 mod 60) * 60000000000"
    by (simp add: hours_minutes_def duration_units_def bs_def)
  moreover have "int sec = int (sec div 3600) * 3600 + int (sec div 60 mod 60) * 60 + int (sec mod 60)"
    using arg_cong [OF sec, of int] by (simp only: of_nat_add of_nat_mult of_nat_numeral)
  ultimately show ?thesis by linarith
qed

lemma int_div_mod: "int (u div m) * int m + int (u mod m) = int u"
  by (simp flip: of_nat_mult of_nat_add)

text \<open>The printed text as the parser reads it.\<close>

lemma duration_string_loop:
  assumes "int u \<le> INT64_MAX" and "0 < u"
  shows "duration_loop (ssoossh_duration_string (int u)) 0 = Some (int u)"
proof (cases "u < 1000000000")
  case True
  obtain fr name prec where s: "ssoossh_duration_string (int u) = dec_bytes (u div 10 ^ prec) @ fr @ name"
      and name: "map_of duration_units name = Some (10 ^ prec)" and prec: "prec \<le> 6"
      and fr: "frac_text prec (u mod 10 ^ prec) fr"
    using duration_string_small [OF assms(2) True] by blast
  have u: "int (u div 10 ^ prec) * 10 ^ prec + int (u mod 10 ^ prec) = int u"
    using int_div_mod [of u "10 ^ prec"] by simp
  have "duration_term (dec_bytes (u div 10 ^ prec) @ fr @ name @ []) = Some (int u, [])"
    using duration_term_frac [OF name _ refl _ fr, of "[]" "u div 10 ^ prec"] prec u assms(1)
    by (simp add: term_end_def)
  moreover have "name \<noteq> []" by (rule unit_name(3) [OF name])
  ultimately show ?thesis using s assms duration_loop_term [of _ "int u" "[]" 0]
    by (simp add: INT64_MAX_def)
next
  case False
  define sec where "sec = u div 10 ^ 9"
  obtain fr where s: "ssoossh_duration_string (int u) =
      whole_text (hours_minutes sec) @ dec_bytes (sec mod 60) @ fr @ bs ''s''"
      and fr: "frac_text 9 (u mod 10 ^ 9) fr"
    using duration_string_large [of u] False unfolding sec_def by auto
  have name: "map_of duration_units (bs ''s'') = Some (10 ^ 9)" by (simp add: duration_units_def bs_def)
  have u: "int sec * 10 ^ 9 + int (u mod 10 ^ 9) = int u"
    unfolding sec_def using int_div_mod [of u "10 ^ 9"] by simp
  note ns = hours_minutes_ns [of sec] whole_ns_nonneg [OF hours_minutes_known [of sec]]
  define t where "t = dec_bytes (sec mod 60) @ fr @ bs ''s'' @ []"
  have "duration_term t = Some (int (sec mod 60) * 10 ^ 9 + int (u mod 10 ^ 9), [])"
    unfolding t_def by (rule duration_term_frac [OF name _ refl _ fr]) (use u ns assms(1) in \<open>auto simp: term_end_def\<close>)
  moreover obtain c cs where "dec_bytes (sec mod 60) = c # cs" "is_digit c" using dec_bytes_Cons by blast
  then have "term_end t" "t \<noteq> []" by (simp_all add: t_def term_end_def)
  ultimately have "duration_loop (whole_text (hours_minutes sec) @ t) 0 = Some (int u)"
    using duration_loop_whole [OF hours_minutes_known, of t 0 sec] u ns assms(1)
      duration_loop_term [of t _ "[]" "whole_ns (hours_minutes sec)"]
    by (simp add: INT64_MAX_def)
  then show ?thesis by (simp add: s t_def)
qed


lemma dec_bytes_hd [simp]: "is_digit (hd (dec_bytes n))" "dec_bytes n \<noteq> []"
  using dec_bytes_Cons [of n] by auto

lemma duration_string_shape:
  assumes "0 < u"
  shows "\<exists>c cs. ssoossh_duration_string (int u) = c # cs \<and> is_digit c \<and> (\<exists>x \<in> set cs. \<not> is_digit x)"
proof -
  have "\<exists>y. ssoossh_duration_string (int u) = y \<and> is_digit (hd y) \<and> (\<exists>x \<in> set y. \<not> is_digit x)"
  proof (cases "u < 1000000000")
    case True
    obtain fr name prec where s: "ssoossh_duration_string (int u) = dec_bytes (u div 10 ^ prec) @ fr @ name"
        and name: "map_of duration_units name = Some (10 ^ prec)"
      using duration_string_small [OF assms True] by blast
    obtain x xs where "name = x # xs" "\<not> is_digit x"
      using unit_name(3) [OF name] unit_name(5) [OF name] by (cases name) auto
    then show ?thesis by (simp add: s)
  next
    case False
    obtain fr where "ssoossh_duration_string (int u) =
        whole_text (hours_minutes (u div 10 ^ 9)) @ dec_bytes (u div 10 ^ 9 mod 60) @ fr @ bs ''s''"
      using duration_string_large [of u] False by auto
    moreover have "\<not> is_digit (ch (CHR ''s''))" by (simp add: is_digit_def)
    ultimately show ?thesis by (auto simp: hours_minutes_def bs_def)
  qed
  then obtain y where y: "ssoossh_duration_string (int u) = y" "is_digit (hd y)"
      "\<exists>x \<in> set y. \<not> is_digit x" by blast
  then show ?thesis by (cases y) auto
qed

text \<open>
  What the module prints for a duration reads back as that duration, for every \<open>int64_t\<close> but
  the smallest.  The fraction goes through doubles, and no rounding is lost.
\<close>

theorem duration_roundtrip:
  assumes "- INT64_MAX \<le> d" and "d \<le> INT64_MAX"
  shows "ssoossh_duration_parse (ssoossh_duration_string d) = Some d"
proof (cases "d = 0")
  case True
  have "duration_loop (dec_bytes 0 @ bs ''s'' @ []) 0 = Some 0"
    using duration_loop_whole [of "[(0, bs ''s'')]" "[]" 0]
    by (simp add: term_end_def duration_units_def bs_def INT64_MAX_def)
  then show ?thesis using True
    by (simp add: ssoossh_duration_string_def ssoossh_duration_parse_def bs_def dec_bytes.simps [of 0])
next
  case False
  define u where "u = nat \<bar>d\<bar>"
  have u: "0 < u" "int u \<le> INT64_MAX" and d: "d = int u \<or> d = - int u"
    using False assms by (auto simp: u_def)
  obtain c cs where c: "ssoossh_duration_string (int u) = c # cs" "is_digit c" "\<exists>x \<in> set cs. \<not> is_digit x"
    using duration_string_shape [OF u(1)] by blast
  note loop = duration_string_loop [OF u(2,1)]
  from d show ?thesis
  proof
    assume "d = int u"
    then show ?thesis using duration_parse_body [OF c(2,3), of "[]"] c(1) loop by simp
  next
    assume "d = - int u"
    then show ?thesis
      using duration_parse_body [OF c(2,3), of "[0x2d]"] c(1) loop duration_string_sign [OF u(1)] by simp
  qed
qed

theorem duration_roundtrip_witness:
  "ssoossh_duration_parse (ssoossh_duration_string (- 9223372036854775807)) = Some (- 9223372036854775807)"
  by (rule duration_roundtrip) (simp_all add: INT64_MAX_def)

lemma dec_bytes_length: "n < 10 ^ k \<Longrightarrow> 0 < k \<Longrightarrow> length (dec_bytes n) \<le> k"
proof (induction n arbitrary: k rule: dec_bytes.induct)
  case (1 n)
  show ?case
  proof (cases "n < 10")
    case True
    then show ?thesis using "1.prems" by (simp add: dec_bytes.simps [of n])
  next
    case False
    obtain j where j: "k = Suc j" using "1.prems" by (cases k) auto
    then have "n div 10 < 10 ^ j" "0 < j" using "1.prems" False by (auto simp: less_mult_imp_div_less intro: Nat.gr0I)
    then show ?thesis using "1.IH" [OF False, of j] False j by (simp add: dec_bytes.simps [of n])
  qed
qed

lemma frac_text_length: "frac_text prec r fr \<Longrightarrow> length fr \<le> prec + 1"
  by (auto simp: frac_text_def)

text \<open>
  The printed text of any \<open>int64_t\<close> and its terminator fit the 32 bytes that the printer
  fills from the end without looking at the room left.
\<close>

theorem duration_string_fits:
  assumes "- INT64_MAX - 1 \<le> d" and "d \<le> INT64_MAX"
  shows "length (ssoossh_duration_string d) < 32"
proof -
  define u where "u = nat \<bar>d\<bar>"
  have "length (ssoossh_duration_string (int u)) \<le> 25" if "0 < u"
  proof (cases "u < 1000000000")
    case True
    obtain fr name prec where s: "ssoossh_duration_string (int u) = dec_bytes (u div 10 ^ prec) @ fr @ name"
        and "prec \<le> 6" "frac_text prec (u mod 10 ^ prec) fr" "length name \<le> 3" "u div 10 ^ prec < 1000"
      using duration_string_small [OF \<open>0 < u\<close> True] by blast
    then show ?thesis using dec_bytes_length [of "u div 10 ^ prec" 3] frac_text_length by fastforce
  next
    case False
    define sec where "sec = u div 10 ^ 9"
    obtain fr where s: "ssoossh_duration_string (int u) =
        whole_text (hours_minutes sec) @ dec_bytes (sec mod 60) @ fr @ bs ''s''"
        and fr: "frac_text 9 (u mod 10 ^ 9) fr"
      using duration_string_large [of u] False unfolding sec_def by auto
    have "u \<le> 9223372036854775808" using assms by (auto simp: u_def INT64_MAX_def)
    then have "sec div 3600 < 10 ^ 7" by (simp add: sec_def)
    moreover have "sec div 60 mod 60 < 10 ^ 2" using mod_less_divisor [of 60 "sec div 60"] by simp
    ultimately have "length (whole_text (hours_minutes sec)) \<le> 8 + 3"
      using dec_bytes_length [of "sec div 3600" 7] dec_bytes_length [of "sec div 60 mod 60" 2]
      by (auto simp: hours_minutes_def)
    moreover have "length (dec_bytes (sec mod 60)) \<le> 2"
      using mod_less_divisor [of 60 sec] by (intro dec_bytes_length) simp_all
    ultimately show ?thesis using frac_text_length [OF fr] by (simp add: s)
  qed
  moreover have "d = int u \<or> d = - int u" by (auto simp: u_def)
  moreover have "length (ssoossh_duration_string 0) = 2" by (simp add: ssoossh_duration_string_def)
  ultimately show ?thesis using duration_string_sign [of u] by (cases "u = 0") auto
qed

theorem duration_string_fits_witness:
  "length (ssoossh_duration_string (- 9223372036854775808)) < 32"
  by (rule duration_string_fits) (simp_all add: INT64_MAX_def)

end
