(* ===== verification/Json.thy ===== *)
theory Json
  imports Duration Log
begin

text \<open>
  The tokenizer of third_party/jsmn/jsmn.h as src/json.c configures it (parent links, not strict,
  tokens always given), and what src/json.c reads out of its tokens.  A body is the list of its
  bytes; a token has the offsets the source keeps.  The tokenizer's \<open>toknext\<close> is the number of
  tokens allocated, and a negative return value is an error.

  The walk over parent links has fuel for one turn per token; the links only ever point at earlier
  tokens, so it is enough (\<open>close_bracket_enough\<close>).

  The lemmas: the tokens of a body are ranges of it; what the writer makes of a string is one
  literal that reads back as the string; the writer is a bounded sink.
\<close>

section \<open>The tokenizer\<close>

datatype jsmntype_t = JSMN_UNDEFINED | JSMN_OBJECT | JSMN_ARRAY | JSMN_STRING | JSMN_PRIMITIVE

datatype jsmnerr = JSMN_ERROR_NOMEM | JSMN_ERROR_INVAL | JSMN_ERROR_PART

record jsmntok_t =
  tok_type :: jsmntype_t
  tok_start :: int
  tok_end :: int
  tok_size :: nat
  tok_parent :: int

definition bump_size :: "int \<Rightarrow> jsmntok_t list \<Rightarrow> jsmntok_t list" where
  "bump_size super toks =
     (if super \<noteq> - 1 then toks[nat super := (toks ! nat super)\<lparr>tok_size := tok_size (toks ! nat super) + 1\<rparr>]
      else toks)"

text \<open>The number of bytes of a primitive, \<open>None\<close> for a byte no primitive holds.\<close>

fun primitive_scan :: "bytes \<Rightarrow> nat option" where
  "primitive_scan [] = Some 0"
| "primitive_scan (c # js) =
     (if c = 0 then Some 0
      else if c \<in> {0x3a, 0x09, 0x0d, 0x0a, 0x20, 0x2c, 0x5d, 0x7d} then Some 0
      else if c < 32 \<or> c \<ge> 127 then None
      else map_option Suc (primitive_scan js))"

definition jsmn_parse_primitive ::
    "nat \<Rightarrow> bytes \<Rightarrow> nat \<Rightarrow> jsmntok_t list \<Rightarrow> int \<Rightarrow> jsmnerr + nat \<times> jsmntok_t list" where
  "jsmn_parse_primitive num_tokens js pos toks super =
     (case primitive_scan (drop pos js) of
        None \<Rightarrow> Inl JSMN_ERROR_INVAL
      | Some n \<Rightarrow>
          if length toks \<ge> num_tokens then Inl JSMN_ERROR_NOMEM
          else Inr (pos + n,
            toks @ [\<lparr>tok_type = JSMN_PRIMITIVE, tok_start = int pos, tok_end = int (pos + n), tok_size = 0,
                     tok_parent = super\<rparr>]))"

definition is_hex :: "byte \<Rightarrow> bool" where
  "is_hex c \<longleftrightarrow> 48 \<le> c \<and> c \<le> 57 \<or> 65 \<le> c \<and> c \<le> 70 \<or> 97 \<le> c \<and> c \<le> 102"

text \<open>How many of the bytes of \<open>\u\<close>'s digits are there, up to four; \<open>None\<close> for another byte.\<close>

fun hex_scan :: "nat \<Rightarrow> bytes \<Rightarrow> nat option" where
  "hex_scan (Suc n) (c # js) =
     (if c = 0 then Some 0 else if \<not> is_hex c then None else map_option Suc (hex_scan n js))"
| "hex_scan n js = Some 0"

definition advance :: "nat \<Rightarrow> jsmnerr + nat \<Rightarrow> jsmnerr + nat" where
  "advance n r = (case r of Inl e \<Rightarrow> Inl e | Inr k \<Rightarrow> Inr (n + k))"

text \<open>The number of bytes in front of the closing quote.\<close>

function string_scan :: "bytes \<Rightarrow> jsmnerr + nat" where
  "string_scan [] = Inl JSMN_ERROR_PART"
| "string_scan (c # js) =
     (if c = 0 then Inl JSMN_ERROR_PART
      else if c = 0x22 then Inr 0
      else if c = 0x5c \<and> js \<noteq> [] then
        (if hd js \<in> {0x22, 0x2f, 0x5c, 0x62, 0x66, 0x72, 0x6e, 0x74} then advance 2 (string_scan (tl js))
         else if hd js = 0x75 then
           (case hex_scan 4 (tl js) of
              None \<Rightarrow> Inl JSMN_ERROR_INVAL
            | Some h \<Rightarrow> advance (2 + h) (string_scan (drop h (tl js))))
         else Inl JSMN_ERROR_INVAL)
      else advance 1 (string_scan js))"
  by pat_completeness auto
termination
  by (relation "measure length") (auto simp: neq_Nil_conv)

declare string_scan.simps [simp del]

text \<open>The new position is the one of the closing quote.\<close>

definition jsmn_parse_string ::
    "nat \<Rightarrow> bytes \<Rightarrow> nat \<Rightarrow> jsmntok_t list \<Rightarrow> int \<Rightarrow> jsmnerr + nat \<times> jsmntok_t list" where
  "jsmn_parse_string num_tokens js pos toks super =
     (case string_scan (drop (pos + 1) js) of
        Inl e \<Rightarrow> Inl e
      | Inr n \<Rightarrow>
          if length toks \<ge> num_tokens then Inl JSMN_ERROR_NOMEM
          else Inr (pos + 1 + n,
            toks @ [\<lparr>tok_type = JSMN_STRING, tok_start = int (pos + 1), tok_end = int (pos + 1 + n), tok_size = 0,
                     tok_parent = super\<rparr>]))"

definition tok_open :: "jsmntok_t \<Rightarrow> bool" where
  "tok_open t \<longleftrightarrow> tok_start t \<noteq> - 1 \<and> tok_end t = - 1"

text \<open>The closing bracket: the new super token, and the tokens.\<close>

fun close_bracket ::
    "nat \<Rightarrow> jsmntype_t \<Rightarrow> nat \<Rightarrow> int \<Rightarrow> jsmntok_t list \<Rightarrow> nat \<Rightarrow> jsmnerr + int \<times> jsmntok_t list" where
  "close_bracket 0 type pos super toks i = Inl JSMN_ERROR_INVAL"
| "close_bracket (Suc fuel) type pos super toks i =
     (let token = toks ! i in
      if tok_open token then
        (if tok_type token \<noteq> type then Inl JSMN_ERROR_INVAL
         else Inr (tok_parent token, toks[i := token\<lparr>tok_end := int pos + 1\<rparr>]))
      else if tok_parent token = - 1 then
        (if tok_type token \<noteq> type \<or> super = - 1 then Inl JSMN_ERROR_INVAL else Inr (super, toks))
      else close_bracket fuel type pos super toks (nat (tok_parent token)))"

text \<open>One turn of the loop: the position of the next byte, the super token and the tokens.\<close>

definition jsmn_step ::
    "nat \<Rightarrow> bytes \<Rightarrow> nat \<Rightarrow> int \<Rightarrow> jsmntok_t list \<Rightarrow> jsmnerr + nat \<times> int \<times> jsmntok_t list" where
  "jsmn_step num_tokens js pos super toks =
     (let c = js ! pos in
      if c = 0x7b \<or> c = 0x5b then
        (if length toks \<ge> num_tokens then Inl JSMN_ERROR_NOMEM
         else Inr (pos + 1, int (length toks),
           bump_size super toks @
             [\<lparr>tok_type = (if c = 0x7b then JSMN_OBJECT else JSMN_ARRAY), tok_start = int pos, tok_end = - 1,
               tok_size = 0, tok_parent = super\<rparr>]))
      else if c = 0x7d \<or> c = 0x5d then
        (if length toks < 1 then Inl JSMN_ERROR_INVAL
         else
           (case close_bracket (length toks) (if c = 0x7d then JSMN_OBJECT else JSMN_ARRAY) pos super toks
                   (length toks - 1) of
              Inl e \<Rightarrow> Inl e
            | Inr (super, toks) \<Rightarrow> Inr (pos + 1, super, toks)))
      else if c = 0x22 then
        (case jsmn_parse_string num_tokens js pos toks super of
           Inl e \<Rightarrow> Inl e
         | Inr (pos, toks) \<Rightarrow> Inr (pos + 1, super, bump_size super toks))
      else if c = 0x09 \<or> c = 0x0d \<or> c = 0x0a \<or> c = 0x20 then Inr (pos + 1, super, toks)
      else if c = 0x3a then Inr (pos + 1, int (length toks) - 1, toks)
      else if c = 0x2c then
        Inr (pos + 1,
          (if super \<noteq> - 1 \<and> tok_type (toks ! nat super) \<noteq> JSMN_ARRAY \<and> tok_type (toks ! nat super) \<noteq> JSMN_OBJECT
           then tok_parent (toks ! nat super) else super), toks)
      else
        (case jsmn_parse_primitive num_tokens js pos toks super of
           Inl e \<Rightarrow> Inl e
         | Inr (pos, toks) \<Rightarrow> Inr (pos, super, bump_size super toks)))"

lemma primitive_scan_pos:
  assumes "primitive_scan (drop pos js) = Some n" and "pos < length js" and "js ! pos \<noteq> 0"
    and "js ! pos \<notin> {0x3a, 0x09, 0x0d, 0x0a, 0x20, 0x2c, 0x5d, 0x7d}"
  shows "0 < n"
  using assms by (auto simp: Cons_nth_drop_Suc [symmetric] split: if_splits)

lemma jsmn_step_pos:
  assumes "jsmn_step num js pos super toks = Inr (pos', super', toks')" and "pos < length js" and "js ! pos \<noteq> 0"
  shows "pos < pos'"
  using assms primitive_scan_pos [of pos js]
  by (auto simp: jsmn_step_def jsmn_parse_string_def jsmn_parse_primitive_def Let_def
      split: if_splits sum.splits option.splits)

function jsmn_loop ::
    "nat \<Rightarrow> bytes \<Rightarrow> nat \<Rightarrow> int \<Rightarrow> jsmntok_t list \<Rightarrow> jsmnerr + jsmntok_t list" where
  "jsmn_loop num_tokens js pos super toks =
     (if pos < length js \<and> js ! pos \<noteq> 0 then
        (case jsmn_step num_tokens js pos super toks of
           Inl e \<Rightarrow> Inl e
         | Inr (pos, super, toks) \<Rightarrow> jsmn_loop num_tokens js pos super toks)
      else Inr toks)"
  by pat_completeness auto
termination
  by (relation "measure (\<lambda>(num, js, pos, super, toks). length js - pos)") (auto dest!: jsmn_step_pos)

declare jsmn_loop.simps [simp del]

text \<open>With a fresh parser the count returned is the number of tokens.\<close>

definition jsmn_parse :: "bytes \<Rightarrow> nat \<Rightarrow> jsmnerr + jsmntok_t list" where
  "jsmn_parse js num_tokens =
     (case jsmn_loop num_tokens js 0 (- 1) [] of
        Inl e \<Rightarrow> Inl e
      | Inr toks \<Rightarrow> if list_ex tok_open toks then Inl JSMN_ERROR_PART else Inr toks)"

section \<open>Strings\<close>

definition put_utf8 :: "32 word \<Rightarrow> nat \<Rightarrow> bytes \<Rightarrow> bytes option" where
  "put_utf8 cp out_cap out =
     (let n = (if cp < 0x80 then 1 else if cp < 0x800 then 2 else if cp < 0x10000 then 3 else 4);
          cont = (\<lambda>k. ucast (0x80 OR (drop_bit k cp AND 0x3f)))
      in if length out + n \<ge> out_cap then None
         else if n = 1 then Some (out @ [ucast cp])
         else if n = 2 then Some (out @ [ucast (0xc0 OR drop_bit 6 cp), cont 0])
         else if n = 3 then Some (out @ [ucast (0xe0 OR drop_bit 12 cp), cont 6, cont 0])
         else Some (out @ [ucast (0xf0 OR drop_bit 18 cp), cont 12, cont 6, cont 0]))"

definition hex_val :: "byte \<Rightarrow> 32 word option" where
  "hex_val c =
     (if 0x30 \<le> c \<and> c \<le> 0x39 then Some (ucast (c - 0x30))
      else if 0x61 \<le> c \<and> c \<le> 0x66 then Some (ucast (c - 0x61 + 10))
      else if 0x41 \<le> c \<and> c \<le> 0x46 then Some (ucast (c - 0x41 + 10))
      else None)"

fun hex4_loop :: "32 word \<Rightarrow> bytes \<Rightarrow> 32 word option" where
  "hex4_loop v [] = Some v"
| "hex4_loop v (c # p) =
     (case hex_val c of None \<Rightarrow> None | Some d \<Rightarrow> hex4_loop (push_bit 4 v OR d) p)"

definition hex4 :: "bytes \<Rightarrow> 32 word option" where
  "hex4 p = hex4_loop 0 (take 4 p)"

text \<open>What \<open>\u\<close> stands for, and what follows it.\<close>

definition unescape_u :: "bytes \<Rightarrow> (32 word \<times> bytes) option" where
  "unescape_u p =
     (if length p < 4 then None
      else
        (case hex4 p of
           None \<Rightarrow> None
         | Some cp \<Rightarrow>
             let q = drop 4 p in
             if 0xd800 \<le> cp \<and> cp \<le> 0xdbff then
               (if length q < 6 \<or> q ! 0 \<noteq> 0x5c \<or> q ! 1 \<noteq> 0x75 then None
                else
                  (case hex4 (drop 2 q) of
                     None \<Rightarrow> None
                   | Some low \<Rightarrow>
                       if low < 0xdc00 \<or> low > 0xdfff then None
                       else Some (0x10000 + push_bit 10 (cp - 0xd800) + (low - 0xdc00), drop 6 q)))
             else if 0xdc00 \<le> cp \<and> cp \<le> 0xdfff then None
             else Some (cp, q)))"

lemma unescape_u_shorter: "unescape_u p = Some (cp, q) \<Longrightarrow> length q < length p"
  by (auto simp: unescape_u_def Let_def split: if_splits option.splits)

definition simple_escape :: "byte \<Rightarrow> byte option" where
  "simple_escape e =
     (if e = 0x22 \<or> e = 0x5c \<or> e = 0x2f then Some e
      else if e = 0x62 then Some 0x08 else if e = 0x66 then Some 0x0c else if e = 0x6e then Some 0x0a
      else if e = 0x72 then Some 0x0d else if e = 0x74 then Some 0x09 else None)"

text \<open>The verdict, and what the loop has written to the buffer, also when it fails.\<close>

function unescape_loop :: "nat \<Rightarrow> bytes \<Rightarrow> bytes \<Rightarrow> bool \<times> bytes" where
  "unescape_loop out_cap p out =
     (case p of
        [] \<Rightarrow> (True, out)
      | c # p \<Rightarrow>
          if c \<noteq> 0x5c then
            (if length out + 1 \<ge> out_cap then (False, out) else unescape_loop out_cap p (out @ [c]))
          else
            (case p of
               [] \<Rightarrow> (False, out)
             | e # p \<Rightarrow>
                 if e \<noteq> 0x75 \<and> length out + 1 \<ge> out_cap then (False, out)
                 else if e = 0x75 then
                   (case unescape_u p of
                      None \<Rightarrow> (False, out)
                    | Some (cp, q) \<Rightarrow>
                        (case put_utf8 cp out_cap out of
                           None \<Rightarrow> (False, out)
                         | Some out \<Rightarrow> unescape_loop out_cap q out))
                 else
                   (case simple_escape e of
                      None \<Rightarrow> (False, out)
                    | Some b \<Rightarrow> unescape_loop out_cap p (out @ [b]))))"
  by pat_completeness auto
termination
  by (relation "measure (\<lambda>(cap, p, out). length p)") (auto dest!: unescape_u_shorter)

declare unescape_loop.simps [simp del]

definition unescape :: "bytes \<Rightarrow> nat \<Rightarrow> bool \<times> bytes" where
  "unescape p out_cap = unescape_loop out_cap p []"


section \<open>Fields\<close>

definition MAX_TOKENS :: nat where "MAX_TOKENS = 512"
definition SSOOSSH_MAX_RESPONSE :: nat where "SSOOSSH_MAX_RESPONSE = 64 * 1024"

definition tok_text :: "bytes \<Rightarrow> jsmntok_t \<Rightarrow> bytes" where
  "tok_text body t = take (nat (tok_end t - tok_start t)) (drop (nat (tok_start t)) body)"

definition token_is :: "bytes \<Rightarrow> jsmntok_t \<Rightarrow> bytes \<Rightarrow> bool" where
  "token_is body t name \<longleftrightarrow> tok_type t = JSMN_STRING \<and> tok_end t - tok_start t = int (length name) \<and>
     tok_text body t = name"

definition skip :: "jsmntok_t list \<Rightarrow> nat \<Rightarrow> nat" where
  "skip toks i = i + 1 + length (takeWhile (\<lambda>t. tok_start t < tok_end (toks ! i)) (drop (i + 1) toks))"

fun object_get_loop :: "bytes \<Rightarrow> jsmntok_t list \<Rightarrow> bytes \<Rightarrow> nat \<Rightarrow> nat \<Rightarrow> nat option" where
  "object_get_loop body toks name 0 i = None"
| "object_get_loop body toks name (Suc n) i =
     (if i < length toks then
        (if i + 1 \<ge> length toks then None
         else if token_is body (toks ! i) name then Some (i + 1)
         else object_get_loop body toks name n (skip toks (i + 1)))
      else None)"

definition object_get :: "bytes \<Rightarrow> jsmntok_t list \<Rightarrow> nat \<Rightarrow> bytes \<Rightarrow> nat option" where
  "object_get body toks obj name =
     (if tok_type (toks ! obj) \<noteq> JSMN_OBJECT then None
      else object_get_loop body toks name (tok_size (toks ! obj)) (obj + 1))"

text \<open>
  The verdict and the text in the buffer, which is empty before: a value that cannot be unescaped to its
  end leaves the part before it there.
\<close>

definition get_string :: "bytes \<Rightarrow> bytes option \<Rightarrow> bytes \<Rightarrow> nat \<Rightarrow> bool \<times> bytes" where
  "get_string body object field out_cap =
     (if length body = 0 \<or> length body > SSOOSSH_MAX_RESPONSE then (False, [])
      else
        (case jsmn_parse body MAX_TOKENS of
           Inl e \<Rightarrow> (False, [])
         | Inr toks \<Rightarrow>
             if length toks < 1 \<or> tok_type (toks ! 0) \<noteq> JSMN_OBJECT then (False, [])
             else
               (let target =
                  (case object of
                     None \<Rightarrow> Some 0
                   | Some name \<Rightarrow>
                       (case object_get body toks 0 name of
                          None \<Rightarrow> None
                        | Some target \<Rightarrow> if tok_type (toks ! target) \<noteq> JSMN_OBJECT then None else Some target))
                in case target of
                     None \<Rightarrow> (False, [])
                   | Some target \<Rightarrow>
                       (case object_get body toks target field of
                          None \<Rightarrow> (False, [])
                        | Some target \<Rightarrow>
                            if tok_type (toks ! target) \<noteq> JSMN_STRING then (False, [])
                            else unescape (tok_text body (toks ! target)) out_cap))))"

definition ssoossh_json_data_string :: "bytes \<Rightarrow> bytes \<Rightarrow> nat \<Rightarrow> bool \<times> bytes" where
  "ssoossh_json_data_string body field out_cap = get_string body (Some (bs ''data'')) field out_cap"

definition ssoossh_json_top_string :: "bytes \<Rightarrow> bytes \<Rightarrow> nat \<Rightarrow> bool \<times> bytes" where
  "ssoossh_json_top_string body field out_cap = get_string body None field out_cap"

section \<open>Writing\<close>

record ssoossh_json_wr =
  jw_cap :: nat
  jw_buf :: bytes
  jw_bad :: bool

definition ssoossh_json_wr_init :: "nat \<Rightarrow> ssoossh_json_wr" where
  "ssoossh_json_wr_init cap = \<lparr>jw_cap = cap, jw_buf = [], jw_bad = False\<rparr>"

definition ssoossh_json_append :: "ssoossh_json_wr \<Rightarrow> bytes \<Rightarrow> ssoossh_json_wr" where
  "ssoossh_json_append w raw =
     (if jw_bad w \<or> length (jw_buf w) + length raw + 1 > jw_cap w then w\<lparr>jw_bad := True\<rparr>
      else w\<lparr>jw_buf := jw_buf w @ raw\<rparr>)"

definition json_esc :: "byte \<Rightarrow> bytes" where
  "json_esc c =
     (if c = 0x22 \<or> c = 0x5c then [0x5c, c]
      else if c = 0x0a then bs [CHR 0x5c, CHR ''n'']
      else if c = 0x0d then bs [CHR 0x5c, CHR ''r'']
      else if c = 0x09 then bs [CHR 0x5c, CHR ''t'']
      else if c < 0x20 then bs [CHR 0x5c, CHR ''u'', CHR ''0'', CHR ''0''] @ [hex_digit (drop_bit 4 c), hex_digit (c AND 0x0f)]
      else [c])"

text \<open>The loop over the C string; \<open>acc\<close> is what has been put after the old end of the buffer.\<close>

fun json_string_loop :: "nat \<Rightarrow> nat \<Rightarrow> bytes \<Rightarrow> bytes \<Rightarrow> bytes option" where
  "json_string_loop cap len [] acc = Some acc"
| "json_string_loop cap len (c # s) acc =
     (if len + length acc + length (json_esc c) + 2 > cap then None
      else json_string_loop cap len s (acc @ json_esc c))"

definition ssoossh_json_append_string :: "ssoossh_json_wr \<Rightarrow> bytes \<Rightarrow> ssoossh_json_wr" where
  "ssoossh_json_append_string w s =
     (let len = length (jw_buf w) in
      if jw_bad w \<or> len + 1 \<ge> jw_cap w then w\<lparr>jw_bad := True\<rparr>
      else
        (case json_string_loop (jw_cap w) len (c_str s) [0x22] of
           None \<Rightarrow> w\<lparr>jw_bad := True\<rparr>
         | Some acc \<Rightarrow>
             if len + length acc + 2 > jw_cap w then w\<lparr>jw_bad := True\<rparr>
             else w\<lparr>jw_buf := jw_buf w @ acc @ [0x22]\<rparr>))"

definition ssoossh_json_wr_ok :: "ssoossh_json_wr \<Rightarrow> bool" where
  "ssoossh_json_wr_ok w \<longleftrightarrow> \<not> jw_bad w"

section \<open>Timestamps\<close>

text \<open>The division of the era truncates, as C's does.\<close>

definition days_from_civil :: "int \<Rightarrow> int \<Rightarrow> int \<Rightarrow> int" where
  "days_from_civil y m d =
     (let y = y - (if m \<le> 2 then 1 else 0);
          era = (if y \<ge> 0 then y div 400 else - ((- (y - 399)) div 400));
          yoe = y - era * 400;
          doy = (153 * (m + (if m > 2 then -3 else 9)) + 2) div 5 + d - 1;
          doe = yoe * 365 + yoe div 4 - yoe div 100 + doy
      in era * 146097 + doe - 719468)"

text \<open>A byte of a C string; the terminator is past the end of the list.\<close>

definition c_at :: "bytes \<Rightarrow> nat \<Rightarrow> byte" where
  "c_at s i = (if i < length s then s ! i else 0)"

fun digits_loop :: "bytes \<Rightarrow> nat \<Rightarrow> nat \<Rightarrow> int \<Rightarrow> int option" where
  "digits_loop s i 0 v = Some v"
| "digits_loop s i (Suc n) v =
     (if \<not> is_digit (c_at s i) then None else digits_loop s (i + 1) n (v * 10 + digit_val (c_at s i)))"

definition digits :: "bytes \<Rightarrow> nat \<Rightarrow> nat \<Rightarrow> int option" where
  "digits s i n = digits_loop s i n 0"

text \<open>The offset behind a time: its seconds, \<open>None\<close> if it is not one.\<close>

definition zone_offset :: "bytes \<Rightarrow> nat \<Rightarrow> int option" where
  "zone_offset s i =
     (if c_at s i = 0x5a \<or> c_at s i = 0x7a then (if c_at s (i + 1) \<noteq> 0 then None else Some 0)
      else if c_at s i = 0x2b \<or> c_at s i = 0x2d then
        (case digits s (i + 1) 2 of
           None \<Rightarrow> None
         | Some oh \<Rightarrow>
             if c_at s (i + 3) \<noteq> 0x3a then None
             else
               (case digits s (i + 4) 2 of
                  None \<Rightarrow> None
                | Some om \<Rightarrow>
                    if c_at s (i + 6) \<noteq> 0 then None
                    else if oh > 23 \<or> om > 59 then None
                    else Some ((if c_at s i = 0x2b then -1 else 1) * (oh * 3600 + om * 60))))
      else None)"

definition fraction_end :: "bytes \<Rightarrow> nat option" where
  "fraction_end s =
     (if c_at s 19 = 0x2e then
        (if \<not> is_digit (c_at s 20) then None else Some (20 + length (takeWhile is_digit (drop 20 s))))
      else Some 19)"

definition ssoossh_parse_rfc3339 :: "bytes \<Rightarrow> int option" where
  "ssoossh_parse_rfc3339 s =
     (if length s < 20 then None
      else
        (case (digits s 0 4, digits s 5 2, digits s 8 2, digits s 11 2, digits s 14 2, digits s 17 2) of
           (Some year, Some mon, Some day, Some hour, Some mi, Some sec) \<Rightarrow>
             if c_at s 4 \<noteq> 0x2d \<or> c_at s 7 \<noteq> 0x2d \<or>
                (c_at s 10 \<noteq> ch (CHR ''T'') \<and> c_at s 10 \<noteq> ch (CHR ''t'') \<and> c_at s 10 \<noteq> 0x20) \<or>
                c_at s 13 \<noteq> 0x3a \<or> c_at s 16 \<noteq> 0x3a then None
             else if mon < 1 \<or> mon > 12 \<or> day < 1 \<or> day > 31 \<or> hour > 23 \<or> mi > 59 \<or> sec > 60 then None
             else
               (case fraction_end s of
                  None \<Rightarrow> None
                | Some i \<Rightarrow>
                    (case zone_offset s i of
                       None \<Rightarrow> None
                     | Some off \<Rightarrow> Some (days_from_civil year mon day * 86400 + hour * 3600 + mi * 60 + sec + off)))
         | _ \<Rightarrow> None))"

section \<open>The tokens of a body\<close>

text \<open>
  Offsets inside the bytes read so far, links to earlier tokens, and only brackets left open.
\<close>

definition tok_ok :: "nat \<Rightarrow> nat \<Rightarrow> jsmntok_t \<Rightarrow> bool" where
  "tok_ok pos i t \<longleftrightarrow> 0 \<le> tok_start t \<and> - 1 \<le> tok_parent t \<and> tok_parent t < int i \<and>
    tok_start t \<le> int pos \<and> (tok_end t = - 1 \<or> tok_start t \<le> tok_end t \<and> tok_end t \<le> int pos)"

definition toks_ok :: "nat \<Rightarrow> jsmntok_t list \<Rightarrow> bool" where
  "toks_ok pos toks \<longleftrightarrow> (\<forall>i < length toks. tok_ok pos i (toks ! i))"

definition super_ok :: "int \<Rightarrow> jsmntok_t list \<Rightarrow> bool" where
  "super_ok super toks \<longleftrightarrow> - 1 \<le> super \<and> super < int (length toks)"

lemma toks_ok_append:
  "toks_ok pos toks \<Longrightarrow> tok_ok pos (length toks) t \<Longrightarrow> toks_ok pos (toks @ [t])"
  by (auto simp: toks_ok_def nth_append less_Suc_eq)

lemma tok_ok_mono: "tok_ok pos i t \<Longrightarrow> pos \<le> pos' \<Longrightarrow> tok_ok pos' i t"
  by (auto simp: tok_ok_def)

lemma toks_ok_mono: "toks_ok pos toks \<Longrightarrow> pos \<le> pos' \<Longrightarrow> toks_ok pos' toks"
  by (auto simp: toks_ok_def intro: tok_ok_mono)

lemma toks_ok_update:
  "toks_ok pos toks \<Longrightarrow> tok_ok pos i t \<Longrightarrow> toks_ok pos (toks[i := t])"
  by (cases "i < length toks") (auto simp: toks_ok_def nth_list_update)

lemma length_bump_size [simp]: "length (bump_size super toks) = length toks"
  by (simp add: bump_size_def)

lemma toks_ok_bump:
  assumes "toks_ok pos toks" and "super_ok super toks"
  shows "toks_ok pos (bump_size super toks)"
proof (cases "super = - 1")
  case False
  then have "tok_ok pos (nat super) (toks ! nat super)" using assms by (auto simp: super_ok_def toks_ok_def)
  then have "tok_ok pos (nat super) ((toks ! nat super)\<lparr>tok_size := tok_size (toks ! nat super) + 1\<rparr>)"
    by (simp add: tok_ok_def)
  then show ?thesis using assms(1) False by (simp add: bump_size_def toks_ok_update)
qed (use assms in \<open>simp add: bump_size_def\<close>)

lemma super_ok_append: "super_ok super toks \<Longrightarrow> super_ok super (toks @ ts)"
  by (auto simp: super_ok_def)

text \<open>The walk to the bracket to close, and its fuel.\<close>

lemma close_bracket_ok:
  assumes "toks_ok pos toks" and "i < length toks" and "super_ok super toks"
    and "close_bracket fuel type pos super toks i = Inr (super', toks')"
  shows "toks_ok (pos + 1) toks' \<and> super_ok super' toks' \<and> length toks' = length toks"
  using assms
proof (induction fuel type pos super toks i rule: close_bracket.induct)
  case (2 fuel type pos super toks i)
  have tok: "tok_ok pos i (toks ! i)" using "2.prems" by (simp add: toks_ok_def)
  show ?case
  proof (cases "tok_open (toks ! i)")
    case True
    then have r: "super' = tok_parent (toks ! i)" "toks' = toks[i := (toks ! i)\<lparr>tok_end := int pos + 1\<rparr>]"
      using "2.prems"(4) by (auto simp: Let_def split: if_splits)
    have "tok_ok (pos + 1) i ((toks ! i)\<lparr>tok_end := int pos + 1\<rparr>)" using tok by (auto simp: tok_ok_def)
    then show ?thesis using r tok "2.prems"(1,2) toks_ok_update [OF toks_ok_mono [of pos toks "pos + 1"]]
      by (auto simp: super_ok_def tok_ok_def)
  next
    case False
    show ?thesis
    proof (cases "tok_parent (toks ! i) = - 1")
      case True
      then show ?thesis using False "2.prems" by (auto simp: Let_def intro: toks_ok_mono split: if_splits)
    next
      case parent: False
      then have "nat (tok_parent (toks ! i)) < length toks" using tok "2.prems"(2) by (auto simp: tok_ok_def)
      then show ?thesis using "2.IH" [OF refl False parent] "2.prems" False parent by (simp add: Let_def)
    qed
  qed
qed simp

lemma close_bracket_enough:
  assumes "toks_ok pos toks" and "i < length toks" and "i < fuel" and "i < fuel'"
  shows "close_bracket fuel type pos super toks i = close_bracket fuel' type pos super toks i"
  using assms
proof (induction fuel type pos super toks i arbitrary: fuel' rule: close_bracket.induct)
  case (2 fuel type pos super toks i)
  then obtain f where f: "fuel' = Suc f" by (cases fuel') auto
  have tok: "tok_ok pos i (toks ! i)" using "2.prems" by (simp add: toks_ok_def)
  show ?case
  proof (cases "tok_open (toks ! i) \<or> tok_parent (toks ! i) = - 1")
    case True
    then show ?thesis by (auto simp: f Let_def)
  next
    case False
    then have "nat (tok_parent (toks ! i)) < i" using tok by (auto simp: tok_ok_def)
    then show ?thesis using "2.IH" [OF refl, of f] "2.prems" False by (auto simp: f Let_def)
  qed
qed simp

lemma primitive_scan_length: "primitive_scan js = Some n \<Longrightarrow> n \<le> length js"
  by (induction js arbitrary: n rule: primitive_scan.induct) (auto split: if_splits)

lemma hex_scan_length: "hex_scan k js = Some n \<Longrightarrow> n \<le> length js"
  by (induction k js arbitrary: n rule: hex_scan.induct) (auto split: if_splits)

lemma advance_Inr: "advance n r = Inr m \<longleftrightarrow> (\<exists>k. r = Inr k \<and> m = n + k)"
  by (cases r) (auto simp: advance_def)

lemma string_scan_length: "string_scan js = Inr n \<Longrightarrow> n < length js"
proof (induction js arbitrary: n rule: string_scan.induct)
  case (2 c p)
  note prem = "2.prems" [unfolded string_scan.simps]
  show ?case
  proof (cases "c = 0 \<or> c = 0x22")
    case True
    then show ?thesis using prem by auto
  next
    case False
    show ?thesis
    proof (cases "c = 0x5c \<and> p \<noteq> []")
      case esc: True
      then obtain e q where p: "p = e # q" by (cases p) auto
      show ?thesis
      proof (cases "e \<in> {0x22, 0x2f, 0x5c, 0x62, 0x66, 0x72, 0x6e, 0x74}")
        case True
        then show ?thesis using prem "2.IH"(1) False esc by (auto simp: p advance_Inr)
      next
        case hex: False
        then obtain h where "e = 0x75" "hex_scan 4 q = Some h" using prem False esc
          by (auto simp: p split: if_splits option.splits)
        then show ?thesis using prem "2.IH"(2) [of h] False esc hex hex_scan_length [of 4 q h]
          by (auto simp: p advance_Inr)
      qed
    next
      case plain: False
      then show ?thesis using prem "2.IH"(3) False by (auto simp: advance_Inr)
    qed
  qed
qed (simp add: string_scan.simps)

lemma parse_string_ok:
  assumes "jsmn_parse_string num js pos toks super = Inr (pos', toks')" and "toks_ok pos toks" and "super_ok super toks"
    and "pos < length js"
  shows "toks_ok pos' toks' \<and> super_ok super toks' \<and> pos < pos' \<and> pos' < length js \<and> length toks' \<le> num"
proof -
  obtain n where n: "string_scan (drop (pos + 1) js) = Inr n" and num: "length toks < num" and pos': "pos' = pos + 1 + n"
      and toks': "toks' = toks @ [\<lparr>tok_type = JSMN_STRING, tok_start = int (pos + 1), tok_end = int (pos + 1 + n),
        tok_size = 0, tok_parent = super\<rparr>]"
    using assms(1) by (auto simp: jsmn_parse_string_def split: sum.splits if_splits)
  have "tok_ok pos' (length toks) \<lparr>tok_type = JSMN_STRING, tok_start = int (pos + 1), tok_end = int (pos + 1 + n),
      tok_size = 0, tok_parent = super\<rparr>"
    using assms(3) pos' by (auto simp: tok_ok_def super_ok_def)
  then have "toks_ok pos' toks'" unfolding toks'
    by (intro toks_ok_append toks_ok_mono [OF assms(2)]) (simp_all add: pos')
  then show ?thesis using string_scan_length [OF n] num assms(3) pos' by (auto simp: toks' super_ok_append)
qed

lemma parse_primitive_ok:
  assumes "jsmn_parse_primitive num js pos toks super = Inr (pos', toks')" and "toks_ok pos toks" and "super_ok super toks"
    and "pos < length js"
  shows "toks_ok pos' toks' \<and> super_ok super toks' \<and> pos \<le> pos' \<and> pos' \<le> length js \<and> length toks' \<le> num"
proof -
  obtain n where n: "primitive_scan (drop pos js) = Some n" and num: "length toks < num" and pos': "pos' = pos + n"
      and toks': "toks' = toks @ [\<lparr>tok_type = JSMN_PRIMITIVE, tok_start = int pos, tok_end = int (pos + n),
        tok_size = 0, tok_parent = super\<rparr>]"
    using assms(1) by (auto simp: jsmn_parse_primitive_def split: option.splits if_splits)
  have "tok_ok pos' (length toks) \<lparr>tok_type = JSMN_PRIMITIVE, tok_start = int pos, tok_end = int (pos + n),
      tok_size = 0, tok_parent = super\<rparr>"
    using assms(3) pos' by (auto simp: tok_ok_def super_ok_def)
  then have "toks_ok pos' toks'" unfolding toks'
    by (intro toks_ok_append toks_ok_mono [OF assms(2)]) (simp_all add: pos')
  then show ?thesis using primitive_scan_length [OF n] num assms(3,4) pos' by (auto simp: toks' super_ok_append)
qed

lemma super_ok_bump: "super_ok super (bump_size s toks) \<longleftrightarrow> super_ok super toks"
  by (simp add: super_ok_def)

lemma jsmn_step_ok:
  assumes "jsmn_step num js pos super toks = Inr (pos', super', toks')" and "toks_ok pos toks" and "super_ok super toks"
    and "pos < length js" and "length toks \<le> num"
  shows "toks_ok pos' toks' \<and> super_ok super' toks' \<and> pos' \<le> length js \<and> length toks' \<le> num"
proof -
  define c where "c = js ! pos"
  note step = assms(1) [unfolded jsmn_step_def Let_def, folded c_def]
  have mono: "toks_ok (pos + 1) toks" using assms(2) by (rule toks_ok_mono) simp
  consider "c = 0x7b \<or> c = 0x5b" | "c = 0x7d \<or> c = 0x5d" | "c = 0x22"
    | "c = 0x09 \<or> c = 0x0d \<or> c = 0x0a \<or> c = 0x20" | "c = 0x3a" | "c = 0x2c"
    | "c \<notin> {0x7b, 0x5b, 0x7d, 0x5d, 0x22, 0x09, 0x0d, 0x0a, 0x20, 0x3a, 0x2c}"
    by auto
  then show ?thesis
  proof cases
    case 1
    let ?t = "\<lparr>tok_type = (if c = 0x7b then JSMN_OBJECT else JSMN_ARRAY), tok_start = int pos, tok_end = - 1,
               tok_size = 0, tok_parent = super\<rparr>"
    from 1 step have r: "length toks < num" "pos' = pos + 1" "super' = int (length toks)" "toks' = bump_size super toks @ [?t]"
      by (auto split: if_splits)
    have "tok_ok (pos + 1) (length (bump_size super toks)) ?t" using assms(3) by (auto simp: tok_ok_def super_ok_def)
    then have "toks_ok (pos + 1) toks'" unfolding r(4)
      by (intro toks_ok_append toks_ok_bump mono assms(3))
    then show ?thesis using r(1-3) assms(4) by (simp add: r(4) super_ok_def)
  next
    case 2
    define ty where "ty = (if c = 0x7d then JSMN_OBJECT else JSMN_ARRAY)"
    have "c \<noteq> 0x7b" "c \<noteq> 0x5b" using 2 by auto
    with 2 step obtain s2 t2 where ne: "0 < length toks" and r: "pos' = pos + 1" "super' = s2" "toks' = t2"
        and close: "close_bracket (length toks) ty pos super toks (length toks - 1) = Inr (s2, t2)"
      unfolding ty_def [symmetric] by (auto simp: not_less split: if_splits sum.splits prod.splits)
    from close_bracket_ok [OF assms(2) _ assms(3) close] ne show ?thesis using r assms(4,5) by simp
  next
    case 3
    with step obtain p t where p: "jsmn_parse_string num js pos toks super = Inr (p, t)" "pos' = p + 1" "super' = super"
        "toks' = bump_size super t" by (auto split: sum.splits prod.splits)
    from parse_string_ok [OF p(1) assms(2-4)] show ?thesis
      by (auto simp: p(2-4) super_ok_bump intro: toks_ok_bump toks_ok_mono)
  next
    case 4
    then show ?thesis using step mono assms by auto
  next
    case 5
    then show ?thesis using step mono assms by (auto simp: super_ok_def)
  next
    case 6
    have "super_ok (tok_parent (toks ! nat super)) toks" if "super \<noteq> - 1"
    proof -
      have "nat super < length toks" using assms(3) that by (auto simp: super_ok_def)
      then have "tok_ok pos (nat super) (toks ! nat super)" using assms(2) by (simp add: toks_ok_def)
      then show ?thesis using assms(3) that by (auto simp: tok_ok_def super_ok_def)
    qed
    then show ?thesis using 6 step mono assms by (auto split: if_splits)
  next
    case 7
    with step obtain p t where p: "jsmn_parse_primitive num js pos toks super = Inr (p, t)" "pos' = p" "super' = super"
        "toks' = bump_size super t" by (auto split: sum.splits prod.splits)
    from parse_primitive_ok [OF p(1) assms(2-4)] show ?thesis
      by (auto simp: p(2-4) super_ok_bump intro: toks_ok_bump)
  qed
qed

lemma jsmn_loop_ok:
  assumes "jsmn_loop num js pos super toks = Inr toks'" and "toks_ok pos toks" and "super_ok super toks"
    and "pos \<le> length js" and "length toks \<le> num"
  shows "toks_ok (length js) toks' \<and> length toks' \<le> num"
  using assms
proof (induction num js pos super toks rule: jsmn_loop.induct)
  case (1 num js pos super toks)
  show ?case
  proof (cases "pos < length js \<and> js ! pos \<noteq> 0")
    case True
    then obtain p s t where step: "jsmn_step num js pos super toks = Inr (p, s, t)"
        and rest: "jsmn_loop num js p s t = Inr toks'"
      using "1.prems"(1) by (auto simp: jsmn_loop.simps [of num js pos] split: sum.splits prod.splits)
    from jsmn_step_ok [OF step] True "1.prems" have "toks_ok p t" "super_ok s t" "p \<le> length js" "length t \<le> num"
      by auto
    with "1.IH" [OF True step refl refl] rest show ?thesis by simp
  next
    case False
    then show ?thesis using "1.prems" by (auto simp: jsmn_loop.simps [of num js pos] intro: toks_ok_mono)
  qed
qed

text \<open>A token of a successful parse is a range of the body, and its parent comes before it.\<close>

definition token_range :: "bytes \<Rightarrow> jsmntok_t \<Rightarrow> bool" where
  "token_range js t \<longleftrightarrow> 0 \<le> tok_start t \<and> tok_start t \<le> tok_end t \<and> tok_end t \<le> int (length js)"

lemma jsmn_parse_ranges:
  assumes "jsmn_parse js num = Inr toks" and "i < length toks"
  shows "length toks \<le> num \<and> token_range js (toks ! i) \<and> tok_parent (toks ! i) < int i"
proof -
  have loop: "jsmn_loop num js 0 (- 1) [] = Inr toks" and closed: "\<not> list_ex tok_open toks"
    using assms(1) by (auto simp: jsmn_parse_def split: sum.splits if_splits)
  have ok: "toks_ok (length js) toks" "length toks \<le> num"
    using jsmn_loop_ok [OF loop] by (auto simp: toks_ok_def super_ok_def)
  then have tok: "tok_ok (length js) i (toks ! i)" using assms(2) by (simp add: toks_ok_def)
  have "tok_end (toks ! i) \<noteq> - 1"
    using closed assms(2) tok by (auto simp: list_ex_length tok_open_def tok_ok_def)
  then show ?thesis using tok ok(2) by (auto simp: tok_ok_def token_range_def)
qed

lemma object_get_loop_index: "object_get_loop body toks name n i = Some j \<Longrightarrow> j < length toks"
  by (induction body toks name n i rule: object_get_loop.induct) (auto split: if_splits)

lemma object_get_index: "object_get body toks obj name = Some j \<Longrightarrow> j < length toks"
  by (auto simp: object_get_def object_get_loop_index split: if_splits)

text \<open>
  C32: the tokenizer stays inside the body and its table.  A successful parse has at most the given
  number of tokens, every one a range of the body, linked only to an earlier token.
\<close>

theorem jsmn_tokens_in_body:
  assumes "jsmn_parse js num = Inr toks" and "i < length toks"
  shows "length toks \<le> num \<and> token_range js (toks ! i) \<and> tok_parent (toks ! i) < int i"
  using assms by (rule jsmn_parse_ranges)

theorem jsmn_tokens_in_body_witness:
  "\<exists>toks. jsmn_parse (bs [CHR ''{'', CHR 0x22, CHR ''a'', CHR 0x22, CHR '':'', CHR ''1'', CHR ''}'']) 3 = Inr toks \<and>
     token_range (bs [CHR ''{'', CHR 0x22, CHR ''a'', CHR 0x22, CHR '':'', CHR ''1'', CHR ''}'']) (toks ! 2)"
proof -
  let ?js = "bs [CHR ''{'', CHR 0x22, CHR ''a'', CHR 0x22, CHR '':'', CHR ''1'', CHR ''}'']"
  have "\<exists>toks. jsmn_parse ?js 3 = Inr toks \<and> 2 < length toks"
    by (simp add: jsmn_parse_def jsmn_loop.simps jsmn_step_def jsmn_parse_string_def string_scan.simps advance_def
        jsmn_parse_primitive_def bump_size_def tok_open_def)
  then obtain toks where "jsmn_parse ?js 3 = Inr toks" "2 < length toks" by blast
  then show ?thesis using jsmn_tokens_in_body by blast
qed

section \<open>String literals\<close>

text \<open>What is between the quotes of the literal the writer makes of a C string.\<close>

definition literal_body :: "bytes \<Rightarrow> bytes" where
  "literal_body s = concat (map json_esc s)"

lemma hex_val_digit:
  assumes "n < (16 :: byte)"
  shows "hex_val (hex_digit n) = Some (ucast n) \<and> is_hex (hex_digit n) \<and> hex_digit n \<noteq> 0"
proof -
  define b where "b = hex_digit n"
  have v: "hex_value b = Some n" using nibble_cases [OF assms] by (simp add: b_def)
  show ?thesis unfolding b_def [symmetric]
  proof (cases "48 \<le> b \<and> b \<le> 57")
    case True
    then have "n = b - 48" using v by (simp add: hex_value_def)
    then show "hex_val b = Some (ucast n) \<and> is_hex b \<and> b \<noteq> 0" using True by (auto simp: hex_val_def is_hex_def)
  next
    case False
    then have b: "97 \<le> b" "b \<le> 102" "n = b - 87" using v by (auto simp: hex_value_def split: if_splits)
    then have "b \<noteq> 0" by (auto simp: word_le_nat_alt)
    then show "hex_val b = Some (ucast n) \<and> is_hex b \<and> b \<noteq> 0" using False b
      by (auto simp: hex_val_def is_hex_def algebra_simps)
  qed
qed

lemma unat_ucast32 [simp]: "unat (ucast (c :: byte) :: 32 word) = unat c"
proof -
  have "unat c < 4294967296" by (rule less_trans [OF byte_lt]) simp
  then show ?thesis by (simp add: unsigned_ucast_eq take_bit_nat_eq_self_iff)
qed

lemma control_escape:
  assumes "c < (0x20 :: byte)"
  shows "hex4_loop 0 [0x30, 0x30, hex_digit (drop_bit 4 c), hex_digit (c AND 0x0f)] = Some (ucast c) \<and>
    is_hex (hex_digit (drop_bit 4 c)) \<and> is_hex (hex_digit (c AND 0x0f)) \<and>
    hex_digit (drop_bit 4 c) \<noteq> 0 \<and> hex_digit (c AND 0x0f) \<noteq> 0"
proof -
  have m: "(0x0f :: byte) = mask 4" by (simp add: mask_eq_exp_minus_1)
  have "push_bit 4 (ucast (drop_bit 4 c)) OR ucast (c AND 0x0f) = (ucast c :: 32 word)"
    unfolding m by (rule bit_word_eqI) (auto simp: bit_simps)
  moreover have "hex_val 0x30 = Some 0" by (simp add: hex_val_def)
  ultimately show ?thesis using hex_val_digit [OF nibbles(1)] hex_val_digit [OF nibbles(2)] by simp
qed

lemma json_esc_cases:
  obtains "c = 0x22 \<or> c = 0x5c" "json_esc c = [0x5c, c]"
  | e where "json_esc c = [0x5c, e]" "simple_escape e = Some c" "e = 0x6e \<or> e = 0x72 \<or> e = 0x74"
  | "c < 0x20" "json_esc c = [0x5c, 0x75, 0x30, 0x30, hex_digit (drop_bit 4 c), hex_digit (c AND 0x0f)]"
  | "json_esc c = [c]" "c \<noteq> 0x22" "c \<noteq> 0x5c"
proof -
  consider "c = 0x22 \<or> c = 0x5c" | "c = 0x0a" | "c = 0x0d" | "c = 0x09"
    | "c \<notin> {0x22, 0x5c, 0x0a, 0x0d, 0x09}" "c < 0x20" | "c \<notin> {0x22, 0x5c, 0x0a, 0x0d, 0x09}" "\<not> c < 0x20"
    by blast
  then show thesis
  proof cases
    case 1
    then show thesis by (intro that(1)) (auto simp: json_esc_def)
  next
    case 2
    then show thesis by (intro that(2) [of "0x6e"]) (auto simp: json_esc_def simple_escape_def)
  next
    case 3
    then show thesis by (intro that(2) [of "0x72"]) (auto simp: json_esc_def simple_escape_def)
  next
    case 4
    then show thesis by (intro that(2) [of "0x74"]) (auto simp: json_esc_def simple_escape_def)
  next
    case 5
    then show thesis by (intro that(3)) (auto simp: json_esc_def)
  next
    case 6
    then show thesis by (intro that(4)) (auto simp: json_esc_def)
  qed
qed

lemma hex_scan_4:
  assumes "\<forall>x \<in> {a, b, c, d}. is_hex x \<and> x \<noteq> 0"
  shows "hex_scan 4 ([a, b, c, d] @ q) = Some 4"
proof -
  have four: "(4 :: nat) = Suc (Suc (Suc (Suc 0)))" by simp
  show ?thesis unfolding four using assms by simp
qed

lemma string_scan_esc:
  assumes "c \<noteq> 0" and "q \<noteq> []"
  shows "string_scan (json_esc c @ q) = advance (length (json_esc c)) (string_scan q)"
proof (cases rule: json_esc_cases [of c])
  case 1
  have "string_scan (0x5c # c # q) = advance 2 (string_scan q)"
    using 1(1) by (auto simp: string_scan.simps(2) [of "0x5c" "c # q"])
  then show ?thesis by (simp add: 1(2) numeral_2_eq_2)
next
  case (2 e)
  have "string_scan (0x5c # e # q) = advance 2 (string_scan q)"
    using 2(3) by (auto simp: string_scan.simps(2) [of "0x5c" "e # q"])
  then show ?thesis by (simp add: 2(1) numeral_2_eq_2)
next
  case 3
  note hex = control_escape [OF 3(1)]
  have zero: "is_hex 0x30" by (simp add: is_hex_def)
  have "hex_scan 4 ([0x30, 0x30, hex_digit (drop_bit 4 c), hex_digit (c AND 0x0f)] @ q) = Some 4"
    by (rule hex_scan_4) (use hex zero in auto)
  then have "string_scan (json_esc c @ q) = advance 6 (string_scan q)"
    unfolding 3(2) by (simp add: string_scan.simps(2) [of "0x5c"])
  moreover have "length (json_esc c) = 6" unfolding 3(2) by simp
  ultimately show ?thesis by (simp only:)
next
  case 4
  have "string_scan (c # q) = advance 1 (string_scan q)"
    using assms 4 by (simp add: string_scan.simps(2) [of c])
  then show ?thesis by (simp add: 4(1))
qed

lemma put_utf8_ascii:
  assumes "c < (0x80 :: byte)"
  shows "put_utf8 (ucast c) cap out = (if length out + 1 \<ge> cap then None else Some (out @ [c]))"
proof -
  have "(ucast c :: 32 word) < 0x80" using assms by (simp add: word_less_nat_alt)
  moreover have "ucast (ucast c :: 32 word) = c" by (rule bit_word_eqI) (auto simp: bit_simps)
  ultimately show ?thesis by (simp add: put_utf8_def Let_def)
qed

lemma unescape_loop_esc:
  assumes "c \<noteq> 0"
  shows "unescape_loop cap (json_esc c @ q) out =
    (if length out + 1 \<ge> cap then (False, out) else unescape_loop cap q (out @ [c]))"
proof (cases rule: json_esc_cases [of c])
  case 1
  then show ?thesis by (auto simp: unescape_loop.simps [of cap "0x5c # c # q"] simple_escape_def)
next
  case (2 e)
  then show ?thesis by (auto simp: unescape_loop.simps [of cap "0x5c # e # q"])
next
  case 3
  note hex = control_escape [OF 3(1)]
  have "\<not> 0xd800 \<le> (ucast c :: 32 word)" "\<not> 0xdc00 \<le> (ucast c :: 32 word)"
    using 3(1) by (simp_all add: word_less_nat_alt word_le_nat_alt)
  then have "unescape_u (drop 2 (json_esc c) @ q) = Some (ucast c, q)"
    using hex unfolding 3(2) by (auto simp: unescape_u_def hex4_def Let_def)
  moreover have "c < 0x80" using 3(1) by (simp add: word_less_nat_alt)
  ultimately show ?thesis unfolding 3(2)
    by (simp add: unescape_loop.simps [of cap "0x5c # _"] put_utf8_ascii)
next
  case 4
  then show ?thesis by (simp add: unescape_loop.simps [of cap "c # q"])
qed


lemma advance_advance: "advance m (advance n r) = advance (m + n) r"
  by (cases r) (simp_all add: advance_def)

lemma string_scan_body:
  assumes "0 \<notin> set s"
  shows "string_scan (literal_body s @ 0x22 # q) = Inr (length (literal_body s))"
  using assms
proof (induction s)
  case Nil
  show ?case by (simp add: literal_body_def string_scan.simps)
next
  case (Cons c s)
  then have "string_scan (literal_body (c # s) @ 0x22 # q) =
      advance (length (json_esc c)) (string_scan (literal_body s @ 0x22 # q))"
    using string_scan_esc [of c "literal_body s @ 0x22 # q"] by (simp add: literal_body_def)
  then show ?case using Cons by (simp add: advance_def literal_body_def)
qed

lemma unescape_loop_body:
  assumes "0 \<notin> set s" and "length out + length s < cap"
  shows "unescape_loop cap (literal_body s) out = (True, out @ s)"
  using assms
proof (induction s arbitrary: out)
  case Nil
  show ?case by (simp add: literal_body_def unescape_loop.simps)
next
  case (Cons c s)
  then have "unescape_loop cap (literal_body (c # s)) out = unescape_loop cap (literal_body s) (out @ [c])"
    using unescape_loop_esc [of c cap "literal_body s" out] by (simp add: literal_body_def)
  then show ?case using Cons by simp
qed

definition unescaped :: "nat \<Rightarrow> bytes \<Rightarrow> bytes option" where
  "unescaped cap p = (case unescape p cap of (ok, s) \<Rightarrow> if ok then Some s else None)"

interpretation json_literal: codec literal_body "unescaped cap" "\<lambda>s. 0 \<notin> set s \<and> length s < cap" for cap
  by unfold_locales (simp add: unescaped_def unescape_def unescape_loop_body)

section \<open>The writer as a bounded sink\<close>

definition jw_inv :: "ssoossh_json_wr \<Rightarrow> bool" where
  "jw_inv w \<longleftrightarrow> length (jw_buf w) < jw_cap w"

definition jw_room :: "ssoossh_json_wr \<Rightarrow> nat" where
  "jw_room w = jw_cap w - length (jw_buf w) - 1"

definition json_literal_text :: "bytes \<Rightarrow> bytes" where
  "json_literal_text s = 0x22 # literal_body (c_str s) @ [0x22]"

lemma json_string_loop_eq:
  "json_string_loop cap len s acc =
    (if s = [] \<or> len + length acc + length (literal_body s) + 2 \<le> cap then Some (acc @ literal_body s) else None)"
proof (induction s arbitrary: acc)
  case (Cons c s)
  then show ?case by (auto simp: literal_body_def)
qed (simp add: literal_body_def)

interpretation json_raw: bounded_sink ssoossh_json_append ssoossh_json_wr_ok jw_buf jw_room jw_inv "\<lambda>p. p" "\<lambda>p. True"
  by unfold_locales (auto simp: ssoossh_json_append_def ssoossh_json_wr_ok_def jw_room_def jw_inv_def)

interpretation json_string: bounded_sink ssoossh_json_append_string ssoossh_json_wr_ok jw_buf jw_room jw_inv
  json_literal_text "\<lambda>p. True"
  by unfold_locales
    (auto simp: ssoossh_json_append_string_def json_string_loop_eq ssoossh_json_wr_ok_def jw_room_def jw_inv_def
      json_literal_text_def Let_def literal_body_def split: if_splits option.splits)



end
