(* ===== verification/Args.thy ===== *)
theory Args
  imports Duration Log
begin

text \<open>
  src/args.c: the module arguments of a pam.d line.  An argument is its bytes, \<open>None\<close> the null
  pointer; a buffer of the configuration is the C string in it, and a copy that does not fit is
  \<open>None\<close>.  \<open>console_ok\<close> stands for \<open>ssoossh_console_flow_supported\<close>, which the build decides.
  The result has the status, the configuration as far as it was parsed, the index of the bad
  argument and the log lines.

  The lemmas: what is stored is bounded and never a truncated value, a server has a scheme and is
  stable under a second pass, and a mode other than the three names stops the parse.
\<close>

section \<open>The configuration\<close>

definition SSOOSSH_MILLISECOND :: int where "SSOOSSH_MILLISECOND = 1000000"
definition SSOOSSH_SECOND :: int where "SSOOSSH_SECOND = 1000 * SSOOSSH_MILLISECOND"
definition SSOOSSH_DEFAULT_SKEW_TOLERANCE :: int where
  "SSOOSSH_DEFAULT_SKEW_TOLERANCE = 2 * SSOOSSH_SECOND"
definition SSOOSSH_DEFAULT_TIMEOUT :: int where "SSOOSSH_DEFAULT_TIMEOUT = 60 * SSOOSSH_SECOND"
definition SSOOSSH_MAX_URL :: nat where "SSOOSSH_MAX_URL = 512"
definition SSOOSSH_MAX_PATH :: nat where "SSOOSSH_MAX_PATH = 4096"

datatype ssoossh_mode = MODE_AUTO | MODE_SUDO | MODE_CONSOLE

record ssoossh_config =
  cfg_server :: bytes
  cfg_trusted_ca_file :: bytes
  cfg_principals_map :: bytes
  cfg_skew_tolerance :: int
  cfg_timeout :: int
  cfg_insecure_skip_verify :: bool
  cfg_debug :: bool
  cfg_ssh_only :: bool
  cfg_mode :: ssoossh_mode

datatype ssoossh_args_status = ARGS_OK | ARGS_BAD_MODE | ARGS_CONSOLE_UNSUPPORTED | ARGS_VALUE_TOO_LONG

section \<open>Values\<close>

definition copy_value :: "nat \<Rightarrow> bytes \<Rightarrow> bytes option" where
  "copy_value dst_size v = (if length v \<ge> dst_size then None else Some v)"

definition parse_bool :: "bytes \<Rightarrow> bool option" where
  "parse_bool v =
     (if v \<in> set (map bs [''1'', ''t'', ''T'', ''true'', ''TRUE'', ''True'']) then Some True
      else if v \<in> set (map bs [''0'', ''f'', ''F'', ''false'', ''FALSE'', ''False'']) then Some False
      else None)"

definition fold_byte :: "byte \<Rightarrow> byte" where
  "fold_byte c = (if 0x41 \<le> c \<and> c \<le> 0x5a then c - 0x41 + 0x61 else c)"

text \<open>The terminating NUL is the end of the list.\<close>

fun ascii_eq_fold :: "bytes \<Rightarrow> bytes \<Rightarrow> bool" where
  "ascii_eq_fold (c # s) (d # t) = (fold_byte c = fold_byte d \<and> ascii_eq_fold s t)"
| "ascii_eq_fold s t = (s = [] \<and> t = [])"

fun has_prefix_fold :: "bytes \<Rightarrow> bytes \<Rightarrow> bool" where
  "has_prefix_fold s [] = True"
| "has_prefix_fold [] (p # ps) = False"
| "has_prefix_fold (c # s) (p # ps) = (fold_byte c = fold_byte p \<and> has_prefix_fold s ps)"

definition is_url_space :: "byte \<Rightarrow> bool" where
  "is_url_space c \<longleftrightarrow> c = 0x20 \<or> c = 0x09 \<or> c = 0x0a \<or> c = 0x0d"

definition drop_end :: "(byte \<Rightarrow> bool) \<Rightarrow> bytes \<Rightarrow> bytes" where
  "drop_end P s = rev (dropWhile P (rev s))"

definition normalize_server :: "bytes \<Rightarrow> nat \<Rightarrow> bytes option" where
  "normalize_server raw dst_size =
     (let trimmed = drop_end (\<lambda>c. c = 0x2f) (drop_end is_url_space (dropWhile is_url_space raw));
          len = length trimmed; scheme = bs ''https://'' in
      if len = 0 then Some []
      else if len \<ge> SSOOSSH_MAX_URL then None
      else if has_prefix_fold trimmed (bs ''http://'') \<or> has_prefix_fold trimmed (bs ''https://'')
        then copy_value dst_size trimmed
      else if len + length scheme \<ge> dst_size then None
      else Some (scheme @ trimmed))"

section \<open>The argument line\<close>

definition default_config :: ssoossh_config where
  "default_config =
     \<lparr> cfg_server = [], cfg_trusted_ca_file = [], cfg_principals_map = [],
       cfg_skew_tolerance = SSOOSSH_DEFAULT_SKEW_TOLERANCE, cfg_timeout = SSOOSSH_DEFAULT_TIMEOUT,
       cfg_insecure_skip_verify = False, cfg_debug = False, cfg_ssh_only = False,
       cfg_mode = MODE_AUTO \<rparr>"

text \<open>The key and the value of an argument; without an equals sign it is a flag.\<close>

definition split_arg :: "bytes \<Rightarrow> bytes \<times> bytes" where
  "split_arg arg =
     (let key = takeWhile (\<lambda>c. c \<noteq> 0x3d) arg; rest = dropWhile (\<lambda>c. c \<noteq> 0x3d) arg
      in (key, if rest = [] then bs ''true'' else tl rest))"

text \<open>A status other than OK is \<open>Inl\<close>; the second component is the log lines.\<close>

definition set_option ::
    "bool \<Rightarrow> bytes \<Rightarrow> bytes \<Rightarrow> ssoossh_config \<Rightarrow>
     (ssoossh_args_status + ssoossh_config) \<times> log_line list" where
  "set_option console_ok key v cfg =
     (let stored = (\<lambda>dst set. case dst of None \<Rightarrow> (Inl ARGS_VALUE_TOO_LONG, []) | Some x \<Rightarrow> (Inr (set x), [])) in
      if key = bs ''server'' then
        stored (normalize_server v SSOOSSH_MAX_URL) (\<lambda>x. cfg\<lparr>cfg_server := x\<rparr>)
      else if key = bs ''trusted-ca-file'' then
        stored (copy_value SSOOSSH_MAX_PATH v) (\<lambda>x. cfg\<lparr>cfg_trusted_ca_file := x\<rparr>)
      else if key = bs ''principals-map'' then
        stored (copy_value SSOOSSH_MAX_PATH v) (\<lambda>x. cfg\<lparr>cfg_principals_map := x\<rparr>)
      else if key = bs ''skew-tolerance'' then
        (Inr (case ssoossh_duration_parse v of None \<Rightarrow> cfg | Some d \<Rightarrow> cfg\<lparr>cfg_skew_tolerance := d\<rparr>), [])
      else if key = bs ''timeout'' then
        (Inr (case ssoossh_duration_parse v of None \<Rightarrow> cfg | Some d \<Rightarrow> cfg\<lparr>cfg_timeout := d\<rparr>), [])
      else if key = bs ''insecure-skip-verify'' then
        (Inr (case parse_bool v of None \<Rightarrow> cfg | Some b \<Rightarrow> cfg\<lparr>cfg_insecure_skip_verify := b\<rparr>), [])
      else if key = bs ''ssh-only'' then
        (Inr (case parse_bool v of None \<Rightarrow> cfg | Some b \<Rightarrow> cfg\<lparr>cfg_ssh_only := b\<rparr>), [])
      else if key = bs ''debug'' then
        (Inr (cfg\<lparr>cfg_debug := \<not> (ascii_eq_fold v (bs ''false'') \<or> v = [])\<rparr>), [])
      else if key = bs ''mode'' then
        (if v = bs ''auto'' then (Inr (cfg\<lparr>cfg_mode := MODE_AUTO\<rparr>), [])
         else if v = bs ''sudo'' then (Inr (cfg\<lparr>cfg_mode := MODE_SUDO\<rparr>), [])
         else if v = bs ''console'' then
           (if \<not> console_ok then (Inl ARGS_CONSOLE_UNSUPPORTED, [])
            else (Inr (cfg\<lparr>cfg_mode := MODE_CONSOLE\<rparr>), []))
         else (Inl ARGS_BAD_MODE, []))
      else (Inr cfg, [ssoossh_warnf ''unknown module argument %s, ignoring'' [AStr key]]))"

fun args_loop ::
    "bool \<Rightarrow> bytes option list \<Rightarrow> ssoossh_config \<Rightarrow> log_line list \<Rightarrow>
     ssoossh_args_status \<times> ssoossh_config \<times> bytes option \<times> log_line list" where
  "args_loop console_ok [] cfg logs = (ARGS_OK, cfg, None, logs)"
| "args_loop console_ok (None # argv) cfg logs = args_loop console_ok argv cfg logs"
| "args_loop console_ok (Some arg # argv) cfg logs =
     (let (key, v) = split_arg arg in
      if length key = 0 \<or> length key \<ge> 64 then args_loop console_ok argv cfg logs
      else
        (case set_option console_ok key v cfg of
           (Inl status, l) \<Rightarrow> (status, cfg, Some arg, logs @ l)
         | (Inr cfg, l) \<Rightarrow> args_loop console_ok argv cfg (logs @ l)))"

definition ssoossh_args_parse ::
    "bool \<Rightarrow> bytes option list \<Rightarrow>
     ssoossh_args_status \<times> ssoossh_config \<times> bytes option \<times> log_line list" where
  "ssoossh_args_parse console_ok argv = args_loop console_ok argv default_config []"

section \<open>Servers\<close>

lemma drop_end_split: "\<exists>t. s = drop_end P s @ t \<and> (\<forall>c \<in> set t. P c)"
proof -
  have "rev (rev s) = rev (dropWhile P (rev s)) @ rev (takeWhile P (rev s))"
    by (metis rev_append takeWhile_dropWhile_id)
  then show ?thesis
    by (intro exI [of _ "rev (takeWhile P (rev s))"]) (auto simp: drop_end_def dest: set_takeWhileD)
qed

lemma drop_end_last: "drop_end P s \<noteq> [] \<Longrightarrow> \<not> P (last (drop_end P s))"
  using hd_dropWhile [of P "rev s"] by (simp add: drop_end_def last_rev)

text \<open>The schemes a server may name itself, and the text in the middle of an argument.\<close>

definition has_scheme :: "bytes \<Rightarrow> bool" where
  "has_scheme s \<longleftrightarrow> has_prefix_fold s (bs ''http://'') \<or> has_prefix_fold s (bs ''https://'')"

lemma has_prefix_fold_append [simp]: "has_prefix_fold (p @ s) p"
  by (induction p) auto

definition server_core :: "bytes \<Rightarrow> bytes \<Rightarrow> bool" where
  "server_core raw core \<longleftrightarrow>
    (\<exists>lead space slash. raw = lead @ core @ slash @ space \<and> (\<forall>c \<in> set (lead @ space). is_url_space c) \<and>
       (\<forall>c \<in> set slash. c = 0x2f) \<and> (core \<noteq> [] \<longrightarrow> last core \<noteq> 0x2f) \<and>
       (core @ slash \<noteq> [] \<longrightarrow> \<not> is_url_space (hd (core @ slash)) \<and> \<not> is_url_space (last (core @ slash))))"

lemma server_core_trimmed:
  "server_core raw (drop_end (\<lambda>c. c = 0x2f) (drop_end is_url_space (dropWhile is_url_space raw)))"
proof -
  define a where "a = dropWhile is_url_space raw"
  define b where "b = drop_end is_url_space a"
  define core where "core = drop_end (\<lambda>c. c = 0x2f) b"
  obtain space where space: "a = b @ space" "\<forall>c \<in> set space. is_url_space c"
    using drop_end_split b_def by metis
  obtain slash where slash: "b = core @ slash" "\<forall>c \<in> set slash. c = 0x2f"
    using drop_end_split [of b "\<lambda>c. c = 0x2f"] core_def by metis
  have raw: "raw = takeWhile is_url_space raw @ core @ slash @ space"
    using takeWhile_dropWhile_id [of is_url_space raw] space(1) slash(1) unfolding a_def
    by (metis append.assoc)
  have lead: "\<forall>c \<in> set (takeWhile is_url_space raw @ space). is_url_space c"
    using space(2) by (auto dest: set_takeWhileD)
  have last: "core \<noteq> [] \<longrightarrow> last core \<noteq> 0x2f"
    using drop_end_last [of "\<lambda>c. c = 0x2f" b] by (simp add: core_def)
  have "\<not> is_url_space (hd b)" if "b \<noteq> []"
  proof -
    have "a \<noteq> []" using that space by auto
    then have "\<not> is_url_space (hd a)" unfolding a_def by (rule hd_dropWhile)
    then show ?thesis using that space by simp
  qed
  moreover have "b \<noteq> [] \<Longrightarrow> \<not> is_url_space (last b)"
    using drop_end_last [of is_url_space a] by (simp add: b_def)
  ultimately have ends: "core @ slash \<noteq> [] \<longrightarrow>
      \<not> is_url_space (hd (core @ slash)) \<and> \<not> is_url_space (last (core @ slash))"
    unfolding slash(1) by blast
  have "server_core raw core" unfolding server_core_def using raw lead slash(2) last ends by blast
  then show ?thesis by (simp only: core_def b_def a_def)
qed

text \<open>
  The stored server is what stands between the surrounding white space and the trailing
  slashes of the argument, never a part of it: as it is when it names http or https itself, with
  https in front otherwise; so it is empty, or it has a scheme, does not end in a slash and fits
  the buffer.
\<close>

theorem normalize_server_spec:
  assumes "normalize_server raw SSOOSSH_MAX_URL = Some server"
  shows "\<exists>core. server_core raw core \<and>
    server = (if core = [] then [] else if has_scheme core then core else bs ''https://'' @ core) \<and>
    length server < SSOOSSH_MAX_URL \<and>
    (server = [] \<or> has_scheme server \<and> last server \<noteq> 0x2f)"
proof -
  define core where "core = drop_end (\<lambda>c. c = 0x2f) (drop_end is_url_space (dropWhile is_url_space raw))"
  have core: "server_core raw core" unfolding core_def by (rule server_core_trimmed)
  then have last: "core \<noteq> [] \<Longrightarrow> last core \<noteq> 0x2f" by (auto simp: server_core_def)
  have "has_scheme (bs ''https://'' @ core)" by (simp add: has_scheme_def)
  moreover have "server = (if core = [] then [] else if has_scheme core then core else bs ''https://'' @ core)"
    and "length server < SSOOSSH_MAX_URL"
    using assms unfolding normalize_server_def core_def [symmetric] Let_def has_scheme_def [symmetric]
    by (auto simp: copy_value_def SSOOSSH_MAX_URL_def split: if_splits)
  ultimately show ?thesis using core last by (intro exI [of _ core]) (auto simp del: has_prefix_fold.simps)
qed

theorem normalize_server_spec_witness:
  "\<exists>core. server_core (bs '' sso.example.com// '') core \<and> has_scheme (bs ''https://'' @ core)"
proof -
  have "normalize_server (bs '' sso.example.com// '') SSOOSSH_MAX_URL = Some (bs ''https://sso.example.com'')"
    by (simp add: normalize_server_def Let_def drop_end_def bs_def is_url_space_def SSOOSSH_MAX_URL_def
        fold_byte_def)
  from normalize_server_spec [OF this] show ?thesis by (auto simp: has_scheme_def)
qed

section \<open>The whole line\<close>

text \<open>The values given for a key, in the order of the line.\<close>

definition settings :: "string \<Rightarrow> bytes option list \<Rightarrow> bytes list" where
  "settings key argv = concat (map (\<lambda>a. case a of None \<Rightarrow> [] | Some arg \<Rightarrow>
     (case split_arg arg of (k, v) \<Rightarrow> if k = bs key then [v] else [])) argv)"

text \<open>The last value that a parser accepts, the default when there is none.\<close>

definition last_of :: "'a \<Rightarrow> (bytes \<Rightarrow> 'a option) \<Rightarrow> bytes list \<Rightarrow> 'a" where
  "last_of d f vs = last (d # List.map_filter f vs)"

definition mode_of :: "bool \<Rightarrow> bytes \<Rightarrow> ssoossh_mode option" where
  "mode_of console_ok v =
     (if v = bs ''auto'' then Some MODE_AUTO else if v = bs ''sudo'' then Some MODE_SUDO
      else if v = bs ''console'' \<and> console_ok then Some MODE_CONSOLE else None)"

definition path_value :: "bytes \<Rightarrow> bytes option" where
  "path_value v = (if length v < 4096 then Some v else None)"

definition server_value :: "bytes \<Rightarrow> bytes option" where
  "server_value v = normalize_server v SSOOSSH_MAX_URL"

definition debug_value :: "bytes \<Rightarrow> bool option" where
  "debug_value v = Some (\<not> (ascii_eq_fold v (bs ''false'') \<or> v = []))"

definition described_config :: "bool \<Rightarrow> ssoossh_config \<Rightarrow> bytes option list \<Rightarrow> ssoossh_config" where
  "described_config console_ok cfg argv =
     \<lparr> cfg_server = last_of (cfg_server cfg) server_value (settings ''server'' argv),
       cfg_trusted_ca_file = last_of (cfg_trusted_ca_file cfg) path_value (settings ''trusted-ca-file'' argv),
       cfg_principals_map = last_of (cfg_principals_map cfg) path_value (settings ''principals-map'' argv),
       cfg_skew_tolerance = last_of (cfg_skew_tolerance cfg) ssoossh_duration_parse (settings ''skew-tolerance'' argv),
       cfg_timeout = last_of (cfg_timeout cfg) ssoossh_duration_parse (settings ''timeout'' argv),
       cfg_insecure_skip_verify = last_of (cfg_insecure_skip_verify cfg) parse_bool (settings ''insecure-skip-verify'' argv),
       cfg_debug = last_of (cfg_debug cfg) debug_value (settings ''debug'' argv),
       cfg_ssh_only = last_of (cfg_ssh_only cfg) parse_bool (settings ''ssh-only'' argv),
       cfg_mode = last_of (cfg_mode cfg) (mode_of console_ok) (settings ''mode'' argv) \<rparr>"

definition acceptable :: "bool \<Rightarrow> bytes option list \<Rightarrow> bool" where
  "acceptable console_ok argv \<longleftrightarrow>
    (\<forall>v \<in> set (settings ''server'' argv). server_value v \<noteq> None) \<and>
    (\<forall>v \<in> set (settings ''trusted-ca-file'' argv) \<union> set (settings ''principals-map'' argv). path_value v \<noteq> None) \<and>
    (\<forall>v \<in> set (settings ''mode'' argv). mode_of console_ok v \<noteq> None)"

lemma settings_Cons [simp]:
  "settings key (None # argv) = settings key argv"
  "settings key (Some arg # argv) =
     (if fst (split_arg arg) = bs key then snd (split_arg arg) # settings key argv else settings key argv)"
  by (simp_all add: settings_def split: prod.split)

lemma settings_Nil [simp]: "settings key [] = []"
  by (simp add: settings_def)

lemma last_of_Nil [simp]: "last_of d f [] = d"
  by (simp add: last_of_def List.map_filter_def)

lemma last_of_Cons [simp]: "last_of d f (v # vs) = last_of (case f v of None \<Rightarrow> d | Some x \<Rightarrow> x) f vs"
  by (simp add: last_of_def List.map_filter_def split: option.split)


lemma described_config_Cons:
  "described_config ok cfg (a # argv) = described_config ok (described_config ok cfg [a]) argv"
  by (cases a) (simp_all add: described_config_def)

lemma acceptable_Cons: "acceptable ok (a # argv) \<longleftrightarrow> acceptable ok [a] \<and> acceptable ok argv"
  by (cases a) (auto simp: acceptable_def)

lemma described_config_Nil: "described_config ok cfg [] = cfg" "acceptable ok []"
  by (simp_all add: described_config_def acceptable_def)

text \<open>The keys the module knows.\<close>

definition known_key :: "bytes \<Rightarrow> bool" where
  "known_key k \<longleftrightarrow> k \<in> set (map bs [''server'', ''trusted-ca-file'', ''principals-map'', ''skew-tolerance'',
     ''timeout'', ''insecure-skip-verify'', ''ssh-only'', ''debug'', ''mode''])"

lemma unknown_key:
  assumes "\<not> known_key (fst (split_arg arg))"
  shows "described_config ok cfg [Some arg] = cfg" and "acceptable ok [Some arg]"
  using assms by (simp_all add: described_config_def acceptable_def known_key_def del: bs_simps)

lemma set_option_described:
  assumes "split_arg arg = (key, v)"
  shows "case fst (set_option ok key v cfg) of
     Inl st \<Rightarrow> st \<noteq> ARGS_OK \<and> \<not> acceptable ok [Some arg]
   | Inr cfg' \<Rightarrow> acceptable ok [Some arg] \<and> cfg' = described_config ok cfg [Some arg]"
proof (cases "known_key key")
  case False
  then show ?thesis using assms unknown_key(1) [of arg ok cfg] unknown_key(2) [of arg ok]
    by (simp add: set_option_def known_key_def Let_def del: bs_simps)
next
  case True
  then consider "key = bs ''server''" | "key = bs ''trusted-ca-file''" | "key = bs ''principals-map''"
    | "key = bs ''skew-tolerance''" | "key = bs ''timeout''" | "key = bs ''insecure-skip-verify''"
    | "key = bs ''ssh-only''" | "key = bs ''debug''" | "key = bs ''mode''"
    by (auto simp: known_key_def simp del: bs_simps)
  then show ?thesis
  proof cases
    case 9
    then show ?thesis using assms
      by (simp add: set_option_def Let_def described_config_def acceptable_def mode_of_def)
  qed (use assms in \<open>simp_all add: set_option_def Let_def described_config_def acceptable_def
    server_value_def path_value_def debug_value_def copy_value_def SSOOSSH_MAX_PATH_def split: option.split\<close>)
qed

lemma args_loop_described:
  assumes "args_loop ok argv cfg logs = (st, cfg', bad, logs')"
  shows "(st = ARGS_OK \<longleftrightarrow> acceptable ok argv) \<and> (st = ARGS_OK \<longrightarrow> cfg' = described_config ok cfg argv)"
  using assms
proof (induction ok argv cfg logs rule: args_loop.induct)
  case (1 ok cfg logs)
  then show ?case by (auto simp: described_config_Nil)
next
  case (2 ok argv cfg logs)
  moreover have "described_config ok cfg [None] = cfg" "acceptable ok [None]"
    by (simp_all add: described_config_def acceptable_def)
  ultimately show ?case
    by (simp add: described_config_Cons [of _ _ None argv] acceptable_Cons [of _ None argv])
next
  case (3 ok arg argv cfg logs)
  obtain key v where kv: "split_arg arg = (key, v)" by (cases "split_arg arg")
  note step = described_config_Cons [of _ _ "Some arg" argv] acceptable_Cons [of _ "Some arg" argv]
  show ?case
  proof (cases "length key = 0 \<or> length key \<ge> 64")
    case True
    then have "\<not> known_key (fst (split_arg arg))" by (auto simp: known_key_def kv)
    from unknown_key [OF this] show ?thesis using "3.IH"(1) [OF kv [symmetric] refl True] "3.prems" True
      by (simp add: step kv del: bs_simps)
  next
    case False
    note set = set_option_described [OF kv, of ok cfg]
    obtain r l where r: "set_option ok key v cfg = (r, l)" by (cases "set_option ok key v cfg")
    show ?thesis
    proof (cases r)
      case (Inl st')
      then show ?thesis using "3.prems" False set r by (auto simp: kv acceptable_Cons [of _ "Some arg" argv])
    next
      case (Inr cfg1)
      then show ?thesis using "3.IH"(2) [OF kv [symmetric] refl False r [symmetric] Inr] "3.prems" False set r
        by (simp add: kv step)
    qed
  qed
qed

text \<open>
  C21: a pam.d line is accepted exactly when every server and path on it fits and every mode is one
  the build has; and then the configuration is, option by option, the last value given that the
  option's parser accepts, whole, or the default.  Nothing else on the line matters.
\<close>

theorem args_parse_described:
  "(fst (ssoossh_args_parse ok argv) = ARGS_OK \<longleftrightarrow> acceptable ok argv) \<and>
   (acceptable ok argv \<longrightarrow> fst (snd (ssoossh_args_parse ok argv)) = described_config ok default_config argv)"
proof -
  obtain st cfg bad logs where "args_loop ok argv default_config [] = (st, cfg, bad, logs)"
    by (metis prod_cases4)
  from args_loop_described [OF this] this show ?thesis by (auto simp: ssoossh_args_parse_def)
qed

lemma demo_split:
  "split_arg (bs ''server=sso.example.com/'') = (bs ''server'', bs ''sso.example.com/'')"
  "split_arg (bs ''timeout=90x'') = (bs ''timeout'', bs ''90x'')"
  "split_arg (bs ''mode=sudo'') = (bs ''mode'', bs ''sudo'')"
  "split_arg (bs ''ssh-only'') = (bs ''ssh-only'', bs ''true'')"
  "split_arg (bs ''=lost'') = ([], bs ''lost'')"
  by (simp_all add: split_arg_def Let_def)

lemma demo_values:
  "server_value (bs ''sso.example.com/'') = Some (bs ''https://sso.example.com'')"
  "ssoossh_duration_parse (bs ''90x'') = None"
  "parse_bool (bs ''true'') = Some True"
  by (simp_all add: server_value_def normalize_server_def Let_def drop_end_def is_url_space_def SSOOSSH_MAX_URL_def
      fold_byte_def ssoossh_duration_parse_def duration_loop.simps duration_term_def leading_int_def is_digit_def
      digit_val_def INT64_MAX_def is_unit_char_def duration_units_def parse_bool_def)

theorem args_parse_described_witness:
  "let argv = [Some (bs ''server=sso.example.com/''), None, Some (bs ''timeout=90x''), Some (bs ''mode=sudo''),
       Some (bs ''ssh-only''), Some (bs ''=lost'')]
   in fst (ssoossh_args_parse False argv) = ARGS_OK \<and> fst (snd (ssoossh_args_parse False argv)) =
     default_config\<lparr>cfg_server := bs ''https://sso.example.com'', cfg_mode := MODE_SUDO, cfg_ssh_only := True\<rparr>"
proof -
  define argv where "argv = [Some (bs ''server=sso.example.com/''), None, Some (bs ''timeout=90x''),
    Some (bs ''mode=sudo''), Some (bs ''ssh-only''), Some (bs ''=lost'')]"
  have set: "settings ''server'' argv = [bs ''sso.example.com/'']" "settings ''timeout'' argv = [bs ''90x'']"
    "settings ''mode'' argv = [bs ''sudo'']" "settings ''ssh-only'' argv = [bs ''true'']"
    "settings ''trusted-ca-file'' argv = []" "settings ''principals-map'' argv = []"
    "settings ''skew-tolerance'' argv = []" "settings ''insecure-skip-verify'' argv = []"
    "settings ''debug'' argv = []"
    unfolding argv_def by (simp_all only: settings_Cons settings_Nil demo_split fst_conv snd_conv) simp_all
  have ok: "acceptable False argv"
    unfolding acceptable_def set by (simp add: demo_values mode_of_def del: bs_simps)
  have "described_config False default_config argv =
     default_config\<lparr>cfg_server := bs ''https://sso.example.com'', cfg_mode := MODE_SUDO, cfg_ssh_only := True\<rparr>"
    unfolding described_config_def set last_of_Cons last_of_Nil demo_values
    by (simp add: default_config_def mode_of_def)
  then show ?thesis using args_parse_described [of False argv] ok by (simp only: argv_def [symmetric] Let_def)
qed

section \<open>What a configuration is\<close>

text \<open>
  The invariant of \<open>ssoossh_config\<close>: every string fits its member, a server has a scheme and does not
  end in a slash, a duration is one of 64 bits, and the console flow is asked for only where there is one.
\<close>

definition config_typed :: "bool \<Rightarrow> ssoossh_config \<Rightarrow> bool" where
  "config_typed console_ok cfg \<longleftrightarrow>
     length (cfg_server cfg) < SSOOSSH_MAX_URL \<and>
     (cfg_server cfg = [] \<or> has_scheme (cfg_server cfg) \<and> last (cfg_server cfg) \<noteq> 0x2f) \<and>
     length (cfg_trusted_ca_file cfg) < SSOOSSH_MAX_PATH \<and> length (cfg_principals_map cfg) < SSOOSSH_MAX_PATH \<and>
     \<bar>cfg_skew_tolerance cfg\<bar> \<le> INT64_MAX \<and> \<bar>cfg_timeout cfg\<bar> \<le> INT64_MAX \<and>
     (cfg_mode cfg = MODE_CONSOLE \<longrightarrow> console_ok)"

lemma wrap64_range: "- (2 ^ 63) \<le> wrap64 v \<and> wrap64 v \<le> INT64_MAX"
proof -
  have "(v + 2 ^ 63) mod 2 ^ 64 < 2 ^ 64" "0 \<le> (v + 2 ^ 63) mod 2 ^ 64" by simp_all
  then show ?thesis by (simp add: wrap64_def INT64_MAX_def)
qed

lemma duration_loop_range: "duration_loop s d = Some r \<Longrightarrow> 0 \<le> d \<Longrightarrow> d \<le> INT64_MAX \<Longrightarrow> 0 \<le> r \<and> r \<le> INT64_MAX"
proof (induction s d rule: duration_loop.induct)
  case (1 s d)
  show ?case
  proof (cases "s = []")
    case True
    then show ?thesis using 1(2-4) by (simp add: duration_loop.simps)
  next
    case False
    then obtain v t where t: "duration_term s = Some (v, t)"
      using 1(2) by (subst (asm) duration_loop.simps) (auto split: option.splits)
    then have "0 \<le> wrap64 (d + v)" "duration_loop t (wrap64 (d + v)) = Some r"
      using 1(2) False by (subst (asm) duration_loop.simps; simp add: Let_def split: if_splits)+
    then show ?thesis using 1(1) [OF False t refl refl] wrap64_range [of "d + v"] by auto
  qed
qed

lemma duration_parse_range:
  assumes "ssoossh_duration_parse v = Some d"
  shows "\<bar>d\<bar> \<le> INT64_MAX"
proof -
  have "\<bar>r\<bar> \<le> INT64_MAX" if "duration_loop s 0 = Some r" for s r
    using duration_loop_range [OF that] by (simp add: INT64_MAX_def)
  then show ?thesis using assms
    by (auto simp: ssoossh_duration_parse_def Let_def INT64_MAX_def split: if_splits)
qed

lemma last_of_cases: "last_of d f vs = d \<or> (\<exists>v. f v = Some (last_of d f vs))"
proof -
  have "last_of d f vs \<in> set (d # List.map_filter f vs)" unfolding last_of_def by (rule last_in_set) simp
  then show ?thesis by (auto simp: List.map_filter_def)
qed

lemma described_config_typed:
  assumes "config_typed ok cfg"
  shows "config_typed ok (described_config ok cfg argv)"
proof -
  have server: "length x < SSOOSSH_MAX_URL \<and> (x = [] \<or> has_scheme x \<and> last x \<noteq> 0x2f)"
    if "server_value v = Some x" for x v
    using that normalize_server_spec [of v x] by (auto simp: server_value_def)
  have path: "length x < SSOOSSH_MAX_PATH" if "path_value v = Some x" for x v
    using that by (auto simp: path_value_def SSOOSSH_MAX_PATH_def split: if_splits)
  have mode: "m = MODE_CONSOLE \<longrightarrow> ok" if "mode_of ok v = Some m" for m v
    using that by (auto simp: mode_of_def split: if_splits)
  have field: "P (last_of d f vs)" if "P d" and "\<And>v x. f v = Some x \<Longrightarrow> P x" for P d and f :: "bytes \<Rightarrow> 'x option" and vs
    using last_of_cases [of d f vs] that by metis
  note c = assms [unfolded config_typed_def]
  show ?thesis unfolding config_typed_def described_config_def ssoossh_config.select_convs
    by (intro conjI)
      (rule field, use c server path mode duration_parse_range in blast, use c server path mode duration_parse_range in blast)+
qed

lemma args_loop_typed: "config_typed ok cfg \<Longrightarrow> config_typed ok (fst (snd (args_loop ok argv cfg logs)))"
proof (induction ok argv cfg logs rule: args_loop.induct)
  case (3 ok arg argv cfg logs)
  obtain key v where s: "split_arg arg = (key, v)" by (metis surj_pair)
  then show ?case
  proof (cases "set_option ok key v cfg")
    case (Pair r l)
    with 3 s set_option_described [OF s, of ok cfg] described_config_typed [OF 3(3), of "[Some arg]"]
    show ?thesis by (cases r) auto
  qed
qed auto

text \<open>
  C22: every configuration the parser hands out is one, on every argument vector, also where it stops
  with an error half way.
\<close>

theorem args_config_typed: "config_typed console_ok (fst (snd (ssoossh_args_parse console_ok argv)))"
proof -
  have "config_typed console_ok default_config"
    by (simp add: config_typed_def default_config_def SSOOSSH_MAX_URL_def SSOOSSH_MAX_PATH_def INT64_MAX_def
        SSOOSSH_DEFAULT_SKEW_TOLERANCE_def SSOOSSH_DEFAULT_TIMEOUT_def SSOOSSH_SECOND_def SSOOSSH_MILLISECOND_def)
  then show ?thesis unfolding ssoossh_args_parse_def by (rule args_loop_typed)
qed

end
