(* ===== verification/Der.thy ===== *)
theory Der
  imports Wire
begin

text \<open>
  src/der.c: the four DER shapes the crypto backends are fed, written through the bounded SSH
  writer.  Each writer returns its bytes, \<open>None\<close> where the source returns false; the sizes of
  the intermediate stack buffers are the source's.  The lemmas: a TLV and an INTEGER are items
  of the bounded-sink interface, a TLV is a prefix code over the strict reader \<open>der_get\<close>
  (definite minimal lengths), and what the writers emit parses back to the numbers and the key
  it was given.
\<close>

section \<open>The writers\<close>

definition der_byte :: "ssh_wr \<Rightarrow> byte \<Rightarrow> ssh_wr" where
  "der_byte w b = ssh_wr_bytes w [b]"

definition der_len :: "ssh_wr \<Rightarrow> nat \<Rightarrow> ssh_wr" where
  "der_len w n =
     (if n < 0x80 then der_byte w (of_nat n)
      else if n \<le> 0xff then der_byte (der_byte w 0x81) (of_nat n)
      else if n \<le> 0xffff then
        der_byte (der_byte (der_byte w 0x82) (of_nat (n div 256))) (of_nat n)
      else w\<lparr>wr_bad := True\<rparr>)"

definition der_tlv :: "ssh_wr \<Rightarrow> byte \<Rightarrow> bytes \<Rightarrow> ssh_wr" where
  "der_tlv w tag content = ssh_wr_bytes (der_len (der_byte w tag) (length content)) content"

definition der_integer :: "ssh_wr \<Rightarrow> bytes \<Rightarrow> ssh_wr" where
  "der_integer w p =
     (case dropWhile (\<lambda>b. b = 0) p of
        [] \<Rightarrow> der_tlv w 0x02 [0]
      | b # q \<Rightarrow>
          if b AND 0x80 \<noteq> 0 then
            ssh_wr_bytes (der_byte (der_len (der_byte w 0x02) (length (b # q) + 1)) 0x00) (b # q)
          else der_tlv w 0x02 (b # q))"

definition der_bitstring :: "ssh_wr \<Rightarrow> bytes \<Rightarrow> ssh_wr" where
  "der_bitstring w p =
     ssh_wr_bytes (der_byte (der_len (der_byte w 0x03) (length p + 1)) 0x00) p"

definition der_finish :: "ssh_wr \<Rightarrow> bytes option" where
  "der_finish w = (if \<not> ssh_wr_ok w then None else Some (wr_buf w))"

definition ssoossh_der_ecdsa_sig :: "bytes \<Rightarrow> bytes \<Rightarrow> nat \<Rightarrow> bytes option" where
  "ssoossh_der_ecdsa_sig r s out_cap =
     (case der_finish (der_integer (der_integer (ssh_wr_init 256) r) s) of
        None \<Rightarrow> None
      | Some body \<Rightarrow> der_finish (der_tlv (ssh_wr_init out_cap) 0x30 body))"

definition oid_ec_public_key :: bytes where
  "oid_ec_public_key = [0x06, 0x07, 0x2a, 0x86, 0x48, 0xce, 0x3d, 0x02, 0x01]"

definition oid_p256 :: bytes where
  "oid_p256 = [0x06, 0x08, 0x2a, 0x86, 0x48, 0xce, 0x3d, 0x03, 0x01, 0x07]"

definition oid_p384 :: bytes where
  "oid_p384 = [0x06, 0x05, 0x2b, 0x81, 0x04, 0x00, 0x22]"

definition oid_p521 :: bytes where
  "oid_p521 = [0x06, 0x05, 0x2b, 0x81, 0x04, 0x00, 0x23]"

definition oid_rsa :: bytes where
  "oid_rsa = [0x06, 0x09, 0x2a, 0x86, 0x48, 0x86, 0xf7, 0x0d, 0x01, 0x01, 0x01]"

definition oid_ed25519 :: bytes where
  "oid_ed25519 = [0x06, 0x03, 0x2b, 0x65, 0x70]"

definition asn1_null :: bytes where
  "asn1_null = [0x05, 0x00]"

definition spki :: "bytes \<Rightarrow> bytes option \<Rightarrow> bytes \<Rightarrow> nat \<Rightarrow> bytes option" where
  "spki alg params key out_cap =
     (let a = ssh_wr_bytes (ssh_wr_init 64) alg;
          a = (case params of None \<Rightarrow> a | Some p \<Rightarrow> ssh_wr_bytes a p)
      in case der_finish a of
           None \<Rightarrow> None
         | Some alg_id \<Rightarrow>
             (case der_finish (der_bitstring (der_tlv (ssh_wr_init 2048) 0x30 alg_id) key) of
                None \<Rightarrow> None
              | Some body \<Rightarrow> der_finish (der_tlv (ssh_wr_init out_cap) 0x30 body)))"

datatype ssoossh_curve = CURVE_P256 | CURVE_P384 | CURVE_P521

definition curve_oid :: "ssoossh_curve \<Rightarrow> bytes" where
  "curve_oid curve =
     (case curve of CURVE_P256 \<Rightarrow> oid_p256 | CURVE_P384 \<Rightarrow> oid_p384 | CURVE_P521 \<Rightarrow> oid_p521)"

definition ssoossh_der_spki_ec :: "ssoossh_curve \<Rightarrow> bytes \<Rightarrow> nat \<Rightarrow> bytes option" where
  "ssoossh_der_spki_ec curve point out_cap =
     (if length point < 1 \<or> point ! 0 \<noteq> 0x04 then None
      else spki oid_ec_public_key (Some (curve_oid curve)) point out_cap)"

definition ssoossh_der_rsa_pkcs1 :: "bytes \<Rightarrow> bytes \<Rightarrow> nat \<Rightarrow> bytes option" where
  "ssoossh_der_rsa_pkcs1 e n out_cap =
     (case der_finish (der_integer (der_integer (ssh_wr_init 1200) n) e) of
        None \<Rightarrow> None
      | Some inner \<Rightarrow> der_finish (der_tlv (ssh_wr_init out_cap) 0x30 inner))"

definition ssoossh_der_spki_rsa :: "bytes \<Rightarrow> bytes \<Rightarrow> nat \<Rightarrow> bytes option" where
  "ssoossh_der_spki_rsa e n out_cap =
     (case ssoossh_der_rsa_pkcs1 e n 1216 of
        None \<Rightarrow> None
      | Some key \<Rightarrow> spki oid_rsa (Some asn1_null) key out_cap)"

definition ssoossh_der_spki_ed25519 :: "bytes \<Rightarrow> nat \<Rightarrow> bytes option" where
  "ssoossh_der_spki_ed25519 key out_cap =
     (if length key \<noteq> 32 then None else spki oid_ed25519 None key out_cap)"

section \<open>DER items\<close>

text \<open>The bytes of a definite minimal length, and a reader that accepts only those.\<close>

definition len_bytes :: "nat \<Rightarrow> bytes" where
  "len_bytes n =
     (if n < 0x80 then [of_nat n] else if n \<le> 0xff then [0x81, of_nat n]
      else [0x82, of_nat (n div 256), of_nat n])"

definition tlv_bytes :: "byte \<times> bytes \<Rightarrow> bytes" where
  "tlv_bytes x = fst x # len_bytes (length (snd x)) @ snd x"

fun get_len :: "bytes \<Rightarrow> (nat \<times> bytes) option" where
  "get_len (b # r) =
     (if unat b < 0x80 then Some (unat b, r)
      else if b = 0x81 then
        (case r of n # s \<Rightarrow> if unat n < 0x80 then None else Some (unat n, s) | [] \<Rightarrow> None)
      else if b = 0x82 then
        (case r of m # n # s \<Rightarrow> if m = 0 then None else Some (unat m * 256 + unat n, s) | _ \<Rightarrow> None)
      else None)"
| "get_len [] = None"

definition der_get :: "bytes \<Rightarrow> ((byte \<times> bytes) \<times> bytes) option" where
  "der_get b =
     (case b of [] \<Rightarrow> None
      | t # r \<Rightarrow>
          (case get_len r of None \<Rightarrow> None
           | Some (n, s) \<Rightarrow> if length s < n then None else Some ((t, take n s), drop n s)))"

lemma unat_of_nat_byte: "unat (of_nat n :: byte) = n mod 256"
  by (simp add: unat_of_nat)

lemma get_len_bytes: "n \<le> 0xffff \<Longrightarrow> get_len (len_bytes n @ r) = Some (n, r)"
proof -
  assume n: "n \<le> 0xffff"
  have "of_nat (n div 256) \<noteq> (0 :: byte)" if "\<not> n \<le> 0xff"
  proof -
    have "unat (of_nat (n div 256) :: byte) = n div 256"
      using n by (simp add: unat_of_nat_byte)
    moreover have "n div 256 \<noteq> 0" using that by simp
    ultimately show ?thesis by (metis unsigned_0)
  qed
  with n show ?thesis by (simp add: len_bytes_def unat_of_nat_byte)
qed

interpretation der: prefix_codec tlv_bytes der_get "\<lambda>x. length (snd x) \<le> 0xffff"
  by unfold_locales (auto simp: tlv_bytes_def der_get_def get_len_bytes)

lemma der_len_sink:
  "ssh_wr_bytes (der_len (der_byte w t) n) c =
    (if n \<le> 0xffff then foldl ssh_wr_bytes w ([t] # map (\<lambda>b. [b]) (len_bytes n) @ [c])
     else ssh_wr_bytes ((der_byte w t)\<lparr>wr_bad := True\<rparr>) c)"
  by (simp add: der_len_def der_byte_def len_bytes_def)

lemma wr_bytes_bad: "ssh_wr_bytes (w\<lparr>wr_bad := True\<rparr>) c = w\<lparr>wr_bad := True\<rparr>"
  by (simp add: wire_simps)

lemma not_ok_bad [simp]: "\<not> ssh_wr_ok (w\<lparr>wr_bad := True\<rparr>)"
  by (simp add: wire_simps)

lemma wr_inv_bad: "wr_inv w \<Longrightarrow> wr_inv (w\<lparr>wr_bad := True\<rparr>)"
  by (simp add: wire_simps)

lemma foldl_wr_room:
  "wr_inv w \<Longrightarrow> ssh_wr_ok (foldl ssh_wr_bytes w ps) \<Longrightarrow>
    wr_room (foldl ssh_wr_bytes w ps) = wr_room w - length (concat ps)"
proof (induction ps arbitrary: w)
  case (Cons p ps)
  have "ssh_wr_ok (ssh_wr_bytes w p)"
    using Cons.prems wr.puts_latched [OF wr.put_inv] by fastforce
  with Cons show ?case by (simp add: wr.put_inv wr.put_room)
qed simp

lemma concat_singletons: "concat (map (\<lambda>b. [b]) xs) = xs"
  by (induction xs) simp_all

interpretation der_item: bounded_sink "\<lambda>w x. der_tlv w (fst x) (snd x)" ssh_wr_ok wr_buf wr_room
  wr_inv tlv_bytes "\<lambda>x. length (snd x) \<le> 0xffff"
proof unfold_locales
  fix w :: ssh_wr and x :: "byte \<times> bytes"
  assume inv: "wr_inv w"
  let ?ps = "[fst x] # map (\<lambda>b. [b]) (len_bytes (length (snd x))) @ [snd x]"
  have cat: "concat ?ps = tlv_bytes x"
    by (simp add: tlv_bytes_def concat_singletons)
  have tlv: "der_tlv w (fst x) (snd x) =
      (if length (snd x) \<le> 0xffff then foldl ssh_wr_bytes w ?ps
       else (der_byte w (fst x))\<lparr>wr_bad := True\<rparr>)"
    by (simp only: der_tlv_def der_len_sink wr_bytes_bad)
  have all: "list_all (\<lambda>p. True) ?ps" by (simp add: list_all_iff)
  have "ssh_wr_ok (foldl ssh_wr_bytes w ?ps) \<longleftrightarrow> ssh_wr_ok w \<and> length (tlv_bytes x) \<le> wr_room w"
    using wr.puts_ok [OF inv, of ?ps] all by (simp only: cat map_ident simp_thms)
  then show "ssh_wr_ok (der_tlv w (fst x) (snd x)) \<longleftrightarrow>
      ssh_wr_ok w \<and> length (snd x) \<le> 0xffff \<and> length (tlv_bytes x) \<le> wr_room w"
    by (simp only: tlv) (simp del: foldl_append foldl_Cons)
  have run: "der_tlv w (fst x) (snd x) = foldl ssh_wr_bytes w ?ps \<and> ssh_wr_ok (foldl ssh_wr_bytes w ?ps)"
    if "ssh_wr_ok (der_tlv w (fst x) (snd x))"
    using that by (simp only: tlv not_ok_bad simp_thms split: if_splits)
  show "ssh_wr_ok (der_tlv w (fst x) (snd x)) \<Longrightarrow>
      wr_buf (der_tlv w (fst x) (snd x)) = wr_buf w @ tlv_bytes x"
    using run wr.puts_out [OF inv, of ?ps] by (simp only: cat map_ident)
  show "ssh_wr_ok (der_tlv w (fst x) (snd x)) \<Longrightarrow>
      wr_room (der_tlv w (fst x) (snd x)) = wr_room w - length (tlv_bytes x)"
    using run foldl_wr_room [OF inv, of ?ps] by (simp only: cat)
  show "wr_inv (der_tlv w (fst x) (snd x))"
    using wr.puts_inv [OF inv, of ?ps] wr_inv_bad [OF wr.put_inv [OF inv, of "[fst x]"]]
    by (simp only: tlv der_byte_def split: if_splits) simp
qed


text \<open>
  Writing a value in two pieces or in one gives the same writer, up to what a writer that has
  already failed holds.
\<close>

definition wr_agree :: "ssh_wr \<Rightarrow> ssh_wr \<Rightarrow> bool" where
  "wr_agree u v \<longleftrightarrow> (ssh_wr_ok u \<longleftrightarrow> ssh_wr_ok v) \<and> (ssh_wr_ok u \<longrightarrow> u = v)"

lemma wr_agree_refl [simp]: "wr_agree u u"
  by (simp add: wr_agree_def)

lemma wr_agree_split: "wr_agree (ssh_wr_bytes (ssh_wr_bytes w a) b) (ssh_wr_bytes w (a @ b))"
  by (auto simp: wr_agree_def wire_simps)

lemma wr_agree_finish: "wr_agree u v \<Longrightarrow> der_finish u = der_finish v"
  unfolding wr_agree_def der_finish_def by metis

definition int_body :: "bytes \<Rightarrow> bytes" where
  "int_body p = (if mpint_body p = [] then [0] else mpint_body p)"

lemma der_bitstring_agree: "wr_agree (der_bitstring w p) (der_tlv w 0x03 (0 # p))"
  using wr_agree_split [of "der_len (der_byte w 3) (Suc (length p))" "[0]" p]
  by (simp add: der_bitstring_def der_tlv_def der_byte_def)

lemma der_integer_cases:
  "dropWhile (\<lambda>b. b = 0) p = [] \<Longrightarrow> der_integer w p = der_tlv w 2 [0]"
  "dropWhile (\<lambda>b. b = 0) p = b # q \<Longrightarrow> der_integer w p =
    (if bit b 7 then ssh_wr_bytes (der_byte (der_len (der_byte w 2) (length (b # q) + 1)) 0) (b # q)
     else der_tlv w 2 (b # q))"
  by (simp_all only: der_integer_def list.case and_80_bit7)

lemma der_integer_agree: "wr_agree (der_integer w p) (der_tlv w 0x02 (int_body p))"
proof (cases "dropWhile (\<lambda>b. b = 0) p")
  case Nil
  then show ?thesis by (simp only: der_integer_cases mpint_body_cases int_body_def simp_thms if_True
    wr_agree_refl)
next
  case (Cons b q)
  then show ?thesis
    using wr_agree_split [of "der_len (der_byte w 2) (Suc (length (b # q)))" "[0]" "b # q"]
    by (simp add: der_integer_cases mpint_body_cases int_body_def der_tlv_def der_byte_def)
qed

interpretation der_int: bounded_sink der_integer ssh_wr_ok wr_buf wr_room wr_inv
  "\<lambda>p. tlv_bytes (2, int_body p)" "\<lambda>p. length (int_body p) \<le> 0xffff"
proof unfold_locales
  fix w :: ssh_wr and p :: bytes
  assume inv: "wr_inv w"
  note agree = der_integer_agree [of w p, unfolded wr_agree_def]
  show "ssh_wr_ok (der_integer w p) \<longleftrightarrow>
      ssh_wr_ok w \<and> length (int_body p) \<le> 0xffff \<and> length (tlv_bytes (2, int_body p)) \<le> wr_room w"
    using agree der_item.put_ok [OF inv, of "(2, int_body p)"] by simp
  show "ssh_wr_ok (der_integer w p) \<Longrightarrow>
      wr_buf (der_integer w p) = wr_buf w @ tlv_bytes (2, int_body p)"
    using agree der_item.put_out [OF inv, of "(2, int_body p)"] by simp
  show "ssh_wr_ok (der_integer w p) \<Longrightarrow>
      wr_room (der_integer w p) = wr_room w - length (tlv_bytes (2, int_body p))"
    using agree der_item.put_room [OF inv, of "(2, int_body p)"] by simp
  show "wr_inv (der_integer w p)"
    using inv by (auto simp: der_integer_def der_tlv_def der_byte_def der_len_def
      intro!: wr.put_inv wr_inv_bad split: list.split)
qed

lemmas der_tlv_ok = der_item.put_ok [of _ "(t, c)" for t c, simplified]
lemmas der_tlv_out = der_item.put_out [of _ "(t, c)" for t c, simplified]
lemmas der_tlv_room = der_item.put_room [of _ "(t, c)" for t c, simplified]
lemmas der_tlv_inv = der_item.put_inv [of _ "(t, c)" for t c, simplified]

lemma der_finish_Some: "der_finish w = Some b \<longleftrightarrow> ssh_wr_ok w \<and> wr_buf w = b"
  by (simp add: der_finish_def)

lemma finish_tlv:
  "der_finish (der_tlv (ssh_wr_init cap) t c) =
    (if length c \<le> 0xffff \<and> length (tlv_bytes (t, c)) \<le> cap then Some (tlv_bytes (t, c)) else None)"
  using der_tlv_ok [of "ssh_wr_init cap" t c] der_tlv_out [of "ssh_wr_init cap" t c]
  by (simp add: der_finish_def)

lemma finish_ints:
  "der_finish (foldl der_integer (ssh_wr_init cap) ps) =
    (if list_all (\<lambda>p. length (int_body p) \<le> 0xffff) ps \<and>
        length (concat (map (\<lambda>p. tlv_bytes (2, int_body p)) ps)) \<le> cap
     then Some (concat (map (\<lambda>p. tlv_bytes (2, int_body p)) ps)) else None)"
  using der_int.puts_ok [of "ssh_wr_init cap" ps] der_int.puts_out [of "ssh_wr_init cap" ps]
  by (simp add: der_finish_def)


lemma finish_items:
  "der_finish (foldl (\<lambda>w x. der_tlv w (fst x) (snd x)) (ssh_wr_init cap) xs) =
    (if list_all (\<lambda>x. length (snd x) \<le> 0xffff) xs \<and> length (concat (map tlv_bytes xs)) \<le> cap
     then Some (concat (map tlv_bytes xs)) else None)"
  using der_item.puts_ok [of "ssh_wr_init cap" xs] der_item.puts_out [of "ssh_wr_init cap" xs]
  by (simp add: der_finish_def)

section \<open>The encodings\<close>

definition the_default :: "'a \<Rightarrow> 'a option \<Rightarrow> 'a" where
  "the_default d x = (case x of None \<Rightarrow> d | Some y \<Rightarrow> y)"

definition seq_of_ints :: "bytes list \<Rightarrow> bytes" where
  "seq_of_ints ps = tlv_bytes (0x30, concat (map (\<lambda>p. tlv_bytes (2, int_body p)) ps))"

definition spki_bytes :: "bytes \<Rightarrow> bytes \<Rightarrow> bytes" where
  "spki_bytes alg key =
     tlv_bytes (0x30, tlv_bytes (0x30, alg) @ tlv_bytes (0x03, 0 # key))"

lemma length_tlv_bytes: "length (snd x) < length (tlv_bytes x)"
  by (simp add: tlv_bytes_def)

lemma int_body_tlv_le: "length (int_body p) < length (tlv_bytes (2, int_body p))"
  using length_tlv_bytes [of "(2, int_body p)"] by simp

lemma ecdsa_sig_Some:
  "ssoossh_der_ecdsa_sig r s cap = Some out \<longleftrightarrow>
    out = seq_of_ints [r, s] \<and> length out \<le> cap \<and>
    length (tlv_bytes (2, int_body r)) + length (tlv_bytes (2, int_body s)) \<le> 256"
  using finish_ints [of 256 "[r, s]"] int_body_tlv_le [of r] int_body_tlv_le [of s]
  by (auto simp: ssoossh_der_ecdsa_sig_def finish_tlv seq_of_ints_def)

lemma rsa_pkcs1_Some:
  "ssoossh_der_rsa_pkcs1 e n cap = Some out \<longleftrightarrow>
    out = seq_of_ints [n, e] \<and> length out \<le> cap \<and>
    length (tlv_bytes (2, int_body n)) + length (tlv_bytes (2, int_body e)) \<le> 1200"
  using finish_ints [of 1200 "[n, e]"] int_body_tlv_le [of e] int_body_tlv_le [of n]
  by (auto simp: ssoossh_der_rsa_pkcs1_def finish_tlv seq_of_ints_def)

lemma finish_alg:
  "der_finish (case params of None \<Rightarrow> ssh_wr_bytes (ssh_wr_init cap) alg
      | Some p \<Rightarrow> ssh_wr_bytes (ssh_wr_bytes (ssh_wr_init cap) alg) p) =
    (if length (alg @ the_default [] params) \<le> cap then Some (alg @ the_default [] params) else None)"
  by (cases params) (auto simp: the_default_def der_finish_def wire_simps)

lemma finish_spki_body:
  "der_finish (der_bitstring (der_tlv (ssh_wr_init cap) 0x30 alg) key) =
    (if length alg \<le> 0xffff \<and> length key < 0xffff \<and>
        length (tlv_bytes (0x30, alg) @ tlv_bytes (0x03, 0 # key)) \<le> cap
     then Some (tlv_bytes (0x30, alg) @ tlv_bytes (0x03, 0 # key)) else None)"
  using finish_items [of cap "[(0x30, alg), (3, 0 # key)]"]
  by (simp add: wr_agree_finish [OF der_bitstring_agree] less_eq_Suc_le)

lemma spki_Some:
  "spki alg params key cap = Some out \<longleftrightarrow>
    out = spki_bytes (alg @ the_default [] params) key \<and> length out \<le> cap \<and>
    length (alg @ the_default [] params) \<le> 64 \<and>
    length (tlv_bytes (0x30, alg @ the_default [] params) @ tlv_bytes (0x03, 0 # key)) \<le> 2048"
proof -
  have "length key < length (tlv_bytes (0x03, 0 # key))"
    using length_tlv_bytes [of "(0x03, 0 # key)"] by simp
  then show ?thesis
    by (auto simp: spki_def Let_def finish_alg finish_spki_body finish_tlv spki_bytes_def
        split: if_splits)
qed


lemma tlv_inj_prefix:
  "length c \<le> 0xffff \<Longrightarrow> length d \<le> 0xffff \<Longrightarrow> tlv_bytes (t, c) @ r = tlv_bytes (u, d) @ s \<Longrightarrow>
    t = u \<and> c = d \<and> r = s"
  using der.put_inj_prefix [of "(t, c)" "(u, d)" r s] by simp

lemma tlv_inj:
  "length c \<le> 0xffff \<Longrightarrow> length d \<le> 0xffff \<Longrightarrow> tlv_bytes (t, c) = tlv_bytes (u, d) \<Longrightarrow> t = u \<and> c = d"
  using tlv_inj_prefix [of c d t "[]" u "[]"] by (simp only: append_Nil2)

lemma spki_bytes_inj:
  assumes "length (tlv_bytes (0x30, a) @ tlv_bytes (0x03, 0 # k)) \<le> 0xffff"
    "length (tlv_bytes (0x30, b) @ tlv_bytes (0x03, 0 # l)) \<le> 0xffff"
    "spki_bytes a k = spki_bytes b l"
  shows "a = b \<and> k = l"
proof -
  have "tlv_bytes (0x30, a) @ tlv_bytes (0x03, 0 # k) = tlv_bytes (0x30, b) @ tlv_bytes (0x03, 0 # l)"
    using tlv_inj [OF assms(1,2)] assms(3) by (simp only: spki_bytes_def)
  moreover have "length a \<le> 0xffff" "length b \<le> 0xffff" "length (0 # k) \<le> 0xffff" "length (0 # l) \<le> 0xffff"
    using assms(1,2) length_tlv_bytes [of "(0x30, a)"] length_tlv_bytes [of "(0x30, b)"]
      length_tlv_bytes [of "(3, 0 # k)"] length_tlv_bytes [of "(3, 0 # l)"] by simp_all
  ultimately show ?thesis
    using tlv_inj_prefix [of a b 48 _ 48] tlv_inj [of "0 # k" "0 # l" 3 3] by blast
qed

lemma int_body_value: "be_value (int_body p) = be_value p"
  using mpint_body_value [of p] by (auto simp: int_body_def)

text \<open>The body of a DER INTEGER that is not negative and has no redundant leading byte.\<close>

definition minimal_int :: "bytes \<Rightarrow> bool" where
  "minimal_int m \<longleftrightarrow> m = [0] \<or> (m \<noteq> [] \<and> minimal_nonneg m)"

lemma int_body_minimal: "minimal_int (int_body p)"
  using mpint_body_minimal [of p] by (simp add: int_body_def minimal_int_def)

lemma int_body_unique: "be_value p = be_value q \<Longrightarrow> int_body p = int_body q"
  by (simp add: int_body_def mpint_body_unique [of p q])

lemma seq_of_two_ints_parses:
  assumes "length (tlv_bytes (2, int_body p)) + length (tlv_bytes (2, int_body q)) \<le> 0xffff"
  shows "\<exists>body rest. der_get (seq_of_ints [p, q]) = Some ((0x30, body), []) \<and>
    der_get body = Some ((2, int_body p), rest) \<and> der_get rest = Some ((2, int_body q), [])"
proof -
  let ?body = "tlv_bytes (2, int_body p) @ tlv_bytes (2, int_body q)"
  have len: "length (int_body p) \<le> 0xffff" "length (int_body q) \<le> 0xffff" "length ?body \<le> 0xffff"
    using assms int_body_tlv_le [of p] int_body_tlv_le [of q] by simp_all
  have "der_get (seq_of_ints [p, q]) = Some ((0x30, ?body), [])"
    using der.get_put [of "(0x30, ?body)" "[]"] len by (simp add: seq_of_ints_def)
  moreover have "der_get ?body = Some ((2, int_body p), tlv_bytes (2, int_body q))"
    using der.get_put [of "(2, int_body p)"] len by simp
  moreover have "der_get (tlv_bytes (2, int_body q)) = Some ((2, int_body q), [])"
    using der.get_put [of "(2, int_body q)" "[]"] len by simp
  ultimately show ?thesis by blast
qed

lemma length_int_body_tlv: "length p \<le> 66 \<Longrightarrow> length (tlv_bytes (2, int_body p)) \<le> 69"
proof -
  assume p: "length p \<le> 66"
  have "length (dropWhile (\<lambda>b. b = 0) p) \<le> 66" using p length_dropWhile_le le_trans by blast
  then have "length (mpint_body p) \<le> 67"
    by (cases "dropWhile (\<lambda>b. b = 0) p") (simp_all only: mpint_body_cases list.size if_split, auto)
  then show ?thesis by (simp add: tlv_bytes_def int_body_def len_bytes_def)
qed

text \<open>
  C28: re-encoding an SSH ECDSA signature for the crypto backend keeps the two numbers.  When it
  succeeds, a strict DER reader finds one SEQUENCE of exactly two minimal non-negative INTEGERs,
  with nothing after either, whose values are those of \<open>r\<close> and \<open>s\<close> whatever leading zeros the
  signature carried; any other spelling of the same numbers gives the same DER.  It succeeds
  for every curve the module supports (66 bytes is a P-521 number) once the caller's buffer
  holds 145 bytes.
\<close>

theorem der_ecdsa_sig_faithful:
  "(\<forall>out. ssoossh_der_ecdsa_sig r s cap = Some out \<longrightarrow>
      length out \<le> cap \<and>
      (\<exists>body m rest n. der_get out = Some ((0x30, body), []) \<and>
        der_get body = Some ((0x02, m), rest) \<and> der_get rest = Some ((0x02, n), []) \<and>
        minimal_int m \<and> be_value m = be_value r \<and> minimal_int n \<and> be_value n = be_value s)) \<and>
   (be_value r' = be_value r \<and> be_value s' = be_value s \<longrightarrow>
      ssoossh_der_ecdsa_sig r' s' cap = ssoossh_der_ecdsa_sig r s cap) \<and>
   (length r \<le> 66 \<and> length s \<le> 66 \<and> 145 \<le> cap \<longrightarrow> ssoossh_der_ecdsa_sig r s cap \<noteq> None)"
proof (intro conjI allI impI)
  fix out
  assume *: "ssoossh_der_ecdsa_sig r s cap = Some out"
  then show "length out \<le> cap" using ecdsa_sig_Some by blast
  from * obtain body rest where "der_get out = Some ((0x30, body), [])"
      "der_get body = Some ((2, int_body r), rest)" "der_get rest = Some ((2, int_body s), [])"
    using seq_of_two_ints_parses [of r s] by (auto simp: ecdsa_sig_Some)
  then show "\<exists>body m rest n. der_get out = Some ((0x30, body), []) \<and>
        der_get body = Some ((0x02, m), rest) \<and> der_get rest = Some ((0x02, n), []) \<and>
        minimal_int m \<and> be_value m = be_value r \<and> minimal_int n \<and> be_value n = be_value s"
    using int_body_minimal int_body_value by metis
next
  assume "be_value r' = be_value r \<and> be_value s' = be_value s"
  then have "int_body r' = int_body r" "int_body s' = int_body s" using int_body_unique by blast+
  then have "ssoossh_der_ecdsa_sig r' s' cap = Some x \<longleftrightarrow> ssoossh_der_ecdsa_sig r s cap = Some x" for x
    by (simp add: ecdsa_sig_Some seq_of_ints_def)
  then show "ssoossh_der_ecdsa_sig r' s' cap = ssoossh_der_ecdsa_sig r s cap"
    by (metis option.exhaust)
next
  assume a: "length r \<le> 66 \<and> length s \<le> 66 \<and> 145 \<le> cap"
  then have "length (tlv_bytes (2, int_body r)) + length (tlv_bytes (2, int_body s)) \<le> 138"
    using length_int_body_tlv [of r] length_int_body_tlv [of s] by simp
  moreover from this have "length (seq_of_ints [r, s]) \<le> 145"
    by (simp add: seq_of_ints_def tlv_bytes_def len_bytes_def)
  ultimately have "ssoossh_der_ecdsa_sig r s cap = Some (seq_of_ints [r, s])"
    using a by (simp add: ecdsa_sig_Some)
  then show "ssoossh_der_ecdsa_sig r s cap \<noteq> None" by simp
qed

theorem der_ecdsa_sig_faithful_witness:
  "ssoossh_der_ecdsa_sig [0, 0, 1] [200] 145 = Some [0x30, 7, 2, 1, 1, 2, 2, 0, 200] \<and>
   ssoossh_der_ecdsa_sig [1] [0, 200] 145 = ssoossh_der_ecdsa_sig [0, 0, 1] [200] 145"
proof -
  have "ssoossh_der_ecdsa_sig [0, 0, 1] [200] 145 = Some [0x30, 7, 2, 1, 1, 2, 2, 0, 200]"
    by code_simp
  moreover have "be_value [1] = be_value [0, 0, 1]" "be_value [0, 200] = be_value [200]"
    by simp_all
  ultimately show ?thesis
    using der_ecdsa_sig_faithful [of "[0, 0, 1]" "[200]" 145 "[1]" "[0, 200]"] by blast
qed

text \<open>The key the backend is handed, as the three shapes the module builds.\<close>

datatype key_material =
    EcKey ssoossh_curve bytes
  | RsaKey (rsa_e: bytes) (rsa_n: bytes)
  | EdKey bytes

fun spki_of :: "key_material \<Rightarrow> nat \<Rightarrow> bytes option" where
  "spki_of (EcKey c p) cap = ssoossh_der_spki_ec c p cap"
| "spki_of (RsaKey e n) cap = ssoossh_der_spki_rsa e n cap"
| "spki_of (EdKey k) cap = ssoossh_der_spki_ed25519 k cap"

fun same_key :: "key_material \<Rightarrow> key_material \<Rightarrow> bool" where
  "same_key (EcKey c p) (EcKey d q) \<longleftrightarrow> c = d \<and> p = q"
| "same_key (RsaKey e n) (RsaKey f m) \<longleftrightarrow> be_value e = be_value f \<and> be_value n = be_value m"
| "same_key (EdKey k) (EdKey l) \<longleftrightarrow> k = l"
| "same_key _ _ \<longleftrightarrow> False"

text \<open>The algorithm identifier and the key bits of each shape.\<close>

fun alg_of :: "key_material \<Rightarrow> bytes" where
  "alg_of (EcKey c p) = oid_ec_public_key @ curve_oid c"
| "alg_of (RsaKey e n) = oid_rsa @ asn1_null"
| "alg_of (EdKey k) = oid_ed25519"

fun bits_of :: "key_material \<Rightarrow> bytes" where
  "bits_of (EcKey c p) = p"
| "bits_of (RsaKey e n) = seq_of_ints [n, e]"
| "bits_of (EdKey k) = k"

lemma spki_of_Some:
  "spki_of k cap = Some out \<Longrightarrow>
    out = spki_bytes (alg_of k) (bits_of k) \<and> length out \<le> cap \<and>
    length (tlv_bytes (0x30, alg_of k) @ tlv_bytes (0x03, 0 # bits_of k)) \<le> 2048 \<and>
    (\<forall>e n. k = RsaKey e n \<longrightarrow>
      length (tlv_bytes (2, int_body n)) + length (tlv_bytes (2, int_body e)) \<le> 1200)"
  by (cases k)
    (auto simp: ssoossh_der_spki_ec_def ssoossh_der_spki_rsa_def ssoossh_der_spki_ed25519_def
      rsa_pkcs1_Some spki_Some the_default_def split: if_splits option.splits)

lemma alg_of_inj:
  "alg_of k = alg_of l \<Longrightarrow>
    (\<exists>c p q. k = EcKey c p \<and> l = EcKey c q) \<or> (\<exists>e n f m. k = RsaKey e n \<and> l = RsaKey f m) \<or>
    (\<exists>p q. k = EdKey p \<and> l = EdKey q)"
  by (cases k; cases l)
    (auto simp: oid_ec_public_key_def oid_rsa_def oid_ed25519_def asn1_null_def curve_oid_def
      oid_p256_def oid_p384_def oid_p521_def split: ssoossh_curve.splits)

text \<open>
  C27: the SubjectPublicKeyInfo handed to the backend determines the key.  Whatever the buffer
  sizes, equal encodings come from the same algorithm, the same curve and the same key (for RSA:
  the same exponent and modulus as numbers), so no two distinct CA keys are verified with the
  same bytes and no key is read as one of another algorithm.
\<close>

theorem spki_determines_key:
  assumes "spki_of k cap = Some out" and "spki_of l cap' = Some out"
  shows "same_key k l"
proof -
  have "alg_of k = alg_of l \<and> bits_of k = bits_of l"
    using assms [THEN spki_of_Some] by (intro spki_bytes_inj) simp_all
  then consider c p where "k = EcKey c p" "l = EcKey c p"
    | e n f m where "k = RsaKey e n" "l = RsaKey f m" "seq_of_ints [n, e] = seq_of_ints [m, f]"
    | p where "k = EdKey p" "l = EdKey p"
    using alg_of_inj [of k l] by auto
  then show ?thesis
  proof cases
    case 2
    have "length (tlv_bytes (2, int_body n)) + length (tlv_bytes (2, int_body e)) \<le> 0xffff"
      "length (tlv_bytes (2, int_body m)) + length (tlv_bytes (2, int_body f)) \<le> 0xffff"
      using assms [THEN spki_of_Some] 2 by auto
    then have "int_body n = int_body m \<and> int_body e = int_body f"
      using seq_of_two_ints_parses [of n e] seq_of_two_ints_parses [of m f] 2(3) by auto
    with 2 show ?thesis by (metis int_body_value same_key.simps(2))
  qed simp_all
qed

theorem spki_determines_key_witness:
  "spki_of (EdKey (replicate 32 7)) 64 =
     Some ([0x30, 42, 0x30, 5, 0x06, 0x03, 0x2b, 0x65, 0x70, 0x03, 33, 0] @ replicate 32 7) \<and>
   same_key (EdKey (replicate 32 7)) (EdKey (replicate 32 7))"
proof -
  have "spki_of (EdKey (replicate 32 7)) 64 =
     Some ([0x30, 42, 0x30, 5, 0x06, 0x03, 0x2b, 0x65, 0x70, 0x03, 33, 0] @ replicate 32 7)"
    by code_simp
  then show ?thesis using spki_determines_key by blast
qed

text \<open>An RSA key is never too long for the buffer, whatever its numbers, once its numbers fit theirs.\<close>

lemma tlv_length: "length (tlv_bytes x) \<le> 4 + length (snd x)"
  by (simp add: tlv_bytes_def len_bytes_def)

lemma rsa_spki_fits:
  assumes "ssoossh_der_rsa_pkcs1 e n 2048 = Some m"
  shows "\<exists>d. ssoossh_der_spki_rsa e n 2048 = Some d"
proof -
  have m: "m = seq_of_ints [n, e]" "length (tlv_bytes (2, int_body n)) + length (tlv_bytes (2, int_body e)) \<le> 1200"
    using assms by (simp_all add: rsa_pkcs1_Some)
  have len: "length m \<le> 1204"
    using m tlv_length [of "(0x30, concat (map (\<lambda>p. tlv_bytes (2, int_body p)) [n, e]))"] by (simp add: seq_of_ints_def)
  then have pkcs: "ssoossh_der_rsa_pkcs1 e n 1216 = Some m" using m by (simp add: rsa_pkcs1_Some)
  have alg: "length (oid_rsa @ asn1_null) \<le> 20" by (simp add: oid_rsa_def asn1_null_def)
  have body: "length (tlv_bytes (0x30, oid_rsa @ asn1_null) @ tlv_bytes (0x03, 0 # m)) \<le> 1300"
    using len alg tlv_length [of "(0x30, oid_rsa @ asn1_null)"] tlv_length [of "(0x03, 0 # m)"] by simp
  then have "length (spki_bytes (oid_rsa @ asn1_null) m) \<le> 2048"
    using tlv_length [of "(0x30, tlv_bytes (0x30, oid_rsa @ asn1_null) @ tlv_bytes (0x03, 0 # m))"]
    by (simp add: spki_bytes_def)
  with body alg have "spki oid_rsa (Some asn1_null) m 2048 = Some (spki_bytes (oid_rsa @ asn1_null) m)"
    by (simp add: spki_Some the_default_def)
  then show ?thesis by (simp add: ssoossh_der_spki_rsa_def pkcs)
qed

lemma small_rsa_spki: "\<exists>d. spki_of (RsaKey [1, 0, 1] [5]) 2048 = Some d"
proof -
  have "int_body [5] = [5]" "int_body [1, 0, 1] = [1, 0, 1]"
    by (simp_all add: int_body_def mpint_body_def)
  then have "ssoossh_der_rsa_pkcs1 [1, 0, 1] [5] 2048 = Some (seq_of_ints [[5], [1, 0, 1]])"
    unfolding rsa_pkcs1_Some by (simp add: seq_of_ints_def tlv_bytes_def len_bytes_def)
  then show ?thesis using rsa_spki_fits by simp
qed

end
