(* ===== verification/Crypto.thy ===== *)
theory Crypto
  imports Der Log
begin

text \<open>
  src/crypto_common.c and the part of src/crypto_openssl.c that is not a call: which key types
  and signature algorithms are supported, the reading of an SSH key blob into a
  SubjectPublicKeyInfo, the Ed25519 known-answer probe and the verification itself.  OpenSSL is
  the record \<open>openssl\<close>: the functions the file calls, each with the value it returns and, where
  the file reads it, the reason OpenSSL queues when it fails.  Nothing is assumed of them here;
  what a property needs is a hypothesis of that property.

  The lemmas: a key blob is accepted in one shape only, a signature is only ever checked by a key
  of the type its algorithm names, and every call that reaches OpenSSL carries the DER of
  exactly the key and signature it was given.
\<close>

section \<open>The crypto library\<close>

datatype evp_md = EVP_sha256 | EVP_sha384 | EVP_sha512

record 'k openssl =
  OpenSSL_version :: bytes
  proc_fips_enabled :: "bytes option"
  EVP_default_properties_is_fips_enabled :: int
  d2i_PUBKEY :: "bytes \<Rightarrow> bytes option + 'k"
  EVP_MD_CTX_new :: bool
  EVP_DigestVerifyInit :: "'k \<Rightarrow> evp_md option \<Rightarrow> bytes option + unit"
  EVP_DigestVerify :: "'k \<Rightarrow> evp_md option \<Rightarrow> bytes \<Rightarrow> bytes \<Rightarrow> int \<times> bytes option"
  EVP_Digest_sha256 :: "bytes \<Rightarrow> bytes option"

datatype ssoossh_verify_result = VERIFY_OK | VERIFY_BAD | VERIFY_UNSUPPORTED | VERIFY_ERROR

definition openssl_reason :: "bytes option \<Rightarrow> bytes" where
  "openssl_reason e = (case e of None \<Rightarrow> bs ''no OpenSSL error recorded'' | Some r \<Rightarrow> r)"

text \<open>The kernel's switch is the first byte of its file, when there is one; the library is OpenSSL 3.\<close>

definition kernel_fips :: "'k openssl \<Rightarrow> bool" where
  "kernel_fips ossl =
     (case proc_fips_enabled ossl of None \<Rightarrow> False | Some content \<Rightarrow> content \<noteq> [] \<and> hd content = ch (CHR ''1''))"

definition library_fips :: "'k openssl \<Rightarrow> bool" where
  "library_fips ossl \<longleftrightarrow> EVP_default_properties_is_fips_enabled ossl = 1"

definition ssoossh_crypto_fips_state :: "'k openssl \<Rightarrow> ssoossh_fips_state" where
  "ssoossh_crypto_fips_state ossl = (if kernel_fips ossl \<or> library_fips ossl then FIPS_ON else FIPS_OFF)"

definition ssoossh_crypto_sha256 :: "'k openssl \<Rightarrow> bytes \<Rightarrow> bytes option" where
  "ssoossh_crypto_sha256 ossl inp =
     (case EVP_Digest_sha256 ossl inp of
        None \<Rightarrow> None
      | Some d \<Rightarrow> if length d = 32 then Some d else None)"

section \<open>The key pair of an attempt\<close>

text \<open>
  The EVP calls of key generation, on a world, with what they return; a key pair is the handle that
  \<open>EVP_PKEY_keygen\<close> gives, \<open>None\<close> the null pointer; a call that fails leaves none.  The public point
  is what OpenSSL 3 writes into the caller's buffer.
\<close>

record ('p, 'w) evp_keys =
  EVP_PKEY_CTX_new_id :: "'w \<Rightarrow> bool \<times> 'w"
  EVP_PKEY_keygen_init :: "'w \<Rightarrow> int \<times> 'w"
  EVP_PKEY_CTX_set_p384 :: "'w \<Rightarrow> int \<times> 'w"
  OPENSSL_zalloc :: "'w \<Rightarrow> bool \<times> 'w"
  EVP_PKEY_keygen :: "'w \<Rightarrow> (int \<times> 'p) \<times> 'w"
  EVP_PKEY_encoded_pub_key :: "'p \<Rightarrow> nat \<Rightarrow> int \<times> bytes"
  EVP_PKEY_free :: "'p \<Rightarrow> 'w \<Rightarrow> 'w"

definition ssoossh_crypto_keygen :: "('p, 'w) evp_keys \<Rightarrow> 'w \<Rightarrow> 'p option \<times> 'w" where
  "ssoossh_crypto_keygen evp w =
     (let (ctx, w) = EVP_PKEY_CTX_new_id evp w in
      if \<not> ctx then (None, w)
      else let (rc, w) = EVP_PKEY_keygen_init evp w in
      if rc \<le> 0 then (None, w)
      else let (rc, w) = EVP_PKEY_CTX_set_p384 evp w in
      if rc \<le> 0 then (None, w)
      else let (kp, w) = OPENSSL_zalloc evp w in
      if \<not> kp then (None, w)
      else let ((rc, pkey), w) = EVP_PKEY_keygen evp w in
      if rc \<le> 0 then (None, w) else (Some pkey, w))"

definition ssoossh_crypto_keypair_free :: "('p, 'w) evp_keys \<Rightarrow> 'p option \<Rightarrow> 'w \<Rightarrow> 'w" where
  "ssoossh_crypto_keypair_free evp kp w = (case kp of None \<Rightarrow> w | Some pkey \<Rightarrow> EVP_PKEY_free evp pkey w)"

definition ssoossh_crypto_public_point :: "('p, 'w) evp_keys \<Rightarrow> 'p \<Rightarrow> nat \<Rightarrow> bytes option" where
  "ssoossh_crypto_public_point evp kp out_cap =
     (case EVP_PKEY_encoded_pub_key evp kp out_cap of (rc, out) \<Rightarrow> if rc \<noteq> 1 then None else Some out)"

section \<open>Verification with a decoded key\<close>

text \<open>The second component is \<open>why\<close>, \<open>None\<close> being the null pointer.\<close>

definition verify_spki ::
  "'k openssl \<Rightarrow> bytes \<Rightarrow> evp_md option \<Rightarrow> bytes \<Rightarrow> bytes \<Rightarrow> ssoossh_verify_result \<times> bytes option"
where
  "verify_spki ossl der md msg sig =
     (case d2i_PUBKEY ossl der of
        Inl e \<Rightarrow> (VERIFY_ERROR, Some (openssl_reason e))
      | Inr pkey \<Rightarrow>
          if \<not> EVP_MD_CTX_new ossl then (VERIFY_ERROR, Some (bs ''out of memory''))
          else
            (case EVP_DigestVerifyInit ossl pkey md of
               Inl e \<Rightarrow> (VERIFY_ERROR, Some (openssl_reason e))
             | Inr _ \<Rightarrow>
                 (case EVP_DigestVerify ossl pkey md sig msg of
                    (rc, e) \<Rightarrow>
                      if rc = 1 then (VERIFY_OK, None)
                      else if rc = 0 then (VERIFY_BAD, None)
                      else (VERIFY_ERROR, Some (openssl_reason e)))))"

section \<open>The Ed25519 probe\<close>

record ed25519_vector =
  v_pk :: bytes
  v_msg :: bytes
  v_sig :: bytes

definition ED25519_KAT :: ed25519_vector where
  "ED25519_KAT =
    \<lparr>v_pk = [0xfc, 0x51, 0xcd, 0x8e, 0x62, 0x18, 0xa1, 0xa3, 0x8d, 0xa4, 0x7e, 0xd0,
      0x02, 0x30, 0xf0, 0x58, 0x08, 0x16, 0xed, 0x13, 0xba, 0x33, 0x03, 0xac,
      0x5d, 0xeb, 0x91, 0x15, 0x48, 0x90, 0x80, 0x25],
     v_msg = [0xaf, 0x82],
     v_sig = [0x62, 0x91, 0xd6, 0x57, 0xde, 0xec, 0x24, 0x02, 0x48, 0x27, 0xe6, 0x9c,
      0x3a, 0xbe, 0x01, 0xa3, 0x0c, 0xe5, 0x48, 0xa2, 0x84, 0x74, 0x3a, 0x44,
      0x5e, 0x36, 0x80, 0xd7, 0xdb, 0x5a, 0xc3, 0xac, 0x18, 0xff, 0x9b, 0x53,
      0x8d, 0x16, 0xf2, 0x90, 0xae, 0x67, 0xf7, 0x60, 0x98, 0x4d, 0xc6, 0x59,
      0x4a, 0x7c, 0x15, 0xe9, 0x71, 0x6e, 0xd2, 0x8d, 0xc0, 0x27, 0xbe, 0xce,
      0xea, 0x1e, 0xc4, 0x0a]\<rparr>"

definition ED25519_BIG_S :: ed25519_vector where
  "ED25519_BIG_S =
    \<lparr>v_pk = [0x44, 0x2a, 0xad, 0x9f, 0x08, 0x9a, 0xd9, 0xe1, 0x46, 0x47, 0xb1, 0xef,
      0x90, 0x99, 0xa1, 0xff, 0x47, 0x98, 0xd7, 0x85, 0x89, 0xe6, 0x6f, 0x28,
      0xec, 0xa6, 0x9c, 0x11, 0xf5, 0x82, 0xa6, 0x23],
     v_msg = [0x85, 0xe2, 0x41, 0xa0, 0x7d, 0x14, 0x8b, 0x41, 0xe4, 0x7d, 0x62, 0xc6,
      0x3f, 0x83, 0x0d, 0xc7, 0xa6, 0x85, 0x1a, 0x0b, 0x1f, 0x33, 0xae, 0x4b,
      0xb2, 0xf5, 0x07, 0xfb, 0x6c, 0xff, 0xec, 0x40],
     v_sig = [0xe9, 0x6f, 0x66, 0xbe, 0x97, 0x6d, 0x82, 0xe6, 0x01, 0x50, 0xba, 0xec,
      0xff, 0x99, 0x06, 0x68, 0x4a, 0xeb, 0xb1, 0xef, 0x18, 0x1f, 0x67, 0xa7,
      0x18, 0x9a, 0xc7, 0x8e, 0xa2, 0x3b, 0x6c, 0x0e, 0x54, 0x7f, 0x76, 0x90,
      0xa0, 0xe2, 0xdd, 0xcd, 0x04, 0xd8, 0x7d, 0xbc, 0x34, 0x90, 0xdc, 0x19,
      0xb3, 0xb3, 0x05, 0x2f, 0x7f, 0xf0, 0x53, 0x8c, 0xb6, 0x8a, 0xfb, 0x36,
      0x9b, 0xa3, 0xa5, 0x14]\<rparr>"

definition probe ::
  "'k openssl \<Rightarrow> ed25519_vector \<Rightarrow> bytes \<Rightarrow> ssoossh_verify_result \<times> bytes option" where
  "probe ossl v sig =
     (case ssoossh_der_spki_ed25519 (v_pk v) 64 of
        None \<Rightarrow> (VERIFY_ERROR, Some (bs ''could not encode the probe key''))
      | Some der \<Rightarrow> verify_spki ossl der None (v_msg v) (take 64 sig))"

text \<open>
  The probe runs once per process and its verdict is kept; with OpenSSL a fixed record, running
  it again gives the same verdict.  A \<open>why\<close> that OpenSSL left null is printed as the C library
  prints a null string.
\<close>

definition ed25519_init :: "'k openssl \<Rightarrow> bool \<times> log_line list" where
  "ed25519_init ossl =
     (let fips = (if ssoossh_crypto_fips_state ossl = FIPS_ON then bs ''on'' else bs ''off'');
          kat = ED25519_KAT;
          flipped = (v_sig kat)[10 := v_sig kat ! 10 XOR 0x01];
          text = (\<lambda>why. case why of None \<Rightarrow> bs ''(null)'' | Some w \<Rightarrow> w);
          refuse = (\<lambda>why. (False,
            [ssoossh_warnf ''Ed25519: %s cannot verify it here (%s; fips: %s); ssh-ed25519 CAs cannot be used on this host''
               [AStr (OpenSSL_version ossl), AStr why, AStr fips]]))
      in case probe ossl kat (v_sig kat) of (r1, why1) \<Rightarrow>
           if r1 \<noteq> VERIFY_OK then refuse (text why1)
           else if fst (probe ossl kat flipped) \<noteq> VERIFY_BAD then
             refuse (bs ''a corrupted signature was not refused'')
           else if fst (probe ossl ED25519_BIG_S (v_sig ED25519_BIG_S)) \<noteq> VERIFY_BAD then
             refuse (bs ''a signature with S >= L was not refused'')
           else (True,
             [ssoossh_debugf ''Ed25519: %s verified the known answers (fips: %s)''
                [AStr (OpenSSL_version ossl), AStr fips]]))"

definition ssoossh_crypto_ed25519_usable :: "'k openssl \<Rightarrow> bool" where
  "ssoossh_crypto_ed25519_usable ossl = fst (ed25519_init ossl)"

section \<open>Algorithms\<close>

text \<open>
  The comparisons of the source are \<open>strcmp\<close>s of C strings; the arguments are C strings
  already (\<open>ssh_rd_cstr\<close> and the line parser return them), so they are equalities here.
\<close>

definition ssoossh_crypto_supports_key :: "'k openssl \<Rightarrow> bytes \<Rightarrow> bool" where
  "ssoossh_crypto_supports_key ossl key_algo =
     (if key_algo = bs ''ssh-ed25519'' then ssoossh_crypto_ed25519_usable ossl
      else key_algo = bs ''ssh-rsa'' \<or> key_algo = bs ''ecdsa-sha2-nistp256'' \<or>
           key_algo = bs ''ecdsa-sha2-nistp384'' \<or> key_algo = bs ''ecdsa-sha2-nistp521'')"

text \<open>The table of crypto_common.c asks the backend whether Ed25519 is usable.\<close>

definition ssoossh_sig_algo_key_type :: "bool \<Rightarrow> bytes \<Rightarrow> bytes option" where
  "ssoossh_sig_algo_key_type ed25519_usable sig_algo =
     (if sig_algo = bs ''ssh-ed25519'' then
        (if ed25519_usable then Some (bs ''ssh-ed25519'') else None)
      else if sig_algo = bs ''rsa-sha2-256'' \<or> sig_algo = bs ''rsa-sha2-512'' then
        Some (bs ''ssh-rsa'')
      else if sig_algo = bs ''ecdsa-sha2-nistp256'' \<or> sig_algo = bs ''ecdsa-sha2-nistp384'' \<or>
              sig_algo = bs ''ecdsa-sha2-nistp521'' then Some sig_algo
      else None)"

definition sig_algo_info :: "'k openssl \<Rightarrow> bytes \<Rightarrow> (bytes \<times> evp_md option) option" where
  "sig_algo_info ossl sig_algo =
     (case ssoossh_sig_algo_key_type (ssoossh_crypto_ed25519_usable ossl) sig_algo of
        None \<Rightarrow> None
      | Some key_type \<Rightarrow>
          Some (key_type,
            if sig_algo = bs ''ssh-ed25519'' then None
            else if sig_algo = bs ''rsa-sha2-256'' \<or> sig_algo = bs ''ecdsa-sha2-nistp256'' then
              Some EVP_sha256
            else if sig_algo = bs ''ecdsa-sha2-nistp384'' then Some EVP_sha384
            else Some EVP_sha512))"

definition ssoossh_ecdsa_sig_to_der :: "bytes \<Rightarrow> nat \<Rightarrow> bytes option" where
  "ssoossh_ecdsa_sig_to_der sig out_cap =
     (case ssh_rd_str (ssh_rd_init sig) of
        (None, r) \<Rightarrow> None
      | (Some rr, r) \<Rightarrow>
          (case ssh_rd_str r of
             (None, r) \<Rightarrow> None
           | (Some ss, r) \<Rightarrow>
               if \<not> ssh_rd_done r then None else ssoossh_der_ecdsa_sig rr ss out_cap))"

section \<open>SSH key blobs\<close>

text \<open>One string and nothing after it; two strings and nothing after them.\<close>

definition one_field :: "ssh_rd \<Rightarrow> bytes option" where
  "one_field r =
     (case ssh_rd_str r of
        (None, r) \<Rightarrow> None
      | (Some a, r) \<Rightarrow> if \<not> ssh_rd_done r then None else Some a)"

definition two_fields :: "ssh_rd \<Rightarrow> (bytes \<times> bytes) option" where
  "two_fields r =
     (case ssh_rd_str r of
        (None, r) \<Rightarrow> None
      | (Some a, r) \<Rightarrow>
          (case ssh_rd_str r of
             (None, r) \<Rightarrow> None
           | (Some b, r) \<Rightarrow> if \<not> ssh_rd_done r then None else Some (a, b)))"

text \<open>What follows the type field, by the type it names.\<close>

definition spki_of_type :: "bytes \<Rightarrow> ssh_rd \<Rightarrow> nat \<Rightarrow> bytes option" where
  "spki_of_type type r out_cap =
     (if type = bs ''ssh-ed25519'' then
        (case one_field r of None \<Rightarrow> None | Some a \<Rightarrow> ssoossh_der_spki_ed25519 a out_cap)
      else if type = bs ''ssh-rsa'' then
        (case two_fields r of None \<Rightarrow> None | Some (a, b) \<Rightarrow> ssoossh_der_spki_rsa a b out_cap)
      else if take 16 type = bs ''ecdsa-sha2-nistp'' then
        (case (if drop 16 type = bs ''256'' then Some (CURVE_P256, bs ''nistp256'')
               else if drop 16 type = bs ''384'' then Some (CURVE_P384, bs ''nistp384'')
               else if drop 16 type = bs ''521'' then Some (CURVE_P521, bs ''nistp521'')
               else None) of
           None \<Rightarrow> None
         | Some (curve, want_curve) \<Rightarrow>
             (case two_fields r of
                None \<Rightarrow> None
              | Some (a, b) \<Rightarrow>
                  if a \<noteq> want_curve then None else ssoossh_der_spki_ec curve b out_cap))
      else None)"

text \<open>The SPKI and the key type the blob names.\<close>

definition spki_from_ssh_key :: "bytes \<Rightarrow> nat \<Rightarrow> nat \<Rightarrow> (bytes \<times> bytes) option" where
  "spki_from_ssh_key blob out_cap type_cap =
     (case ssh_rd_cstr (ssh_rd_init blob) type_cap of
        (None, r) \<Rightarrow> None
      | (Some type, r) \<Rightarrow>
          (case spki_of_type type r out_cap of None \<Rightarrow> None | Some der \<Rightarrow> Some (der, type)))"

section \<open>Signature verification\<close>

definition ssoossh_crypto_verify ::
  "'k openssl \<Rightarrow> bytes \<Rightarrow> bytes \<Rightarrow> bytes \<Rightarrow> bytes \<Rightarrow> ssoossh_verify_result \<times> log_line list" where
  "ssoossh_crypto_verify ossl sig_algo ca_key msg sig =
     (case sig_algo_info ossl sig_algo of
        None \<Rightarrow> (VERIFY_UNSUPPORTED, [])
      | Some (want_key_type, md) \<Rightarrow>
          (case spki_from_ssh_key ca_key 2048 64 of
             None \<Rightarrow> (VERIFY_ERROR, [])
           | Some (der, key_type) \<Rightarrow>
               if key_type \<noteq> want_key_type then (VERIFY_ERROR, [])
               else
                 (case (if take 6 sig_algo = bs ''ecdsa-'' then ssoossh_ecdsa_sig_to_der sig 256
                        else if sig_algo = bs ''ssh-ed25519'' \<and> length sig \<noteq> 64 then None
                        else Some sig) of
                    None \<Rightarrow> (VERIFY_ERROR, [])
                  | Some sig \<Rightarrow>
                      (case verify_spki ossl der md msg sig of
                         (result, why) \<Rightarrow>
                           (result,
                            case why of
                              Some w \<Rightarrow>
                                if result = VERIFY_ERROR then
                                  [ssoossh_errf ''%s verification with a %s key failed in %s: %s''
                                     [AStr sig_algo, AStr key_type, AStr (OpenSSL_version ossl), AStr w]]
                                else []
                            | None \<Rightarrow> [])))))"


section \<open>Reading a key blob\<close>

lemma one_field_Some: "one_field (cur pre x) = Some a \<longleftrightarrow> length a < 2 ^ 32 \<and> x = put_str a"
proof (cases rule: str_cur_cases [of pre x])
  case (refused r)
  then show ?thesis using refused(3) [of a "[]"] by (auto simp: one_field_def)
next
  case (read p q)
  then have "one_field (cur pre x) = (if q = [] then Some p else None)" by (simp add: one_field_def)
  moreover have "x = put_str a \<longleftrightarrow> p = a \<and> q = []" if "length a < 2 ^ 32"
    using put_str_inj [of p a q "[]"] read(1,2) that by simp
  ultimately show ?thesis using read(1) by auto
qed

lemma two_fields_Some:
  "two_fields (cur pre x) = Some (a, b) \<longleftrightarrow>
    length a < 2 ^ 32 \<and> length b < 2 ^ 32 \<and> x = put_str a @ put_str b"
proof (cases rule: str_cur_cases [of pre x])
  case (refused r)
  then show ?thesis using refused(3) [of a "put_str b"] by (auto simp: two_fields_def)
next
  case (read p q)
  have "two_fields (cur pre x) = map_option (Pair p) (one_field (cur (pre @ put_str p) q))"
    using read(3)
    by (auto simp: two_fields_def one_field_def split: option.splits prod.splits)
  moreover have "x = put_str a @ put_str b \<longleftrightarrow> p = a \<and> q = put_str b" if "length a < 2 ^ 32"
    using put_str_inj [of p a q "put_str b"] read(1,2) that by simp
  ultimately show ?thesis
    using read(1) one_field_Some [of "pre @ put_str p" q b] by auto
qed

text \<open>The SSH names and fields of the key shapes.\<close>

definition curve_name :: "ssoossh_curve \<Rightarrow> bytes" where
  "curve_name c =
     (case c of CURVE_P256 \<Rightarrow> bs ''nistp256'' | CURVE_P384 \<Rightarrow> bs ''nistp384''
      | CURVE_P521 \<Rightarrow> bs ''nistp521'')"

fun key_type_of :: "key_material \<Rightarrow> bytes" where
  "key_type_of (EcKey c p) = bs ''ecdsa-sha2-'' @ curve_name c"
| "key_type_of (RsaKey e n) = bs ''ssh-rsa''"
| "key_type_of (EdKey k) = bs ''ssh-ed25519''"

fun key_fields :: "key_material \<Rightarrow> bytes list" where
  "key_fields (EcKey c p) = [curve_name c, p]"
| "key_fields (RsaKey e n) = [e, n]"
| "key_fields (EdKey k) = [k]"

definition put_strs :: "bytes list \<Rightarrow> bytes" where
  "put_strs ps = concat (map put_str ps)"

lemma curve_names:
  "curve_name CURVE_P256 = bs ''nistp256''" "curve_name CURVE_P384 = bs ''nistp384''"
  "curve_name CURVE_P521 = bs ''nistp521''" "length (curve_name c) < 2 ^ 32"
  by (simp_all add: curve_name_def split: ssoossh_curve.split)

lemma ec_type_cases:
  assumes "take 16 t = bs ''ecdsa-sha2-nistp''"
  shows "(drop 16 t = bs ''256'' \<longleftrightarrow> t = key_type_of (EcKey CURVE_P256 p)) \<and>
    (drop 16 t = bs ''384'' \<longleftrightarrow> t = key_type_of (EcKey CURVE_P384 p)) \<and>
    (drop 16 t = bs ''521'' \<longleftrightarrow> t = key_type_of (EcKey CURVE_P521 p))"
proof -
  have eq: "drop 16 t = s \<longleftrightarrow> t = bs ''ecdsa-sha2-nistp'' @ s" for s
    using assms append_take_drop_id [of 16 t] by (metis append_eq_conv_conj length_take)
  show ?thesis by (simp add: eq curve_names)
qed

definition key_body :: "key_material \<Rightarrow> bytes \<Rightarrow> bool" where
  "key_body k x \<longleftrightarrow> x = put_strs (key_fields k) \<and> list_all (\<lambda>f. length f < 2 ^ 32) (key_fields k)"

lemma key_body_simps:
  "key_body (EdKey k) x \<longleftrightarrow> length k < 2 ^ 32 \<and> x = put_str k"
  "key_body (RsaKey e n) x \<longleftrightarrow> length e < 2 ^ 32 \<and> length n < 2 ^ 32 \<and> x = put_str e @ put_str n"
  "key_body (EcKey c p) x \<longleftrightarrow> length p < 2 ^ 32 \<and> x = put_str (curve_name c) @ put_str p"
  using curve_names(4) [of c] by (auto simp: key_body_def put_strs_def)

lemma key_types:
  "key_type_of k = bs ''ssh-ed25519'' \<longleftrightarrow> (\<exists>p. k = EdKey p)"
  "key_type_of k = bs ''ssh-rsa'' \<longleftrightarrow> (\<exists>e n. k = RsaKey e n)"
  "key_type_of k = bs ''ecdsa-sha2-'' @ curve_name c \<longleftrightarrow> (\<exists>p. k = EcKey c p)"
  by (cases k; simp add: curve_name_def split: ssoossh_curve.split)+

lemma ex_key_of_type:
  "(\<exists>k. bs ''ssh-ed25519'' = key_type_of k \<and> Q k) \<longleftrightarrow> (\<exists>a. Q (EdKey a))"
  "(\<exists>k. bs ''ssh-rsa'' = key_type_of k \<and> Q k) \<longleftrightarrow> (\<exists>e n. Q (RsaKey e n))"
  "(\<exists>k. bs ''ecdsa-sha2-'' @ curve_name c = key_type_of k \<and> Q k) \<longleftrightarrow> (\<exists>p. Q (EcKey c p))"
  by (metis key_types(1), metis key_types(2), metis key_types(3))

lemma spki_of_type_ec:
  "spki_of_type (bs ''ecdsa-sha2-'' @ curve_name c) r cap =
    (case two_fields r of None \<Rightarrow> None
     | Some (a, b) \<Rightarrow> if a \<noteq> curve_name c then None else ssoossh_der_spki_ec c b cap)"
  by (cases c) (auto simp add: spki_of_type_def curve_names split: option.split)

lemma spki_of_type_other:
  assumes "type \<noteq> bs ''ssh-ed25519''" "type \<noteq> bs ''ssh-rsa''" "\<And>c. type \<noteq> bs ''ecdsa-sha2-'' @ curve_name c"
  shows "spki_of_type type r cap = None"
proof (cases "take 16 type = bs ''ecdsa-sha2-nistp''")
  case True
  from ec_type_cases [OF this] assms(3) [of CURVE_P256] assms(3) [of CURVE_P384] assms(3) [of CURVE_P521]
  have "drop 16 type \<noteq> bs ''256''" "drop 16 type \<noteq> bs ''384''" "drop 16 type \<noteq> bs ''521''"
    by simp_all
  then show ?thesis
    using assms(1,2) unfolding spki_of_type_def by (simp only: if_False if_cancel option.case)
next
  case False
  then show ?thesis
    using assms(1,2) unfolding spki_of_type_def by (simp only: if_False)
qed

text \<open>
  A reader of key fields that goes by the type name, in the three shapes of the source, reads exactly
  the bodies of the keys of that type.
\<close>

lemma key_shapes_Some:
  fixes g :: "bytes \<Rightarrow> ssh_rd \<Rightarrow> 'd option"
  assumes ed: "\<And>r. g (bs ''ssh-ed25519'') r = (case one_field r of None \<Rightarrow> None | Some a \<Rightarrow> h (EdKey a))"
    and rsa: "\<And>r. g (bs ''ssh-rsa'') r = (case two_fields r of None \<Rightarrow> None | Some (a, b) \<Rightarrow> h (RsaKey a b))"
    and ec: "\<And>c r. g (bs ''ecdsa-sha2-'' @ curve_name c) r =
      (case two_fields r of None \<Rightarrow> None | Some (a, b) \<Rightarrow> if a \<noteq> curve_name c then None else h (EcKey c b))"
    and other: "\<And>type r. type \<noteq> bs ''ssh-ed25519'' \<Longrightarrow> type \<noteq> bs ''ssh-rsa'' \<Longrightarrow>
      (\<And>c. type \<noteq> bs ''ecdsa-sha2-'' @ curve_name c) \<Longrightarrow> g type r = None"
  shows "g type (cur pre x) = Some d \<longleftrightarrow> (\<exists>k. type = key_type_of k \<and> key_body k x \<and> h k = Some d)"
proof -
  consider (ed) "type = bs ''ssh-ed25519''" | (rsa) "type = bs ''ssh-rsa''"
    | (ec) c where "type = bs ''ecdsa-sha2-'' @ curve_name c"
    | (other) "type \<noteq> bs ''ssh-ed25519''" "type \<noteq> bs ''ssh-rsa''"
        "\<And>c. type \<noteq> bs ''ecdsa-sha2-'' @ curve_name c"
    by blast
  then show ?thesis
  proof cases
    case ed
    have "(\<exists>k. type = key_type_of k \<and> key_body k x \<and> h k = Some d) \<longleftrightarrow>
        (\<exists>a. length a < 2 ^ 32 \<and> x = put_str a \<and> h (EdKey a) = Some d)"
      unfolding ed ex_key_of_type by (simp add: key_body_simps)
    then show ?thesis unfolding ed assms(1) by (simp only: case_option_Some one_field_Some) blast
  next
    case rsa
    have "(\<exists>k. type = key_type_of k \<and> key_body k x \<and> h k = Some d) \<longleftrightarrow>
        (\<exists>a b. length a < 2 ^ 32 \<and> length b < 2 ^ 32 \<and> x = put_str a @ put_str b \<and> h (RsaKey a b) = Some d)"
      unfolding rsa ex_key_of_type by (simp add: key_body_simps)
    then show ?thesis unfolding rsa assms(2) by (simp only: case_option_pair_Some two_fields_Some) blast
  next
    case ec
    have "(\<exists>k. type = key_type_of k \<and> key_body k x \<and> h k = Some d) \<longleftrightarrow>
        (\<exists>b. length b < 2 ^ 32 \<and> x = put_str (curve_name c) @ put_str b \<and> h (EcKey c b) = Some d)"
      unfolding ec ex_key_of_type by (simp add: key_body_simps)
    moreover have "g type (cur pre x) = Some d \<longleftrightarrow>
        (\<exists>a b. two_fields (cur pre x) = Some (a, b) \<and> a = curve_name c \<and> h (EcKey c b) = Some d)"
      unfolding ec assms(3) case_option_pair_Some by auto
    ultimately show ?thesis using curve_names(4) [of c] by (simp only: two_fields_Some) blast
  next
    case other
    then have "type \<noteq> key_type_of k" for k by (cases k) auto
    with assms(4) [OF other] show ?thesis by simp
  qed
qed

lemma spki_of_type_Some:
  "spki_of_type type (cur pre x) cap = Some d \<longleftrightarrow>
    (\<exists>k. type = key_type_of k \<and> key_body k x \<and> spki_of k cap = Some d)"
proof (rule key_shapes_Some)
  show "spki_of_type (bs ''ecdsa-sha2-'' @ curve_name c) r cap =
      (case two_fields r of None \<Rightarrow> None | Some (a, b) \<Rightarrow> if a \<noteq> curve_name c then None else spki_of (EcKey c b) cap)" for c r
    by (simp only: spki_of_type_ec spki_of.simps)
  show "spki_of_type (bs ''ssh-ed25519'') r cap = (case one_field r of None \<Rightarrow> None | Some a \<Rightarrow> spki_of (EdKey a) cap)" for r
    by (simp add: spki_of_type_def split: option.split)
  show "spki_of_type (bs ''ssh-rsa'') r cap = (case two_fields r of None \<Rightarrow> None | Some (a, b) \<Rightarrow> spki_of (RsaKey a b) cap)" for r
    by (simp add: spki_of_type_def split: option.split)
qed (rule spki_of_type_other)

text \<open>Reading the type name of a blob and then its fields.\<close>

lemma key_blob_Some:
  assumes "\<And>type pre x. g type (cur pre x) = Some d \<longleftrightarrow> (\<exists>k. type = key_type_of k \<and> key_body k x \<and> h k = Some d)"
  shows "(\<exists>r. ssh_rd_cstr (ssh_rd_init blob) tcap = (Some type, r) \<and> g type r = Some d) \<longleftrightarrow>
    (\<exists>k t x. blob = put_str t @ x \<and> t \<noteq> [] \<and> length t < tcap \<and> length t < 2 ^ 32 \<and>
      c_str t = type \<and> type = key_type_of k \<and> key_body k x \<and> h k = Some d)"
proof -
  have "(\<exists>r. ssh_rd_cstr (ssh_rd_init blob) tcap = (Some type, r) \<and> g type r = Some d) \<longleftrightarrow>
    (\<exists>t q. length t < 2 ^ 32 \<and> blob = put_str t @ q \<and> t \<noteq> [] \<and> length t < tcap \<and>
      type = c_str t \<and> g type (cur ([] @ put_str t) q) = Some d)"
    unfolding cur_init cstr_cur_Some by blast
  then show ?thesis unfolding assms by blast
qed

lemma spki_from_ssh_key_Some:
  "spki_from_ssh_key blob cap tcap = Some (d, type) \<longleftrightarrow>
    (\<exists>k t x. blob = put_str t @ x \<and> t \<noteq> [] \<and> length t < tcap \<and> length t < 2 ^ 32 \<and>
      c_str t = type \<and> type = key_type_of k \<and> key_body k x \<and> spki_of k cap = Some d)"
proof -
  have "spki_from_ssh_key blob cap tcap = Some (d, type) \<longleftrightarrow>
    (\<exists>r. ssh_rd_cstr (ssh_rd_init blob) tcap = (Some type, r) \<and> spki_of_type type r cap = Some d)"
    by (cases "ssh_rd_cstr (ssh_rd_init blob) tcap") (auto simp: spki_from_ssh_key_def split: option.splits)
  then show ?thesis
    using key_blob_Some [of "\<lambda>type r. spki_of_type type r cap" d "\<lambda>k. spki_of k cap"] spki_of_type_Some by blast
qed

section \<open>What a verification amounts to\<close>

text \<open>The algorithms a key of each shape may sign with, and their digests.\<close>

fun sig_digest :: "bytes \<Rightarrow> key_material \<Rightarrow> evp_md option option" where
  "sig_digest algo (EcKey c p) =
     (if algo = key_type_of (EcKey c p) then
        Some (Some (case c of CURVE_P256 \<Rightarrow> EVP_sha256 | CURVE_P384 \<Rightarrow> EVP_sha384 | CURVE_P521 \<Rightarrow> EVP_sha512))
      else None)"
| "sig_digest algo (RsaKey e n) =
     (if algo = bs ''rsa-sha2-256'' then Some (Some EVP_sha256)
      else if algo = bs ''rsa-sha2-512'' then Some (Some EVP_sha512) else None)"
| "sig_digest algo (EdKey k) = (if algo = bs ''ssh-ed25519'' then Some None else None)"

text \<open>The signature body in the form OpenSSL takes it.\<close>

fun sig_to_check :: "key_material \<Rightarrow> bytes \<Rightarrow> bytes option" where
  "sig_to_check (EcKey c p) sig = ssoossh_ecdsa_sig_to_der sig 256"
| "sig_to_check (RsaKey e n) sig = Some sig"
| "sig_to_check (EdKey k) sig = (if length sig = 64 then Some sig else None)"

definition key_usable :: "'k openssl \<Rightarrow> key_material \<Rightarrow> bool" where
  "key_usable ossl k \<longleftrightarrow> (case k of EdKey p \<Rightarrow> ssoossh_crypto_ed25519_usable ossl | _ \<Rightarrow> True)"

lemma sig_algo_info_key:
  "sig_algo_info ossl algo = Some (key_type_of k, md) \<longleftrightarrow>
    sig_digest algo k = Some md \<and> key_usable ossl k"
proof (cases k)
  case (EcKey c p)
  then show ?thesis
    by (cases c) (auto simp: sig_algo_info_def ssoossh_sig_algo_key_type_def curve_names key_usable_def)
qed (auto simp: sig_algo_info_def ssoossh_sig_algo_key_type_def key_usable_def)

lemma sig_prepared:
  "sig_digest algo k = Some md \<Longrightarrow>
    (if take 6 algo = bs ''ecdsa-'' then ssoossh_ecdsa_sig_to_der sig 256
     else if algo = bs ''ssh-ed25519'' \<and> length sig \<noteq> 64 then None else Some sig) = sig_to_check k sig"
  by (cases k) (auto split: if_splits)

lemma verify_spki_ok:
  "fst (verify_spki ossl d md msg sig) = VERIFY_OK \<longleftrightarrow>
    (\<exists>pkey. d2i_PUBKEY ossl d = Inr pkey \<and> EVP_MD_CTX_new ossl \<and>
      EVP_DigestVerifyInit ossl pkey md = Inr () \<and> fst (EVP_DigestVerify ossl pkey md sig msg) = 1)"
  by (auto simp: verify_spki_def split: sum.splits prod.splits)

lemma fst_with_log:
  "fst (case verify_spki ossl d md msg sig of (result, why) \<Rightarrow> (result, f result why)) =
    fst (verify_spki ossl d md msg sig)"
  by (simp add: split_beta)

lemma crypto_verify_spec:
  "fst (ssoossh_crypto_verify ossl algo ca msg sig) = VERIFY_OK \<longleftrightarrow>
    (\<exists>k t x md d pkey sg.
      ca = put_str t @ x \<and> key_body k x \<and> t \<noteq> [] \<and> length t < 64 \<and> c_str t = key_type_of k \<and>
      sig_digest algo k = Some md \<and> key_usable ossl k \<and>
      spki_of k 2048 = Some d \<and> sig_to_check k sig = Some sg \<and>
      d2i_PUBKEY ossl d = Inr pkey \<and> EVP_MD_CTX_new ossl \<and>
      EVP_DigestVerifyInit ossl pkey md = Inr () \<and>
      fst (EVP_DigestVerify ossl pkey md sg msg) = 1)"
  (is "?ok \<longleftrightarrow> ?spec")
proof
  assume ok: ?ok
  then obtain type md where info: "sig_algo_info ossl algo = Some (type, md)"
    by (cases "sig_algo_info ossl algo") (auto simp: ssoossh_crypto_verify_def)
  with ok obtain d where d: "spki_from_ssh_key ca 2048 64 = Some (d, type)"
    by (cases "spki_from_ssh_key ca 2048 64")
      (auto simp: ssoossh_crypto_verify_def split: if_splits)
  then obtain k t x where k: "ca = put_str t @ x" "t \<noteq> []" "length t < 64" "c_str t = type"
      "type = key_type_of k" "key_body k x" "spki_of k 2048 = Some d"
    unfolding spki_from_ssh_key_Some by blast
  have dig: "sig_digest algo k = Some md" "key_usable ossl k"
    using info k(5) by (simp_all add: sig_algo_info_key)
  obtain sg where sg: "sig_to_check k sig = Some sg"
    using ok info d sig_prepared [OF dig(1), of sig]
    by (cases "sig_to_check k sig") (auto simp: ssoossh_crypto_verify_def)
  have "fst (verify_spki ossl d md msg sg) = VERIFY_OK"
    using ok info d sg sig_prepared [OF dig(1), of sig]
    by (simp add: ssoossh_crypto_verify_def fst_with_log)
  with k dig sg show ?spec unfolding verify_spki_ok by blast
next
  assume ?spec
  then obtain k t x md d pkey sg where *:
      "ca = put_str t @ x" "key_body k x" "t \<noteq> []" "length t < 64" "c_str t = key_type_of k"
      "sig_digest algo k = Some md" "key_usable ossl k" "spki_of k 2048 = Some d"
      "sig_to_check k sig = Some sg" "d2i_PUBKEY ossl d = Inr pkey" "EVP_MD_CTX_new ossl"
      "EVP_DigestVerifyInit ossl pkey md = Inr ()" "fst (EVP_DigestVerify ossl pkey md sg msg) = 1"
    by blast
  then have "fst (verify_spki ossl d md msg sg) = VERIFY_OK" unfolding verify_spki_ok by blast
  moreover have "sig_algo_info ossl algo = Some (key_type_of k, md)"
    using * by (simp add: sig_algo_info_key)
  moreover have "spki_from_ssh_key ca 2048 64 = Some (d, key_type_of k)"
    unfolding spki_from_ssh_key_Some using * by fastforce
  ultimately show ?ok
    using sig_prepared [OF *(6), of sig] *(9)
    by (simp add: ssoossh_crypto_verify_def fst_with_log)
qed

text \<open>
  C6: a signature is accepted exactly when all of the following hold: the CA key blob consists
  of the type name, the fields of one supported key and nothing else; the algorithm the
  signature names is one that key may sign with (so never \<open>ssh-rsa\<close>, and never an algorithm of
  another key type); Ed25519 only where the known-answer probe passed; and OpenSSL, given the
  SubjectPublicKeyInfo of exactly that key and the digest of exactly that algorithm, reports
  success over exactly the signed bytes, with the signature's two numbers re-encoded for ECDSA,
  its 64 bytes for Ed25519 and the signature itself for RSA.
\<close>

theorem crypto_verify_ok_iff:
  "fst (ssoossh_crypto_verify ossl algo ca msg sig) = VERIFY_OK \<longleftrightarrow>
    (\<exists>k t x md d pkey sg.
      ca = put_str t @ x \<and> key_body k x \<and> t \<noteq> [] \<and> length t < 64 \<and> c_str t = key_type_of k \<and>
      sig_digest algo k = Some md \<and> key_usable ossl k \<and>
      spki_of k 2048 = Some d \<and> sig_to_check k sig = Some sg \<and>
      d2i_PUBKEY ossl d = Inr pkey \<and> EVP_MD_CTX_new ossl \<and>
      EVP_DigestVerifyInit ossl pkey md = Inr () \<and>
      fst (EVP_DigestVerify ossl pkey md sg msg) = 1)"
  by (rule crypto_verify_spec)

end
