(* ===== verification/Ssh_Key.thy ===== *)
theory Ssh_Key
  imports Crypto Base64
begin

text \<open>
  src/sshkey.c: the key blob this module sends, the authorized_keys line it is sent in, the
  fingerprint of the log lines, the line parser and the loader of trusted-ca-file.  A file is
  what \<open>fopen\<close> and \<open>fread\<close> make of it: absent, a read error, or its bytes.

  The lemmas: the line parser accepts exactly the lines of one shape, the line the module writes
  reads back as the blob it was written for, and the loader is the line parser applied to each
  line in turn until the list is full.
\<close>

section \<open>Keys as blobs and as lines\<close>

definition ssoossh_sshkey_blob_p384 :: "bytes \<Rightarrow> nat \<Rightarrow> bytes option" where
  "ssoossh_sshkey_blob_p384 point out_cap =
     (let w = ssh_wr_init out_cap;
          w = ssh_wr_cstr w (bs ''ecdsa-sha2-nistp384'');
          w = ssh_wr_cstr w (bs ''nistp384'');
          w = ssh_wr_str w point
      in if \<not> ssh_wr_ok w then None else Some (wr_buf w))"

definition blob_algo :: "bytes \<Rightarrow> nat \<Rightarrow> bytes option" where
  "blob_algo blob out_cap = fst (ssh_rd_cstr (ssh_rd_init blob) out_cap)"

definition ssoossh_sshkey_authorized_line :: "bytes \<Rightarrow> nat \<Rightarrow> bytes option" where
  "ssoossh_sshkey_authorized_line blob out_cap =
     (case blob_algo blob 64 of
        None \<Rightarrow> None
      | Some algo \<Rightarrow>
          if length algo + 2 \<ge> out_cap then None
          else
            (case ssoossh_b64_encode blob (out_cap - length algo - 1) of
               None \<Rightarrow> None
             | Some b64 \<Rightarrow>
                 let out = algo @ [ch (CHR '' '')] @ b64
                 in if length out + 2 > out_cap then None else Some (out @ [0x0a])))"

text \<open>A null or empty blob is the empty list.\<close>

definition ssoossh_sshkey_fingerprint :: "'k openssl \<Rightarrow> bytes \<Rightarrow> bytes" where
  "ssoossh_sshkey_fingerprint ossl blob =
     (if blob = [] then bs ''<none>''
      else
        (case ssoossh_crypto_sha256 ossl blob of
           None \<Rightarrow> bs ''<none>''
         | Some digest \<Rightarrow>
             (case ssoossh_b64_encode digest 64 of
                None \<Rightarrow> bs ''<none>''
              | Some b64 \<Rightarrow>
                  let b64 = rev (dropWhile (\<lambda>c. c = ch (CHR ''='')) (rev b64))
                  in if 7 + length b64 + 1 > 52 then bs ''<none>'' else bs ''SHA256:'' @ b64)))"

section \<open>The line parser\<close>

definition is_space :: "byte \<Rightarrow> bool" where
  "is_space c \<longleftrightarrow> c = 0x20 \<or> c = 0x09 \<or> c = 0x0d \<or> c = 0x0a"

text \<open>A blank line or a comment, anything malformed, or a blob with the type of its line.\<close>

datatype parsed_line = LineBlank | LineBad | LineKey (line_blob: bytes) (line_algo: bytes)

definition ssoossh_sshkey_parse_line :: "bytes \<Rightarrow> nat \<Rightarrow> nat \<Rightarrow> parsed_line" where
  "ssoossh_sshkey_parse_line line blob_cap algo_cap =
     (let line = dropWhile is_space line in
      if line = [] \<or> hd line = ch (CHR ''#'') then LineBlank
      else
        let type = takeWhile (\<lambda>c. \<not> is_space c) line;
            line = dropWhile (\<lambda>c. \<not> is_space c) line in
        if length type = 0 \<or> length type \<ge> algo_cap then LineBad
        else
          let line = dropWhile is_space line;
              b64 = takeWhile (\<lambda>c. \<not> is_space c) line in
          if length b64 = 0 then LineBad
          else
            (case ssoossh_b64_decode b64 blob_cap of
               None \<Rightarrow> LineBad
             | Some blob \<Rightarrow>
                 (case blob_algo blob 64 of
                    None \<Rightarrow> LineBad
                  | Some blob_type \<Rightarrow>
                      if c_str type \<noteq> blob_type then LineBad else LineKey blob (c_str type))))"

section \<open>The CA file\<close>

datatype file_read = FileAbsent | FileError | FileData bytes

record ca_key =
  ca_blob :: bytes
  ca_algo :: bytes

record ca_list =
  ca_keys :: "ca_key list"
  ca_skipped :: nat

datatype ssoossh_ca_status = CA_OK | CA_UNREADABLE | CA_MALFORMED | CA_NONE_USABLE

definition MAX_CA_FILE :: nat where "MAX_CA_FILE = 32 * 1024"
definition SSOOSSH_MAX_KEY_BLOB :: nat where "SSOOSSH_MAX_KEY_BLOB = 2048"
definition SSOOSSH_MAX_CAS :: nat where "SSOOSSH_MAX_CAS = 32"

text \<open>The verdict on the whole file once the lines are done with.\<close>

definition ca_finish :: "ca_list \<Rightarrow> log_line list \<Rightarrow> ssoossh_ca_status \<times> ca_list \<times> log_line list" where
  "ca_finish out logs = (if ca_keys out = [] then CA_NONE_USABLE else CA_OK, out, logs)"

text \<open>
  The loop over the buffer: \<open>buf\<close> is what is left from \<open>pos\<close> on.  The source goes round once
  more after a final newline, with an empty line; \<open>pos \<le> n\<close> is then the question whether this
  line ended in a newline.
\<close>

function ca_load_loop ::
  "'k openssl \<Rightarrow> bytes \<Rightarrow> bytes \<Rightarrow> nat \<Rightarrow> ca_list \<Rightarrow> log_line list \<Rightarrow>
     ssoossh_ca_status \<times> ca_list \<times> log_line list" where
  "ca_load_loop ossl path buf line_no out logs =
     (let line = takeWhile (\<lambda>c. c \<noteq> 0x0a) buf;
          rest = dropWhile (\<lambda>c. c \<noteq> 0x0a) buf;
          line_no = line_no + 1;
          next = (\<lambda>out logs. if rest = [] then ca_finish out logs
                   else ca_load_loop ossl path (tl rest) line_no out logs)
      in if line = [] then next out logs
         else
           (case ssoossh_sshkey_parse_line line SSOOSSH_MAX_KEY_BLOB 64 of
              LineBlank \<Rightarrow> next out logs
            | LineBad \<Rightarrow>
                (CA_MALFORMED, out,
                 logs @ [ssoossh_errf ''trusted CA file %s line %zu is not a valid key''
                           [AStr path, ANum (int line_no)]])
            | LineKey blob algo \<Rightarrow>
                if \<not> ssoossh_crypto_supports_key ossl algo then
                  next (out\<lparr>ca_skipped := ca_skipped out + 1\<rparr>)
                    (logs @ [ssoossh_warnf ''trusted CA file %s line %zu uses %s, which this build's crypto backend cannot verify; skipping it''
                       [AStr path, ANum (int line_no), AStr algo]])
                else if length (ca_keys out) \<ge> SSOOSSH_MAX_CAS then
                  ca_finish out
                    (logs @ [ssoossh_warnf ''trusted CA file %s holds more than %d keys; ignoring the rest from line %zu''
                       [AStr path, ANum (int SSOOSSH_MAX_CAS), ANum (int line_no)]])
                else next (out\<lparr>ca_keys := ca_keys out @ [\<lparr>ca_blob = blob, ca_algo = algo\<rparr>]\<rparr>) logs))"
  by pat_completeness auto
termination
  by (relation "measure (\<lambda>(ossl, path, buf, line_no, out, logs). length buf)")
    (simp_all add: length_tl_dropWhile del: length_tl dropWhile_eq_Nil_conv)

declare ca_load_loop.simps [simp del]

definition ssoossh_ca_load ::
  "'k openssl \<Rightarrow> bytes \<Rightarrow> file_read \<Rightarrow> ssoossh_ca_status \<times> ca_list \<times> log_line list" where
  "ssoossh_ca_load ossl path file =
     (let out = \<lparr>ca_keys = [], ca_skipped = 0\<rparr> in
      case file of
        FileAbsent \<Rightarrow> (CA_UNREADABLE, out, [])
      | FileError \<Rightarrow> (CA_UNREADABLE, out, [])
      | FileData content \<Rightarrow>
          let buf = take MAX_CA_FILE content in
          if length buf \<ge> MAX_CA_FILE then
            (CA_MALFORMED, out,
             [ssoossh_errf ''trusted CA file %s is larger than %d bytes''
                [AStr path, ANum (int MAX_CA_FILE)]])
          else ca_load_loop ossl path buf 0 out [])"

section \<open>The shape of a line\<close>

lemma blob_algo_Some:
  "blob_algo blob cap = Some s \<longleftrightarrow>
    (\<exists>t q. blob = put_str t @ q \<and> length t < 2 ^ 32 \<and> t \<noteq> [] \<and> length t < cap \<and> s = c_str t)"
proof -
  have "blob_algo blob cap = Some s \<longleftrightarrow> (\<exists>r. ssh_rd_cstr (cur [] blob) cap = (Some s, r))"
    by (cases "ssh_rd_cstr (cur [] blob) cap") (auto simp: blob_algo_def cur_init)
  then show ?thesis unfolding cstr_cur_Some by auto
qed

definition spaces :: "bytes \<Rightarrow> bool" where
  "spaces s \<longleftrightarrow> list_all is_space s"

definition word_of :: "bytes \<Rightarrow> bool" where
  "word_of s \<longleftrightarrow> s \<noteq> [] \<and> list_all (\<lambda>c. \<not> is_space c) s"

definition ends_word :: "bytes \<Rightarrow> bool" where
  "ends_word r \<longleftrightarrow> r = [] \<or> is_space (hd r)"

lemma skip_spaces: "spaces s \<Longrightarrow> word_of w \<Longrightarrow> dropWhile is_space (s @ w @ r) = w @ r"
  by (cases w) (auto simp: spaces_def word_of_def list_all_iff dropWhile_append3 intro!: dropWhile_append2)

lemma take_word: "word_of w \<Longrightarrow> ends_word r \<Longrightarrow>
    takeWhile (\<lambda>c. \<not> is_space c) (w @ r) = w \<and> dropWhile (\<lambda>c. \<not> is_space c) (w @ r) = r"
  by (cases r) (auto simp: word_of_def ends_word_def list_all_iff)

lemma split_word:
  obtains s w r where "x = s @ w @ r" "spaces s" "ends_word r" "list_all (\<lambda>c. \<not> is_space c) w"
    "w = [] \<longrightarrow> r = []"
    "dropWhile is_space x = w @ r" "takeWhile (\<lambda>c. \<not> is_space c) (w @ r) = w"
    "dropWhile (\<lambda>c. \<not> is_space c) (w @ r) = r"
proof
  let ?y = "dropWhile is_space x"
  let ?w = "takeWhile (\<lambda>c. \<not> is_space c) ?y" and ?r = "dropWhile (\<lambda>c. \<not> is_space c) ?y"
  show "x = takeWhile is_space x @ ?w @ ?r" by simp
  show "spaces (takeWhile is_space x)" by (auto simp: spaces_def list_all_iff dest: set_takeWhileD)
  show "list_all (\<lambda>c. \<not> is_space c) ?w" unfolding list_all_iff using set_takeWhileD by fast
  show "ends_word ?r" using hd_dropWhile [of "\<lambda>c. \<not> is_space c" ?y] by (auto simp: ends_word_def)
  show "?w = [] \<longrightarrow> ?r = []"
  proof (cases ?y)
    case Nil
    then show ?thesis by (simp only: dropWhile.simps simp_thms)
  next
    case (Cons a l)
    then have "\<not> is_space a" by (rule dropWhile_neq_Nil_hd)
    with Cons show ?thesis by simp
  qed
qed simp_all

lemma parse_line_shape:
  "ssoossh_sshkey_parse_line line blob_cap algo_cap = LineKey blob algo \<longleftrightarrow>
    (\<exists>s1 type s2 b64 r.
      line = s1 @ type @ s2 @ b64 @ r \<and> spaces s1 \<and> word_of type \<and> hd type \<noteq> ch (CHR ''#'') \<and>
      s2 \<noteq> [] \<and> spaces s2 \<and> word_of b64 \<and> ends_word r \<and> length type < algo_cap \<and>
      b64 = b64_encode_loop blob \<and> length blob \<le> blob_cap \<and>
      algo = c_str type \<and> blob_algo blob 64 = Some algo)"
  (is "?parse \<longleftrightarrow> ?shape")
proof
  assume parse: ?parse
  obtain s1 type r1 where 1: "line = s1 @ type @ r1" "spaces s1" "ends_word r1"
      "list_all (\<lambda>c. \<not> is_space c) type" "type = [] \<longrightarrow> r1 = []"
      "dropWhile is_space line = type @ r1" "takeWhile (\<lambda>c. \<not> is_space c) (type @ r1) = type"
      "dropWhile (\<lambda>c. \<not> is_space c) (type @ r1) = r1"
    by (rule split_word [of line])
  obtain s2 b64 r2 where 2: "r1 = s2 @ b64 @ r2" "spaces s2" "ends_word r2"
      "list_all (\<lambda>c. \<not> is_space c) b64" "b64 = [] \<longrightarrow> r2 = []"
      "dropWhile is_space r1 = b64 @ r2" "takeWhile (\<lambda>c. \<not> is_space c) (b64 @ r2) = b64"
      "dropWhile (\<lambda>c. \<not> is_space c) (b64 @ r2) = r2"
    by (rule split_word [of r1])
  have facts: "type @ r1 \<noteq> []" "hd (type @ r1) \<noteq> ch (CHR ''#'')" "type \<noteq> []" "length type < algo_cap"
      "b64 \<noteq> []" "ssoossh_b64_decode b64 blob_cap = Some blob" "blob_algo blob 64 = Some algo"
      "algo = c_str type"
    using parse
    by (auto simp: ssoossh_sshkey_parse_line_def Let_def 1(6-8) 2(6-8) split: if_splits option.splits)
  have "s2 \<noteq> []"
    using 1(3) 2(1,4) facts(5) by (cases b64) (auto simp: ends_word_def)
  moreover have "b64 = b64_encode_loop blob" "length blob \<le> blob_cap"
    using b64.dec_iff [of b64 blob_cap blob] facts(6) by simp_all
  moreover have "line = s1 @ type @ s2 @ b64 @ r2" "word_of type" "word_of b64" "hd type \<noteq> ch (CHR ''#'')"
    using 1(1,4) 2(1,4) facts(2,3,5) by (simp_all add: word_of_def)
  ultimately show ?shape using 1(2) 2(2,3) facts(4,7,8) by blast
next
  assume ?shape
  then obtain s1 type s2 b64 r where *:
      "line = s1 @ type @ s2 @ b64 @ r" "spaces s1" "word_of type" "hd type \<noteq> ch (CHR ''#'')"
      "s2 \<noteq> []" "spaces s2" "word_of b64" "ends_word r" "length type < algo_cap"
      "b64 = b64_encode_loop blob" "length blob \<le> blob_cap" "algo = c_str type"
      "blob_algo blob 64 = Some algo"
    by blast
  have "ends_word (s2 @ b64 @ r)" using *(5,6) by (cases s2) (auto simp: ends_word_def spaces_def)
  with * have t: "takeWhile (\<lambda>c. \<not> is_space c) (type @ s2 @ b64 @ r) = type"
      "dropWhile (\<lambda>c. \<not> is_space c) (type @ s2 @ b64 @ r) = s2 @ b64 @ r"
    by (simp_all only: take_word)
  have u: "takeWhile (\<lambda>c. \<not> is_space c) (b64 @ r) = b64"
    using take_word [of b64 r] * by blast
  have d: "dropWhile is_space line = type @ s2 @ b64 @ r" "dropWhile is_space (s2 @ b64 @ r) = b64 @ r"
    using skip_spaces [of s1 type] skip_spaces [of s2 b64 r] * by blast+
  have dec: "ssoossh_b64_decode b64 blob_cap = Some blob"
    using b64.dec_iff [of b64 blob_cap blob] * by simp
  have ne: "type \<noteq> []" "b64 \<noteq> []" using * by (simp_all add: word_of_def)
  show ?parse
    using *(4,9,12,13) ne dec unfolding ssoossh_sshkey_parse_line_def Let_def d t u
    by simp
qed

text \<open>
  C30: the line parser is exact.  It returns a key exactly for a line that is some white space, a
  type field that does not start with \<open>#\<close>, white space, the one base64 spelling of the blob, and
  nothing or white space and a comment; the blob must fit, and the type the line names must be the
  type the blob names.
\<close>

theorem parse_line_key_iff:
  "ssoossh_sshkey_parse_line line blob_cap algo_cap = LineKey blob algo \<longleftrightarrow>
    (\<exists>s1 type s2 b64 r.
      line = s1 @ type @ s2 @ b64 @ r \<and> spaces s1 \<and> word_of type \<and> hd type \<noteq> ch (CHR ''#'') \<and>
      s2 \<noteq> [] \<and> spaces s2 \<and> word_of b64 \<and> ends_word r \<and> length type < algo_cap \<and>
      b64 = b64_encode_loop blob \<and> length blob \<le> blob_cap \<and>
      algo = c_str type \<and> blob_algo blob 64 = Some algo)"
  by (rule parse_line_shape)

theorem parse_line_key_iff_witness:
  "ssoossh_sshkey_parse_line (bs '' k AAAAAWs= me'') 8 64 = LineKey [0, 0, 0, 1, 107] (bs ''k'')"
proof -
  have "b64_encode_loop [0, 0, 0, 1, 107] = bs ''AAAAAWs=''" by code_simp
  moreover have "blob_algo [0, 0, 0, 1, 107] 64 = Some (bs ''k'')" by code_simp
  ultimately show ?thesis
    unfolding parse_line_key_iff
    by (intro exI [of _ "bs '' ''"] exI [of _ "bs ''k''"] exI [of _ "bs ''AAAAAWs=''"] exI [of _ "bs '' me''"])
      (simp add: spaces_def word_of_def ends_word_def is_space_def c_str_def)
qed

section \<open>Writing a line and reading it back\<close>

lemma b64_no_space: "c \<in> set (b64_encode_loop x) \<Longrightarrow> \<not> is_space c"
  using b64_encode_chars [of x] by (auto simp: alphabet_def is_space_def)

lemma b64_word: "x \<noteq> [] \<Longrightarrow> word_of (b64_encode_loop x)"
  using length_b64_encode [of x] b64_no_space [of _ x]
  by (cases x) (auto simp: word_of_def list_all_iff)

lemma authorized_line_Some:
  "ssoossh_sshkey_authorized_line blob cap = Some line \<longleftrightarrow>
    (\<exists>algo. blob_algo blob 64 = Some algo \<and> line = algo @ [0x20] @ b64_encode_loop blob @ [0x0a] \<and>
      length line < cap)"
  by (auto simp: ssoossh_sshkey_authorized_line_def ssoossh_b64_encode_def Let_def length_b64_encode
      split: option.splits if_splits)

lemma authorized_line_parses:
  assumes line: "ssoossh_sshkey_authorized_line blob cap = Some line"
    and algo: "blob_algo blob 64 = Some algo" "word_of algo" "hd algo \<noteq> ch (CHR ''#'')" "length algo < algo_cap"
    and len: "length blob \<le> blob_cap"
  shows "ssoossh_sshkey_parse_line line blob_cap algo_cap = LineKey blob algo"
proof -
  have l: "line = [] @ algo @ [0x20] @ b64_encode_loop blob @ [0x0a]"
    using line algo(1) by (auto simp: authorized_line_Some)
  have "blob \<noteq> []" using algo(1) by (auto simp: blob_algo_Some put_str_def u32_bytes_def)
  then have "word_of (b64_encode_loop blob)" by (rule b64_word)
  moreover have "c_str algo = algo" using algo(1) by (auto simp: blob_algo_Some)
  ultimately show ?thesis
    unfolding parse_line_shape using l algo len
    by (intro exI [of _ "[]"] exI [of _ algo] exI [of _ "[0x20]"] exI [of _ "b64_encode_loop blob"]
        exI [of _ "[0x0a]"] conjI)
      (simp_all add: spaces_def ends_word_def is_space_def)
qed

definition p384_name :: bytes where
  "p384_name = bs ''ecdsa-sha2-nistp384''"

lemma p384_name: "c_str p384_name = p384_name" "word_of p384_name" "hd p384_name \<noteq> ch (CHR ''#'')"
  "p384_name = key_type_of (EcKey CURVE_P384 p)" "length p384_name = 19"
  by (simp_all add: p384_name_def c_str_def word_of_def is_space_def curve_names)

lemma blob_p384_Some:
  "ssoossh_sshkey_blob_p384 point cap = Some blob \<longleftrightarrow>
    blob = put_str p384_name @ put_str (curve_name CURVE_P384) @ put_str point \<and>
    length point < 2 ^ 32 \<and> length blob \<le> cap"
proof -
  let ?ps = "[p384_name, curve_name CURVE_P384, point]"
  have "ssoossh_sshkey_blob_p384 point cap =
      (if \<not> ssh_wr_ok (foldl ssh_wr_str (ssh_wr_init cap) ?ps) then None
       else Some (wr_buf (foldl ssh_wr_str (ssh_wr_init cap) ?ps)))"
    by (simp add: ssoossh_sshkey_blob_p384_def Let_def ssh_wr_cstr_def p384_name_def curve_names c_str_def)
  then show ?thesis
    using wr_str.puts_ok [of "ssh_wr_init cap" ?ps] wr_str.puts_out [of "ssh_wr_init cap" ?ps]
      p384_name(5) curve_names(3)
    by (auto simp: curve_names)
qed

text \<open>
  C31: the key this module sends survives the trip.  The authorized_keys line written for a P-384
  point, read back by the line parser, is the same blob under the name
  \<open>ecdsa-sha2-nistp384\<close>, and that blob is read as the P-384 key of exactly that point.
\<close>

theorem own_key_roundtrip:
  assumes "ssoossh_sshkey_blob_p384 point cap = Some blob"
    and "ssoossh_sshkey_authorized_line blob line_cap = Some line"
    and "length blob \<le> blob_cap"
  shows "ssoossh_sshkey_parse_line line blob_cap 64 = LineKey blob (bs ''ecdsa-sha2-nistp384'') \<and>
    (\<forall>out_cap. spki_from_ssh_key blob out_cap 64 =
      map_option (\<lambda>d. (d, bs ''ecdsa-sha2-nistp384'')) (ssoossh_der_spki_ec CURVE_P384 point out_cap))"
proof
  let ?name = "bs ''ecdsa-sha2-nistp384''"
  have blob: "blob = put_str p384_name @ put_str (curve_name CURVE_P384) @ put_str point"
    "length point < 2 ^ 32"
    using assms(1) by (simp_all only: blob_p384_Some)
  have "blob_algo blob 64 = Some p384_name"
    unfolding blob_algo_Some using blob p384_name
    by (intro exI [of _ p384_name] exI [of _ "put_str (curve_name CURVE_P384) @ put_str point"])
      (auto simp: word_of_def)
  from authorized_line_parses [OF assms(2) this _ _ _ assms(3), of 64]
  show "ssoossh_sshkey_parse_line line blob_cap 64 = LineKey blob ?name"
    using p384_name by (simp add: p384_name_def)
  show "\<forall>out_cap. spki_from_ssh_key blob out_cap 64 =
      map_option (\<lambda>d. (d, ?name)) (ssoossh_der_spki_ec CURVE_P384 point out_cap)"
  proof
    fix out_cap
    have r: "ssh_rd_cstr (cur [] blob) 64 =
        (Some p384_name, cur ([] @ put_str p384_name) (put_str (curve_name CURVE_P384) @ put_str point))"
      unfolding cstr_cur_Some using blob p384_name
      by (intro exI [of _ p384_name] exI [of _ "put_str (curve_name CURVE_P384) @ put_str point"])
        (auto simp: word_of_def)
    have f: "two_fields (cur ([] @ put_str p384_name) (put_str (curve_name CURVE_P384) @ put_str point)) =
        Some (curve_name CURVE_P384, point)"
      unfolding two_fields_Some using blob(2) by (simp add: curve_names)
    have n: "p384_name = bs ''ecdsa-sha2-'' @ curve_name CURVE_P384" using p384_name(4) by simp
    have t: "spki_of_type p384_name
        (cur ([] @ put_str p384_name) (put_str (curve_name CURVE_P384) @ put_str point)) out_cap =
        ssoossh_der_spki_ec CURVE_P384 point out_cap"
      unfolding n spki_of_type_ec using f [unfolded n] by simp
    have "spki_from_ssh_key blob out_cap 64 =
        (case ssoossh_der_spki_ec CURVE_P384 point out_cap of None \<Rightarrow> None | Some d \<Rightarrow> Some (d, p384_name))"
      by (simp only: spki_from_ssh_key_def cur_init r prod.case option.case t)
    then show "spki_from_ssh_key blob out_cap 64 =
        map_option (\<lambda>d. (d, ?name)) (ssoossh_der_spki_ec CURVE_P384 point out_cap)"
      by (cases "ssoossh_der_spki_ec CURVE_P384 point out_cap") (simp_all only: p384_name_def option.case option.map)
  qed
qed


theorem own_key_roundtrip_witness:
  "ssoossh_sshkey_blob_p384 [4, 1, 2] 64 =
     Some (put_str (bs ''ecdsa-sha2-nistp384'') @ put_str (bs ''nistp384'') @ put_str [4, 1, 2]) \<and>
   ssoossh_sshkey_authorized_line
     (put_str (bs ''ecdsa-sha2-nistp384'') @ put_str (bs ''nistp384'') @ put_str [4, 1, 2]) 128 =
     Some (bs ''ecdsa-sha2-nistp384 AAAAE2VjZHNhLXNoYTItbmlzdHAzODQAAAAIbmlzdHAzODQAAAADBAEC'' @ [10]) \<and>
   ssoossh_sshkey_parse_line
     (bs ''ecdsa-sha2-nistp384 AAAAE2VjZHNhLXNoYTItbmlzdHAzODQAAAAIbmlzdHAzODQAAAADBAEC'' @ [10]) 64 64 =
     LineKey (put_str (bs ''ecdsa-sha2-nistp384'') @ put_str (bs ''nistp384'') @ put_str [4, 1, 2])
       (bs ''ecdsa-sha2-nistp384'')"
proof -
  let ?blob = "put_str (bs ''ecdsa-sha2-nistp384'') @ put_str (bs ''nistp384'') @ put_str [4, 1, 2]"
  let ?line = "bs ''ecdsa-sha2-nistp384 AAAAE2VjZHNhLXNoYTItbmlzdHAzODQAAAAIbmlzdHAzODQAAAADBAEC'' @ [10]"
  have 1: "ssoossh_sshkey_blob_p384 [4, 1, 2] 64 = Some ?blob"
    by (simp add: blob_p384_Some p384_name_def curve_names)
  have "?blob = [0, 0, 0, 19, 101, 99, 100, 115, 97, 45, 115, 104, 97, 50, 45, 110, 105, 115, 116, 112,
      51, 56, 52, 0, 0, 0, 8, 110, 105, 115, 116, 112, 51, 56, 52, 0, 0, 0, 3, 4, 1, 2]"
    by (simp add: put_str_def u32_bytes_def)
  moreover have "b64_encode_loop [0, 0, 0, 19, 101, 99, 100, 115, 97, 45, 115, 104, 97, 50, 45, 110, 105,
      115, 116, 112, 51, 56, 52, 0, 0, 0, 8, 110, 105, 115, 116, 112, 51, 56, 52, 0, 0, 0, 3, 4, 1, 2] =
      [65, 65, 65, 65, 69, 50, 86, 106, 90, 72, 78, 104, 76, 88, 78, 111, 89, 84, 73, 116, 98, 109, 108,
       122, 100, 72, 65, 122, 79, 68, 81, 65, 65, 65, 65, 73, 98, 109, 108, 122, 100, 72, 65, 122, 79, 68,
       81, 65, 65, 65, 65, 68, 66, 65, 69, 67]"
    by code_simp
  ultimately have b64: "b64_encode_loop ?blob =
      bs ''AAAAE2VjZHNhLXNoYTItbmlzdHAzODQAAAAIbmlzdHAzODQAAAADBAEC''" by simp
  have "blob_algo ?blob 64 = Some p384_name"
    unfolding blob_algo_Some using p384_name
    by (intro exI [of _ p384_name] exI [of _ "put_str (bs ''nistp384'') @ put_str [4, 1, 2]"])
      (auto simp: p384_name_def)
  then have 2: "ssoossh_sshkey_authorized_line ?blob 128 = Some ?line"
    unfolding authorized_line_Some b64 by (simp add: p384_name_def)
  show ?thesis
    using own_key_roundtrip [OF 1 2, of 64] 1 2 by simp
qed


section \<open>The CA file, line by line\<close>

definition ca_entry :: "bytes \<Rightarrow> parsed_line" where
  "ca_entry line = ssoossh_sshkey_parse_line line SSOOSSH_MAX_KEY_BLOB 64"

lemma ca_entry_empty: "ca_entry [] = LineBlank"
  by (simp add: ca_entry_def ssoossh_sshkey_parse_line_def)

fun usable :: "'k openssl \<Rightarrow> parsed_line \<Rightarrow> ca_key list" where
  "usable ossl (LineKey b a) =
     (if ssoossh_crypto_supports_key ossl a then [\<lparr>ca_blob = b, ca_algo = a\<rparr>] else [])"
| "usable ossl _ = []"

definition usable_keys :: "'k openssl \<Rightarrow> parsed_line list \<Rightarrow> ca_key list" where
  "usable_keys ossl es = concat (map (usable ossl) es)"

lemma usable_keys_simps [simp]:
  "usable_keys ossl [] = []" "usable_keys ossl (e # es) = usable ossl e @ usable_keys ossl es"
  by (simp_all add: usable_keys_def)

text \<open>The first malformed line stops the load, unless the list was full before it.\<close>

definition bad_line_reached :: "'k openssl \<Rightarrow> nat \<Rightarrow> parsed_line list \<Rightarrow> bool" where
  "bad_line_reached ossl have es \<longleftrightarrow>
     (\<exists>pre post. es = pre @ LineBad # post \<and> LineBad \<notin> set pre \<and>
        have + length (usable_keys ossl pre) \<le> SSOOSSH_MAX_CAS)"

lemma bad_line_reached_simps:
  "\<not> bad_line_reached ossl n []"
  "n \<le> SSOOSSH_MAX_CAS \<Longrightarrow> bad_line_reached ossl n (LineBad # es)"
  "e \<noteq> LineBad \<Longrightarrow>
    bad_line_reached ossl n (e # es) \<longleftrightarrow> bad_line_reached ossl (n + length (usable ossl e)) es"
  by (fastforce simp: bad_line_reached_def Cons_eq_append_conv)+

lemma bad_line_not_reached: "SSOOSSH_MAX_CAS < n \<Longrightarrow> \<not> bad_line_reached ossl n es"
  by (auto simp: bad_line_reached_def)

definition ca_result :: "'k openssl \<Rightarrow> ca_list \<Rightarrow> parsed_line list \<Rightarrow>
    ssoossh_ca_status \<times> ca_list \<times> log_line list \<Rightarrow> bool" where
  "ca_result ossl out es res \<longleftrightarrow>
     (if bad_line_reached ossl (length (ca_keys out)) es then fst res = CA_MALFORMED
      else
        ca_keys (fst (snd res)) = take SSOOSSH_MAX_CAS (ca_keys out @ usable_keys ossl es) \<and>
        fst res = (if ca_keys out @ usable_keys ossl es = [] then CA_NONE_USABLE else CA_OK))"

lemma ca_result_skip:
  "e \<noteq> LineBad \<Longrightarrow> usable ossl e = [] \<Longrightarrow> ca_keys out' = ca_keys out \<Longrightarrow>
    ca_result ossl out' es res \<Longrightarrow> ca_result ossl out (e # es) res"
  by (simp add: ca_result_def bad_line_reached_simps)

lemma ca_result_store:
  "usable ossl e = [k] \<Longrightarrow> e \<noteq> LineBad \<Longrightarrow> ca_keys out' = ca_keys out @ [k] \<Longrightarrow>
    ca_result ossl out' es res \<Longrightarrow> ca_result ossl out (e # es) res"
  by (simp add: ca_result_def bad_line_reached_simps)

lemma ca_result_full:
  "usable ossl e = [k] \<Longrightarrow> e \<noteq> LineBad \<Longrightarrow> length (ca_keys out) = SSOOSSH_MAX_CAS \<Longrightarrow>
    ca_result ossl out (e # es) (ca_finish out logs)"
  by (auto simp add: ca_result_def bad_line_reached_simps bad_line_not_reached ca_finish_def
      SSOOSSH_MAX_CAS_def)

lemma ca_load_loop_lines:
  "length (ca_keys out) \<le> SSOOSSH_MAX_CAS \<Longrightarrow>
    ca_result ossl out (map ca_entry (split_lines buf)) (ca_load_loop ossl path buf line_no out logs)"
proof (induction "0x0a :: byte" buf arbitrary: line_no out logs rule: split_on.induct)
  case (1 buf)
  note len = 1(2)
  define line rest where "line = takeWhile (\<lambda>c. c \<noteq> 0x0a) buf" and "rest = dropWhile (\<lambda>c. c \<noteq> 0x0a) buf"
  define es where "es = (if rest = [] then [] else map ca_entry (split_lines (tl rest)))"
  define cont where "cont = (\<lambda>out logs. if rest = [] then ca_finish out logs
      else ca_load_loop ossl path (tl rest) (line_no + 1) out logs)"
  have lines: "map ca_entry (split_lines buf) = ca_entry line # es"
    by (subst split_on.simps) (simp add: Let_def line_def rest_def es_def del: dropWhile_eq_Nil_conv)
  have nxt: "ca_result ossl out es (cont out logs)" if "length (ca_keys out) \<le> SSOOSSH_MAX_CAS" for out logs
  proof (cases "rest = []")
    case True
    then show ?thesis
      using that by (simp add: es_def cont_def ca_result_def ca_finish_def bad_line_reached_simps)
  next
    case False
    then have "ca_result ossl out (map ca_entry (split_lines (tl rest)))
        (ca_load_loop ossl path (tl rest) (line_no + 1) out logs)"
      unfolding rest_def by (rule 1(1) [OF refl _ that])
    with False show ?thesis by (simp add: es_def cont_def)
  qed
  note step = ca_load_loop.simps [of ossl path buf line_no out logs, unfolded Let_def,
      folded ca_entry_def line_def rest_def cont_def]
  show ?case
  proof (cases "ca_entry line")
    case LineBlank
    then have "ca_load_loop ossl path buf line_no out logs = cont out logs"
      unfolding step by (simp add: cont_def)
    with nxt [OF len, of logs] LineBlank show ?thesis
      by (simp add: lines ca_result_skip)
  next
    case LineBad
    then have "line \<noteq> []" using ca_entry_empty by auto
    with LineBad len show ?thesis
      unfolding step lines by (simp add: ca_result_def bad_line_reached_simps)
  next
    case (LineKey b a)
    then have ne: "line \<noteq> []" using ca_entry_empty by auto
    let ?k = "\<lparr>ca_blob = b, ca_algo = a\<rparr>"
    consider "\<not> ssoossh_crypto_supports_key ossl a"
      | "ssoossh_crypto_supports_key ossl a" "SSOOSSH_MAX_CAS \<le> length (ca_keys out)"
      | "ssoossh_crypto_supports_key ossl a" "length (ca_keys out) < SSOOSSH_MAX_CAS" by linarith
    then show ?thesis
    proof cases
      case 1
      with ne LineKey have
        "\<exists>logs'. ca_load_loop ossl path buf line_no out logs = cont (out\<lparr>ca_skipped := ca_skipped out + 1\<rparr>) logs'"
        unfolding step by (cases "rest = []") (auto simp: cont_def)
      moreover have "ca_result ossl (out\<lparr>ca_skipped := ca_skipped out + 1\<rparr>) es
          (cont (out\<lparr>ca_skipped := ca_skipped out + 1\<rparr>) logs')" for logs'
        using len by (intro nxt) simp
      ultimately have "ca_result ossl (out\<lparr>ca_skipped := ca_skipped out + 1\<rparr>) es
          (ca_load_loop ossl path buf line_no out logs)" by metis
      then show ?thesis
        unfolding lines using LineKey 1 by (intro ca_result_skip [where out' = "out\<lparr>ca_skipped := ca_skipped out + 1\<rparr>"]) simp_all
    next
      case 2
      then obtain logs' where "ca_load_loop ossl path buf line_no out logs = ca_finish out logs'"
        unfolding step using ne LineKey by simp
      with 2 LineKey len show ?thesis
        unfolding lines by (simp add: ca_result_full)
    next
      case 3
      let ?out = "out\<lparr>ca_keys := ca_keys out @ [?k]\<rparr>"
      have "ca_load_loop ossl path buf line_no out logs = cont ?out logs"
        unfolding step using 3 ne LineKey by (simp add: cont_def)
      moreover have "ca_result ossl ?out es (cont ?out logs)"
        using 3 by (intro nxt) simp
      ultimately show ?thesis
        unfolding lines using LineKey 3 by (intro ca_result_store [where out' = ?out and k = ?k]) simp_all
    qed
  qed
qed


lemma ca_load_described:
  "case ssoossh_ca_load ossl path source of (status, out, logs) \<Rightarrow>
     (case source of
        FileData content \<Rightarrow>
          (let entries = map ca_entry (split_lines content) in
           if MAX_CA_FILE \<le> length content then status = CA_MALFORMED \<and> ca_keys out = []
           else if bad_line_reached ossl 0 entries then status = CA_MALFORMED
           else ca_keys out = take SSOOSSH_MAX_CAS (usable_keys ossl entries) \<and>
             status = (if usable_keys ossl entries = [] then CA_NONE_USABLE else CA_OK))
      | _ \<Rightarrow> status = CA_UNREADABLE \<and> ca_keys out = [])"
proof (cases source)
  case (FileData content)
  show ?thesis
  proof (cases "MAX_CA_FILE \<le> length content")
    case True
    with FileData show ?thesis by (simp add: ssoossh_ca_load_def Let_def)
  next
    case False
    let ?out = "\<lparr>ca_keys = [], ca_skipped = 0\<rparr>"
    have "ca_result ossl ?out (map ca_entry (split_lines content))
        (ca_load_loop ossl path content 0 ?out [])"
      by (rule ca_load_loop_lines) simp
    with False FileData show ?thesis
      by (auto simp: ssoossh_ca_load_def Let_def ca_result_def split: if_splits prod.splits)
  qed
qed (simp_all add: ssoossh_ca_load_def)


text \<open>A trusted key is the blob of a line of the file, of a supported type.\<close>

lemma usable_keys_mem:
  "k \<in> set (usable_keys ossl es) \<longleftrightarrow>
    LineKey (ca_blob k) (ca_algo k) \<in> set es \<and> ssoossh_crypto_supports_key ossl (ca_algo k)"
proof (induction es)
  case (Cons e es)
  then show ?case by (cases k; cases e) auto
qed simp

end
