(* ===== verification/Ssh_Cert.thy ===== *)
theory Ssh_Cert
  imports Ssh_Key
begin

text \<open>
  src/sshcert.c: the single pass over an OpenSSH certificate.  A parsed certificate is a record of
  the fields the source keeps; a borrowed slice is the bytes it points at, and \<open>cert_blob\<close> with
  \<open>cert_signed_len\<close> are the bytes the signature covers.  A parse gives a status other than OK, or
  the certificate.

  The lemmas read the parser backwards: it accepts exactly the byte strings of the certificate
  grammar, nothing before, between or after the fields.
\<close>

section \<open>Certificates\<close>

definition SSOOSSH_MAX_CERT :: nat where "SSOOSSH_MAX_CERT = 32 * 1024"
definition SSOOSSH_MAX_PRINCIPALS :: nat where "SSOOSSH_MAX_PRINCIPALS = 64"

record ssoossh_cert =
  cert_algo :: bytes
  cert_key_blob :: bytes
  cert_serial :: "64 word"
  cert_type :: "32 word"
  cert_key_id :: bytes
  cert_principals :: "bytes list"
  cert_valid_after :: "64 word"
  cert_valid_before :: "64 word"
  cert_signature_key :: bytes
  cert_signature_algo :: bytes
  cert_signature :: bytes
  cert_signed_len :: nat
  cert_blob :: bytes

datatype ssoossh_cert_status = CERT_MALFORMED | CERT_UNSUPPORTED | CERT_NOT_USER

definition CERT_SUFFIX :: bytes where
  "CERT_SUFFIX = bs ''-cert-v01@openssh.com''"

definition base_algo :: "bytes \<Rightarrow> nat \<Rightarrow> bytes option" where
  "base_algo algo out_cap =
     (let n = length algo; suffix = length CERT_SUFFIX in
      if n \<le> suffix \<or> drop (n - suffix) algo \<noteq> CERT_SUFFIX then None
      else if n - suffix \<ge> out_cap then None
      else Some (take (n - suffix) algo))"

definition key_field_count :: "bytes \<Rightarrow> nat" where
  "key_field_count base =
     (if base = bs ''ssh-ed25519'' then 1
      else if base = bs ''ssh-rsa'' \<or> base = bs ''ecdsa-sha2-nistp256'' \<or>
              base = bs ''ecdsa-sha2-nistp384'' \<or> base = bs ''ecdsa-sha2-nistp521'' then 2
      else 0)"

function parse_principals_loop :: "ssh_rd \<Rightarrow> bytes list \<Rightarrow> bytes list option" where
  "parse_principals_loop r out =
     (if ssh_rd_done r then (if ssh_rd_ok r then Some out else None)
      else
        (case ssh_rd_str r of
           (None, r) \<Rightarrow> None
         | (Some name, r) \<Rightarrow>
             if length out \<ge> SSOOSSH_MAX_PRINCIPALS then None
             else parse_principals_loop r (out @ [name])))"
  by pat_completeness auto

lemma ssh_rd_str_advances:
  "ssh_rd_str r = (Some p, r') \<Longrightarrow>
    length (rd_buf r') - rd_pos r' < length (rd_buf r) - rd_pos r"
  by (auto simp: ssh_rd_str_def ssh_rd_u32_def rd_have_def split: if_splits prod.splits)

termination parse_principals_loop
  by (relation "measure (\<lambda>(r, out). length (rd_buf r) - rd_pos r)")
    (auto dest: ssh_rd_str_advances sym)

declare parse_principals_loop.simps [simp del]

definition parse_principals :: "bytes \<Rightarrow> bytes list option" where
  "parse_principals p = parse_principals_loop (ssh_rd_init p) []"

fun skip_strs :: "nat \<Rightarrow> ssh_rd \<Rightarrow> bool \<times> ssh_rd" where
  "skip_strs 0 r = (True, r)"
| "skip_strs (Suc n) r =
     (case ssh_rd_skip_str r of (False, r) \<Rightarrow> (False, r) | (True, r) \<Rightarrow> skip_strs n r)"

text \<open>The signature field: the algorithm and the signature body.\<close>

definition parse_signature :: "bytes \<Rightarrow> (bytes \<times> bytes) option" where
  "parse_signature p =
     (case ssh_rd_cstr (ssh_rd_init p) 64 of
        (None, sr) \<Rightarrow> None
      | (Some algo, sr) \<Rightarrow>
          (case ssh_rd_str sr of
             (None, sr) \<Rightarrow> None
           | (Some sig, sr) \<Rightarrow> if \<not> ssh_rd_done sr then None else Some (algo, sig)))"

text \<open>From the key id to the end of the certificate; everything here fails as malformed.\<close>

definition parse_cert_tail ::
  "bytes \<Rightarrow> bytes \<Rightarrow> bytes \<Rightarrow> 64 word \<Rightarrow> 32 word \<Rightarrow> ssh_rd \<Rightarrow> ssoossh_cert option" where
  "parse_cert_tail blob algo key_blob serial type r =
     (case ssh_rd_str r of
        (None, r) \<Rightarrow> None
      | (Some key_id, r) \<Rightarrow>
     (case ssh_rd_str r of
        (None, r) \<Rightarrow> None
      | (Some p, r) \<Rightarrow>
     (case parse_principals p of
        None \<Rightarrow> None
      | Some principals \<Rightarrow>
     (let (valid_after, r) = ssh_rd_u64 r;
          (valid_before, r) = ssh_rd_u64 r in
      case skip_strs 3 r of
        (False, r) \<Rightarrow> None
      | (True, r) \<Rightarrow>
     (case ssh_rd_str r of
        (None, r) \<Rightarrow> None
      | (Some signature_key, r) \<Rightarrow>
     (let signed_len = ssh_rd_offset r in
      case ssh_rd_str r of
        (None, r) \<Rightarrow> None
      | (Some p, r) \<Rightarrow>
          if \<not> ssh_rd_done r then None
          else
            (case parse_signature p of
               None \<Rightarrow> None
             | Some (signature_algo, signature) \<Rightarrow>
                 Some \<lparr>cert_algo = algo, cert_key_blob = key_blob, cert_serial = serial,
                       cert_type = type, cert_key_id = key_id, cert_principals = principals,
                       cert_valid_after = valid_after, cert_valid_before = valid_before,
                       cert_signature_key = signature_key, cert_signature_algo = signature_algo,
                       cert_signature = signature, cert_signed_len = signed_len,
                       cert_blob = blob\<rparr>)))))))"

definition ssoossh_cert_parse :: "bytes \<Rightarrow> ssoossh_cert_status + ssoossh_cert" where
  "ssoossh_cert_parse blob =
     (if length blob = 0 \<or> length blob > SSOOSSH_MAX_CERT then Inl CERT_MALFORMED
      else
        (case ssh_rd_cstr (ssh_rd_init blob) 64 of
           (None, r) \<Rightarrow> Inl CERT_MALFORMED
         | (Some algo, r) \<Rightarrow>
        (case base_algo algo 64 of
           None \<Rightarrow> Inl CERT_MALFORMED
         | Some base \<Rightarrow>
             if key_field_count base = 0 then Inl CERT_UNSUPPORTED
             else
        (case ssh_rd_skip_str r of
           (False, r) \<Rightarrow> Inl CERT_MALFORMED
         | (True, r) \<Rightarrow>
        (let key_start = ssh_rd_offset r in
         case skip_strs (key_field_count base) r of
           (False, r) \<Rightarrow> Inl CERT_MALFORMED
         | (True, r) \<Rightarrow>
        (let key_end = ssh_rd_offset r;
             kw = ssh_wr_init SSOOSSH_MAX_KEY_BLOB;
             kw = ssh_wr_cstr kw base;
             kw = ssh_wr_bytes kw (take (key_end - key_start) (drop key_start blob)) in
         if \<not> ssh_wr_ok kw then Inl CERT_MALFORMED
         else
           (let (serial, r) = ssh_rd_u64 r;
                (type, r) = ssh_rd_u32 r in
            if type \<noteq> 1 then Inl CERT_NOT_USER
            else
              (case parse_cert_tail blob algo (wr_buf kw) serial type r of
                 None \<Rightarrow> Inl CERT_MALFORMED
               | Some cert \<Rightarrow> Inr cert))))))))"

definition ssoossh_cert_parse_line :: "bytes \<Rightarrow> nat \<Rightarrow> ssoossh_cert_status + ssoossh_cert" where
  "ssoossh_cert_parse_line line scratch_cap =
     (case ssoossh_sshkey_parse_line line scratch_cap 64 of
        LineKey blob algo \<Rightarrow> ssoossh_cert_parse blob
      | _ \<Rightarrow> Inl CERT_MALFORMED)"

definition ssoossh_cert_verify ::
  "'k openssl \<Rightarrow> ssoossh_cert \<Rightarrow> bytes \<Rightarrow> ssoossh_verify_result \<times> log_line list" where
  "ssoossh_cert_verify ossl cert ca =
     ssoossh_crypto_verify ossl (cert_signature_algo cert) ca
       (take (cert_signed_len cert) (cert_blob cert)) (cert_signature cert)"

definition ssoossh_cert_has_principal :: "ssoossh_cert \<Rightarrow> bytes \<Rightarrow> bool" where
  "ssoossh_cert_has_principal cert name \<longleftrightarrow> list_ex (\<lambda>p. p = name) (cert_principals cert)"


section \<open>Reading through a cursor\<close>

lemma put_strs_simps [simp]:
  "put_strs [] = []" "put_strs (p # ps) = put_str p @ put_strs ps" "put_strs (ps @ qs) = put_strs ps @ put_strs qs"
  by (simp_all add: put_strs_def)

abbreviation short :: "bytes \<Rightarrow> bool" where
  "short p \<equiv> length p < 2 ^ 32"

lemma str_step:
  assumes "e \<noteq> y"
  shows "(case ssh_rd_str (cur pre x) of (None, r) \<Rightarrow> e | (Some a, r) \<Rightarrow> f a r) = y \<longleftrightarrow>
    (\<exists>a q. short a \<and> x = put_str a @ q \<and> f a (cur (pre @ put_str a) q) = y)"
proof (cases rule: str_cur_cases [of pre x])
  case (refused r)
  then show ?thesis using assms by auto
next
  case (read p q)
  have "x = put_str a @ q' \<longleftrightarrow> p = a \<and> q = q'" if "short a" for a q'
    using read(1,2) put_str_inj [of p a q q'] that by (simp only:)
  then show ?thesis unfolding read(3) using read(1) by auto
qed

lemma skip_step:
  assumes "\<And>r. e r \<noteq> y"
  shows "(case ssh_rd_skip_str (cur pre x) of (False, r) \<Rightarrow> e r | (True, r) \<Rightarrow> f r) = y \<longleftrightarrow>
    (\<exists>a q. short a \<and> x = put_str a @ q \<and> f (cur (pre @ put_str a) q) = y)"
proof -
  have "(case ssh_rd_skip_str (cur pre x) of (False, r) \<Rightarrow> e r | (True, r) \<Rightarrow> f r) = y \<longleftrightarrow>
      (\<exists>r. ssh_rd_skip_str (cur pre x) = (True, r) \<and> f r = y)"
    using assms by (auto split: prod.splits bool.splits)
  then show ?thesis unfolding skip_cur_True by blast
qed

lemma cstr_step:
  assumes "e \<noteq> y"
  shows "(case ssh_rd_cstr (cur pre x) cap of (None, r) \<Rightarrow> e | (Some a, r) \<Rightarrow> f a r) = y \<longleftrightarrow>
    (\<exists>t q. short t \<and> x = put_str t @ q \<and> t \<noteq> [] \<and> length t < cap \<and>
      f (c_str t) (cur (pre @ put_str t) q) = y)"
proof -
  have "(case ssh_rd_cstr (cur pre x) cap of (None, r) \<Rightarrow> e | (Some a, r) \<Rightarrow> f a r) = y \<longleftrightarrow>
      (\<exists>a r. ssh_rd_cstr (cur pre x) cap = (Some a, r) \<and> f a r = y)"
    using assms by (auto split: prod.splits option.splits)
  then show ?thesis unfolding cstr_cur_Some by blast
qed

lemma skip_strs_step:
  "skip_strs n (cur pre x) = (True, r) \<longleftrightarrow>
    (\<exists>fs q. length fs = n \<and> list_all short fs \<and> x = put_strs fs @ q \<and> r = cur (pre @ put_strs fs) q)"
proof (induction n arbitrary: pre x)
  case (Suc n)
  have "skip_strs (Suc n) (cur pre x) = (True, r) \<longleftrightarrow>
      (\<exists>a q. short a \<and> x = put_str a @ q \<and> skip_strs n (cur (pre @ put_str a) q) = (True, r))"
    unfolding skip_strs.simps by (rule skip_step) simp
  also have "\<dots> \<longleftrightarrow> (\<exists>fs q. length fs = Suc n \<and> list_all short fs \<and> x = put_strs fs @ q \<and>
      r = cur (pre @ put_strs fs) q)"
    (is "?l \<longleftrightarrow> ?r")
  proof
    assume ?l
    then obtain a fs q where "short a" "x = put_str a @ put_strs fs @ q" "length fs = n" "list_all short fs"
        "r = cur (pre @ put_str a @ put_strs fs) q"
      unfolding Suc.IH by auto
    then show ?r by (intro exI [of _ "a # fs"] exI [of _ q]) simp
  next
    assume ?r
    then obtain a fs q where "short a" "x = put_str a @ put_strs fs @ q" "length fs = n" "list_all short fs"
        "r = cur (pre @ put_str a @ put_strs fs) q"
      by (auto simp: length_Suc_conv)
    then show ?l unfolding Suc.IH by (intro exI [of _ a] exI [of _ "put_strs fs @ q"]) auto
  qed
  finally show ?case .
qed auto

lemma skip_strs_bad: "rd_bad r \<Longrightarrow> 0 < n \<Longrightarrow> skip_strs n r = (False, r)"
  by (cases n) (simp_all add: skip.read_latched)

lemma u64_step:
  assumes "\<And>v r. rd_bad r \<Longrightarrow> f v r \<noteq> y"
  shows "(case ssh_rd_u64 (cur pre x) of (v, r) \<Rightarrow> f v r) = y \<longleftrightarrow>
    (\<exists>v q. x = u64_bytes v @ q \<and> f v (cur (pre @ u64_bytes v) q) = y)"
proof
  assume *: "(case ssh_rd_u64 (cur pre x) of (v, r) \<Rightarrow> f v r) = y"
  then have "\<not> rd_bad (snd (ssh_rd_u64 (cur pre x)))"
    using assms by (auto simp: split_beta)
  from u64_cur_ok [OF this] * show "\<exists>v q. x = u64_bytes v @ q \<and> f v (cur (pre @ u64_bytes v) q) = y"
    by auto
qed (auto simp: u64_cur)

lemma u32_value_ok: "fst (ssh_rd_u32 r) \<noteq> 0 \<Longrightarrow> \<not> rd_bad (snd (ssh_rd_u32 r))"
  using u32.read_latched [of r] by (auto simp: ssh_rd_u32_def rd_have_def split: if_splits)

lemma parse_principals_loop_Some:
  "length out \<le> SSOOSSH_MAX_PRINCIPALS \<Longrightarrow>
    parse_principals_loop (cur pre x) out = Some res \<longleftrightarrow>
    (\<exists>ps. res = out @ ps \<and> x = put_strs ps \<and> list_all short ps \<and>
      length out + length ps \<le> SSOOSSH_MAX_PRINCIPALS)"
proof (induction "length x" arbitrary: pre x out rule: less_induct)
  case less
  show ?case
  proof (cases "x = []")
    case True
    have n: "[] = put_strs ps \<longleftrightarrow> ps = []" for ps by (cases ps) (simp_all add: put_str_def)
    have "parse_principals_loop (cur pre []) out = Some out"
      by (subst parse_principals_loop.simps) simp
    then show ?thesis
      unfolding True n using less.prems by force
  next
    case False
    then have "parse_principals_loop (cur pre x) out = Some res \<longleftrightarrow>
        (\<exists>a q. short a \<and> x = put_str a @ q \<and>
          (if SSOOSSH_MAX_PRINCIPALS \<le> length out then None
           else parse_principals_loop (cur (pre @ put_str a) q) (out @ [a])) = Some res)"
      by (subst parse_principals_loop.simps) (simp add: str_step)
    also have "\<dots> \<longleftrightarrow> (\<exists>a q. short a \<and> x = put_str a @ q \<and> length out < SSOOSSH_MAX_PRINCIPALS \<and>
        (\<exists>ps. res = (out @ [a]) @ ps \<and> q = put_strs ps \<and> list_all short ps \<and>
          length (out @ [a]) + length ps \<le> SSOOSSH_MAX_PRINCIPALS))"
    proof (cases "SSOOSSH_MAX_PRINCIPALS \<le> length out")
      case room: False
      have "parse_principals_loop (cur (pre @ put_str a) q) (out @ [a]) = Some res \<longleftrightarrow>
          (\<exists>ps. res = (out @ [a]) @ ps \<and> q = put_strs ps \<and> list_all short ps \<and>
            length (out @ [a]) + length ps \<le> SSOOSSH_MAX_PRINCIPALS)" if "x = put_str a @ q" for a q
        by (rule less.hyps) (use that room in simp_all)
      note ih = this
      from room have lt: "length out < SSOOSSH_MAX_PRINCIPALS" by simp
      show ?thesis
        unfolding if_not_P [OF room] using ih lt by (intro ex_cong1 conj_cong refl) (simp only: simp_thms)
    qed simp
    also have "\<dots> \<longleftrightarrow> (\<exists>ps. res = out @ ps \<and> x = put_strs ps \<and> list_all short ps \<and>
      length out + length ps \<le> SSOOSSH_MAX_PRINCIPALS)" (is "?l \<longleftrightarrow> ?r")
    proof
      assume ?l
      then obtain a ps where "short a" "x = put_str a @ put_strs ps" "res = out @ a # ps" "list_all short ps"
          "length out + length (a # ps) \<le> SSOOSSH_MAX_PRINCIPALS" by auto
      then show ?r by (intro exI [of _ "a # ps"]) simp
    next
      assume ?r
      then obtain ps where ps: "res = out @ ps" "x = put_strs ps" "list_all short ps"
          "length out + length ps \<le> SSOOSSH_MAX_PRINCIPALS" by blast
      with False obtain a qs where "ps = a # qs" by (cases ps) auto
      with ps show ?l by (intro exI [of _ a] exI [of _ "put_strs qs"]) auto
    qed
    finally show ?thesis .
  qed
qed

lemma parse_principals_Some:
  "parse_principals p = Some ps \<longleftrightarrow>
    p = put_strs ps \<and> list_all short ps \<and> length ps \<le> SSOOSSH_MAX_PRINCIPALS"
  using parse_principals_loop_Some [of "[]" "[]" p ps] by (auto simp: parse_principals_def cur_init)

lemma parse_signature_Some:
  "parse_signature p = Some (algo, sig) \<longleftrightarrow>
    (\<exists>t. p = put_str t @ put_str sig \<and> t \<noteq> [] \<and> length t < 64 \<and> algo = c_str t \<and> short sig)"
proof -
  have "parse_signature p = Some (algo, sig) \<longleftrightarrow>
      (\<exists>t q. short t \<and> p = put_str t @ q \<and> t \<noteq> [] \<and> length t < 64 \<and>
        (\<exists>a q'. short a \<and> q = put_str a @ q' \<and> (if q' \<noteq> [] then None else Some (c_str t, a)) = Some (algo, sig)))"
    unfolding parse_signature_def cur_init by (simp add: cstr_step str_step)
  also have "\<dots> \<longleftrightarrow> (\<exists>t. p = put_str t @ put_str sig \<and> t \<noteq> [] \<and> length t < 64 \<and> algo = c_str t \<and> short sig)"
    by auto
  finally show ?thesis .
qed

lemma skip_strs_case_step:
  assumes "\<And>r. e r \<noteq> y"
  shows "(case skip_strs n (cur pre x) of (False, r) \<Rightarrow> e r | (True, r) \<Rightarrow> f r) = y \<longleftrightarrow>
    (\<exists>fs q. length fs = n \<and> list_all short fs \<and> x = put_strs fs @ q \<and> f (cur (pre @ put_strs fs) q) = y)"
proof -
  have "(case skip_strs n (cur pre x) of (False, r) \<Rightarrow> e r | (True, r) \<Rightarrow> f r) = y \<longleftrightarrow>
      (\<exists>r. skip_strs n (cur pre x) = (True, r) \<and> f r = y)"
    using assms by (auto split: prod.splits bool.splits)
  then show ?thesis unfolding skip_strs_step by blast
qed

text \<open>The part of the certificate from the key id to the signature key.\<close>

definition tail_bytes :: "bytes \<Rightarrow> bytes list \<Rightarrow> 64 word \<Rightarrow> 64 word \<Rightarrow> bytes list \<Rightarrow> bytes \<Rightarrow> bytes" where
  "tail_bytes key_id principals after before options signature_key =
     put_str key_id @ put_str (put_strs principals) @ u64_bytes after @ u64_bytes before @
     put_strs options @ put_str signature_key"

lemma parse_cert_tail_bad: "rd_bad r \<Longrightarrow> parse_cert_tail blob algo kb serial ty r = None"
  by (simp add: parse_cert_tail_def str.read_latched)

lemma if_not_None: "(if b then None else z) = Some y \<longleftrightarrow> \<not> b \<and> z = Some y"
  by simp

lemma parse_cert_tail_nested:
  "parse_cert_tail blob algo kb serial ty (cur pre x) = Some c \<longleftrightarrow>
    (\<exists>key_id x1. short key_id \<and> x = put_str key_id @ x1 \<and>
    (\<exists>p x2. short p \<and> x1 = put_str p @ x2 \<and>
    (\<exists>ps. parse_principals p = Some ps \<and>
    (\<exists>va x3. x2 = u64_bytes va @ x3 \<and>
    (\<exists>vb x4. x3 = u64_bytes vb @ x4 \<and>
    (\<exists>opts x5. length opts = 3 \<and> list_all short opts \<and> x4 = put_strs opts @ x5 \<and>
    (\<exists>sk x6. short sk \<and> x5 = put_str sk @ x6 \<and>
    (\<exists>sigf x7. short sigf \<and> x6 = put_str sigf @ x7 \<and> x7 = [] \<and>
    (\<exists>salgo sig. parse_signature sigf = Some (salgo, sig) \<and>
      \<lparr>cert_algo = algo, cert_key_blob = kb, cert_serial = serial, cert_type = ty,
           cert_key_id = key_id, cert_principals = ps, cert_valid_after = va, cert_valid_before = vb,
           cert_signature_key = sk, cert_signature_algo = salgo, cert_signature = sig,
           cert_signed_len = length ((((((pre @ put_str key_id) @ put_str p) @ u64_bytes va) @
             u64_bytes vb) @ put_strs opts) @ put_str sk), cert_blob = blob\<rparr> = c)))))))))"
proof -
  have bad: "(case ssh_rd_u64 r of (vb, r) \<Rightarrow> case skip_strs 3 r of (False, r) \<Rightarrow> None | (True, r) \<Rightarrow> f vb r) \<noteq> Some c"
    "(case skip_strs 3 r of (False, r) \<Rightarrow> None | (True, r) \<Rightarrow> g r) \<noteq> Some c" if "rd_bad r" for r f g
    using that by (simp_all add: u64.read_latched skip_strs_bad)
  have len: "length (put_strs ps) = length p" if "parse_principals p = Some ps" for p ps
    using that by (simp add: parse_principals_Some)
  show ?thesis
    unfolding parse_cert_tail_def Let_def
    by (simp only: str_step [OF option.distinct(1)] case_option_Some u64_step bad
      skip_strs_case_step [OF option.distinct(1)] cur_offset cur_done not_not not_False_eq_True
      if_not_None split_paired_Ex prod.case option.inject)
qed

definition tail_ok :: "bytes \<Rightarrow> bytes list \<Rightarrow> bytes list \<Rightarrow> bytes \<Rightarrow> bytes \<Rightarrow> bytes \<Rightarrow> bool" where
  "tail_ok key_id principals options signature_key sig_algo sig \<longleftrightarrow>
     short key_id \<and> list_all short principals \<and> short (put_strs principals) \<and>
     length principals \<le> SSOOSSH_MAX_PRINCIPALS \<and> length options = 3 \<and> list_all short options \<and>
     short signature_key \<and> sig_algo \<noteq> [] \<and> length sig_algo < 64 \<and> short (put_str sig_algo @ put_str sig)"

definition mk_cert :: "bytes \<Rightarrow> bytes \<Rightarrow> 64 word \<Rightarrow> 32 word \<Rightarrow> bytes \<Rightarrow> bytes list \<Rightarrow> 64 word \<Rightarrow> 64 word \<Rightarrow>
    bytes \<Rightarrow> bytes \<Rightarrow> bytes \<Rightarrow> nat \<Rightarrow> bytes \<Rightarrow> ssoossh_cert" where
  "mk_cert algo kb serial ty key_id ps va vb sk salgo sig n blob =
     \<lparr>cert_algo = algo, cert_key_blob = kb, cert_serial = serial, cert_type = ty,
      cert_key_id = key_id, cert_principals = ps, cert_valid_after = va, cert_valid_before = vb,
      cert_signature_key = sk, cert_signature_algo = salgo, cert_signature = sig,
      cert_signed_len = n, cert_blob = blob\<rparr>"

lemma parse_cert_tail_sound:
  assumes "parse_cert_tail blob algo kb serial ty (cur pre x) = Some c"
  obtains key_id ps va vb opts sk t sig where "tail_ok key_id ps opts sk t sig"
    "x = tail_bytes key_id ps va vb opts sk @ put_str (put_str t @ put_str sig)"
    "c = mk_cert algo kb serial ty key_id ps va vb sk (c_str t) sig
      (length pre + length (tail_bytes key_id ps va vb opts sk)) blob"
  using assms unfolding parse_cert_tail_nested parse_principals_Some parse_signature_Some
  by (elim exE conjE) (auto simp: tail_ok_def tail_bytes_def mk_cert_def add.assoc intro!: that)

lemma skip_strs_cur: "length fs = n \<Longrightarrow> list_all short fs \<Longrightarrow>
    skip_strs n (cur pre (put_strs fs @ q)) = (True, cur (pre @ put_strs fs) q)"
  unfolding skip_strs_step by blast

lemma parse_cert_tail_complete:
  assumes "tail_ok key_id ps opts sk t sig"
  shows "parse_cert_tail blob algo kb serial ty
      (cur pre (tail_bytes key_id ps va vb opts sk @ put_str (put_str t @ put_str sig))) =
    Some (mk_cert algo kb serial ty key_id ps va vb sk (c_str t) sig
      (length pre + length (tail_bytes key_id ps va vb opts sk)) blob)"
proof -
  have s: "ssh_rd_str (cur pre (put_str p @ q)) = (Some p, cur (pre @ put_str p) q)"
    "ssh_rd_str (cur pre (put_str p)) = (Some p, cur (pre @ put_str p) [])" if "short p" for p q pre
    using str_cur [of p pre] str_cur [of p pre "[]"] that by simp_all
  have ps: "parse_principals (put_strs ps) = Some ps"
    using assms by (simp add: parse_principals_Some tail_ok_def)
  have sig: "parse_signature (put_str t @ put_str sig) = Some (c_str t, sig)"
    unfolding parse_signature_Some using assms by (auto simp: tail_ok_def)
  have sh: "short key_id" "short (put_strs ps)" "short sk" "short (put_str t @ put_str sig)"
    "length opts = 3" "list_all short opts"
    using assms by (simp_all add: tail_ok_def)
  show ?thesis
    unfolding parse_cert_tail_def tail_bytes_def append_assoc
    using sh by (simp add: s ps sig u64_cur skip_strs_cur mk_cert_def del: append_assoc)
qed

section \<open>The whole certificate\<close>

lemma u32_step:
  assumes "\<And>r. f 0 r \<noteq> y"
  shows "(case ssh_rd_u32 (cur pre x) of (v, r) \<Rightarrow> f v r) = y \<longleftrightarrow>
    (\<exists>v q. x = u32_bytes v @ q \<and> f v (cur (pre @ u32_bytes v) q) = y)"
proof
  assume *: "(case ssh_rd_u32 (cur pre x) of (v, r) \<Rightarrow> f v r) = y"
  have "fst (ssh_rd_u32 (cur pre x)) \<noteq> 0"
  proof
    assume "fst (ssh_rd_u32 (cur pre x)) = 0"
    with * have "f 0 (snd (ssh_rd_u32 (cur pre x))) = y" by (simp add: split_beta)
    with assms show False by blast
  qed
  from u32_cur_ok [OF u32_value_ok [OF this]] *
  show "\<exists>v q. x = u32_bytes v @ q \<and> f v (cur (pre @ u32_bytes v) q) = y" by auto
qed (auto simp: u32_cur)

lemma case_option_step: "e \<noteq> y \<Longrightarrow>
    (case z of None \<Rightarrow> e | Some a \<Rightarrow> f a) = y \<longleftrightarrow> (\<exists>a. z = Some a \<and> f a = y)"
  by (cases z) simp_all

lemma if_step: "e \<noteq> y \<Longrightarrow> (if b then e else z) = y \<longleftrightarrow> \<not> b \<and> z = y"
  by simp

definition signed_bytes ::
  "bytes \<Rightarrow> bytes \<Rightarrow> bytes list \<Rightarrow> 64 word \<Rightarrow> bytes \<Rightarrow> bytes" where
  "signed_bytes t nonce flds serial tail =
     put_str t @ put_str nonce @ put_strs flds @ u64_bytes serial @ u32_bytes 1 @ tail"

definition head_ok :: "bytes \<Rightarrow> bytes \<Rightarrow> bytes \<Rightarrow> bytes list \<Rightarrow> bool" where
  "head_ok t base nonce flds \<longleftrightarrow>
     t \<noteq> [] \<and> length t < 64 \<and> base_algo (c_str t) 64 = Some base \<and>
     length flds = key_field_count base \<and> flds \<noteq> [] \<and> short nonce \<and> list_all short flds \<and>
     length (put_str base @ put_strs flds) \<le> SSOOSSH_MAX_KEY_BLOB"

lemma base_algo_Some:
  "base_algo a cap = Some b \<longleftrightarrow> a = b @ CERT_SUFFIX \<and> b \<noteq> [] \<and> length b < cap"
proof
  assume "base_algo a cap = Some b"
  then have *: "length CERT_SUFFIX < length a" "drop (length a - length CERT_SUFFIX) a = CERT_SUFFIX"
      "b = take (length a - length CERT_SUFFIX) a" "length b < cap"
    by (auto simp: base_algo_def Let_def split: if_splits)
  then have "b @ CERT_SUFFIX = a" by (metis append_take_drop_id)
  with * show "a = b @ CERT_SUFFIX \<and> b \<noteq> [] \<and> length b < cap" by auto
next
  assume "a = b @ CERT_SUFFIX \<and> b \<noteq> [] \<and> length b < cap"
  then show "base_algo a cap = Some b" by (auto simp: base_algo_def Let_def)
qed

lemma base_algo_no_nul: "base_algo (c_str t) cap = Some b \<Longrightarrow> c_str b = b"
proof -
  assume "base_algo (c_str t) cap = Some b"
  then have "set b \<subseteq> set (c_str t)" by (simp add: base_algo_Some)
  then have "0 \<notin> set b" using c_str_no_nul by blast
  then show ?thesis by (rule c_str_id)
qed

lemma key_blob_writer:
  assumes "c_str base = base" "length base < 64"
  shows "ssh_wr_ok (ssh_wr_bytes (ssh_wr_cstr (ssh_wr_init cap) base) k) \<longleftrightarrow> length (put_str base @ k) \<le> cap"
    and "length (put_str base @ k) \<le> cap \<Longrightarrow>
      wr_buf (ssh_wr_bytes (ssh_wr_cstr (ssh_wr_init cap) base) k) = put_str base @ k"
proof -
  let ?w = "ssh_wr_str (ssh_wr_init cap) base"
  have w: "ssh_wr_cstr (ssh_wr_init cap) base = ?w" by (simp add: ssh_wr_cstr_def assms(1))
  have 1: "ssh_wr_ok ?w \<longleftrightarrow> length (put_str base) \<le> cap"
    using wr_str.put_ok [of "ssh_wr_init cap" base] assms(2) by simp
  have 2: "wr_buf ?w = put_str base" "wr_room ?w = cap - length (put_str base)" if "ssh_wr_ok ?w"
    using wr_str.put_out [of "ssh_wr_init cap" base] wr_str.put_room [of "ssh_wr_init cap" base] that
    by simp_all
  have i: "wr_inv ?w" by (rule wr_str.put_inv) simp
  show ok: "ssh_wr_ok (ssh_wr_bytes (ssh_wr_cstr (ssh_wr_init cap) base) k) \<longleftrightarrow>
      length (put_str base @ k) \<le> cap"
    unfolding w using wr.put_ok [OF i, of k] 1 2 by auto
  show "length (put_str base @ k) \<le> cap \<Longrightarrow>
      wr_buf (ssh_wr_bytes (ssh_wr_cstr (ssh_wr_init cap) base) k) = put_str base @ k"
    using ok wr.put_out [OF i, of k] 1 2 unfolding w by auto
qed

text \<open>The bytes the parser copies into the key blob, from the offsets it notes.\<close>

definition key_slice :: "bytes \<Rightarrow> bytes \<Rightarrow> bytes \<Rightarrow> bytes" where
  "key_slice blob pre flds =
     take (length (pre @ flds) - length pre) (drop (length pre) blob)"

lemma key_slice: "blob = pre @ flds @ r \<Longrightarrow> key_slice blob pre flds = flds"
  by (simp add: key_slice_def)

abbreviation key_writer :: "bytes \<Rightarrow> bytes \<Rightarrow> ssh_wr" where
  "key_writer base k \<equiv> ssh_wr_bytes (ssh_wr_cstr (ssh_wr_init SSOOSSH_MAX_KEY_BLOB) base) k"

lemma ssoossh_cert_parse_nested:
  "ssoossh_cert_parse blob = Inr c \<longleftrightarrow>
    (\<not> (length blob = 0 \<or> SSOOSSH_MAX_CERT < length blob) \<and>
    (\<exists>t x1. short t \<and> blob = put_str t @ x1 \<and> t \<noteq> [] \<and> length t < 64 \<and>
    (\<exists>base. base_algo (c_str t) 64 = Some base \<and> key_field_count base \<noteq> 0 \<and>
    (\<exists>nonce x2. short nonce \<and> x1 = put_str nonce @ x2 \<and>
    (\<exists>flds x3. length flds = key_field_count base \<and> list_all short flds \<and>
      x2 = put_strs flds @ x3 \<and>
      ssh_wr_ok (key_writer base (key_slice blob (([] @ put_str t) @ put_str nonce) (put_strs flds))) \<and>
    (\<exists>serial x4. x3 = u64_bytes serial @ x4 \<and>
    (\<exists>ty x5. x4 = u32_bytes ty @ x5 \<and> ty = 1 \<and>
      (\<exists>d. parse_cert_tail blob (c_str t)
        (wr_buf (key_writer base (key_slice blob (([] @ put_str t) @ put_str nonce) (put_strs flds))))
        serial ty
        (cur ((((([] @ put_str t) @ put_str nonce) @ put_strs flds) @ u64_bytes serial) @ u32_bytes ty) x5) =
          Some d \<and> d = c))))))))"
proof -
  have bad: "(case ssh_rd_u32 r of (type, r) \<Rightarrow> if type \<noteq> 1 then Inl CERT_NOT_USER else f type r) \<noteq> Inr c"
    if "rd_bad r" for r and f :: "32 word \<Rightarrow> ssh_rd \<Rightarrow> ssoossh_cert_status + ssoossh_cert"
    using that by (simp add: u32.read_latched)
  show ?thesis
    unfolding ssoossh_cert_parse_def Let_def cur_init
    by (simp only: if_step [OF Inl_not_Inr] cstr_step [OF Inl_not_Inr] case_option_step [OF Inl_not_Inr]
      skip_step [OF Inl_not_Inr] skip_strs_case_step [OF Inl_not_Inr] u64_step u32_step bad
      not_False_eq_True not_not one_neq_zero zero_neq_one simp_thms cur_offset sum.inject
      key_slice_def)
qed


lemma cert_parse_grammar:
  "ssoossh_cert_parse blob = Inr c \<longleftrightarrow>
    (\<exists>t base nonce flds serial key_id ps va vb opts sk st sig tbs.
      head_ok t base nonce flds \<and> tail_ok key_id ps opts sk st sig \<and>
      tbs = signed_bytes t nonce flds serial (tail_bytes key_id ps va vb opts sk) \<and>
      blob = tbs @ put_str (put_str st @ put_str sig) \<and> length blob \<le> SSOOSSH_MAX_CERT \<and>
      c = mk_cert (c_str t) (put_str base @ put_strs flds) serial 1 key_id ps va vb sk (c_str st) sig
            (length tbs) blob)"
  (is "?parse \<longleftrightarrow> ?grammar")
proof
  assume ?parse
  then obtain t x1 base nonce x2 flds x3 serial x4 ty x5 d where
      lim: "\<not> (length blob = 0 \<or> SSOOSSH_MAX_CERT < length blob)" and eqs: "ty = 1" "d = c" and b:
        "blob = put_str t @ x1" "t \<noteq> []" "length t < 64" "base_algo (c_str t) 64 = Some base"
        "key_field_count base \<noteq> 0" "short nonce" "x1 = put_str nonce @ x2"
        "length flds = key_field_count base" "list_all short flds" "x2 = put_strs flds @ x3"
      and w: "ssh_wr_ok (key_writer base (key_slice blob (([] @ put_str t) @ put_str nonce) (put_strs flds)))"
      and x': "x3 = u64_bytes serial @ x4" "x4 = u32_bytes ty @ x5"
      and tail': "parse_cert_tail blob (c_str t)
        (wr_buf (key_writer base (key_slice blob (([] @ put_str t) @ put_str nonce) (put_strs flds))))
        serial ty
        (cur ((((([] @ put_str t) @ put_str nonce) @ put_strs flds) @ u64_bytes serial) @ u32_bytes ty) x5) =
          Some d"
    unfolding ssoossh_cert_parse_nested by - (elim conjE exE, rule that; assumption)
  note x = x' [unfolded eqs] and tail = tail' [unfolded eqs]
  have slice: "key_slice blob (([] @ put_str t) @ put_str nonce) (put_strs flds) = put_strs flds"
    using b x by (intro key_slice [of _ _ _ x3]) simp
  have base: "c_str base = base" "length base < 64"
    using base_algo_no_nul b(4) base_algo_Some by blast+
  have kb: "length (put_str base @ put_strs flds) \<le> SSOOSSH_MAX_KEY_BLOB"
    "wr_buf (key_writer base (put_strs flds)) = put_str base @ put_strs flds"
    using w key_blob_writer [OF base] unfolding slice by blast+
  obtain key_id ps va vb opts sk st sig where ok: "tail_ok key_id ps opts sk st sig"
      and x5: "x5 = tail_bytes key_id ps va vb opts sk @ put_str (put_str st @ put_str sig)"
      and c: "c = mk_cert (c_str t) (put_str base @ put_strs flds) serial 1 key_id ps va vb sk (c_str st) sig
        (length ((((([] @ put_str t) @ put_str nonce) @ put_strs flds) @ u64_bytes serial) @ u32_bytes 1) +
         length (tail_bytes key_id ps va vb opts sk)) blob"
    by (rule parse_cert_tail_sound [OF tail [unfolded slice kb(2)]])
  have "head_ok t base nonce flds" using b kb by (auto simp: head_ok_def)
  moreover have "blob = signed_bytes t nonce flds serial (tail_bytes key_id ps va vb opts sk) @
      put_str (put_str st @ put_str sig)"
    using b x x5 by (simp add: signed_bytes_def)
  moreover have "c = mk_cert (c_str t) (put_str base @ put_strs flds) serial 1 key_id ps va vb sk (c_str st) sig
      (length (signed_bytes t nonce flds serial (tail_bytes key_id ps va vb opts sk))) blob"
    unfolding c by (simp add: signed_bytes_def add.assoc)
  moreover have "length blob \<le> SSOOSSH_MAX_CERT" using lim by (simp only: de_Morgan_disj not_less)
  ultimately show ?grammar using ok by blast
next
  assume ?grammar
  then obtain t base nonce flds serial key_id ps va vb opts sk st sig where
      h: "head_ok t base nonce flds" and ok: "tail_ok key_id ps opts sk st sig"
      and blob: "blob = signed_bytes t nonce flds serial (tail_bytes key_id ps va vb opts sk) @
        put_str (put_str st @ put_str sig)" "length blob \<le> SSOOSSH_MAX_CERT"
      and c: "c = mk_cert (c_str t) (put_str base @ put_strs flds) serial 1 key_id ps va vb sk (c_str st) sig
        (length (signed_bytes t nonce flds serial (tail_bytes key_id ps va vb opts sk))) blob"
    by blast
  let ?rest = "tail_bytes key_id ps va vb opts sk @ put_str (put_str st @ put_str sig)"
  let ?pre = "(((([] @ put_str t) @ put_str nonce) @ put_strs flds) @ u64_bytes serial) @ u32_bytes 1"
  have b: "blob = put_str t @ put_str nonce @ put_strs flds @ u64_bytes serial @ u32_bytes 1 @ ?rest"
    using blob(1) by (simp add: signed_bytes_def)
  have slice: "key_slice blob (([] @ put_str t) @ put_str nonce) (put_strs flds) = put_strs flds"
    using b by (intro key_slice [of _ _ _ "u64_bytes serial @ u32_bytes 1 @ ?rest"]) simp
  have base: "c_str base = base" "length base < 64"
    using base_algo_no_nul h base_algo_Some unfolding head_ok_def by blast+
  have kb: "ssh_wr_ok (key_writer base (put_strs flds))"
    "wr_buf (key_writer base (put_strs flds)) = put_str base @ put_strs flds"
    using h key_blob_writer [OF base] unfolding head_ok_def by blast+
  have tail: "parse_cert_tail blob (c_str t) (put_str base @ put_strs flds) serial 1 (cur ?pre ?rest) = Some c"
    unfolding parse_cert_tail_complete [OF ok] c by (simp add: signed_bytes_def add.assoc)
  have "length t < 64" "t \<noteq> []" "base_algo (c_str t) 64 = Some base"
    "short nonce" "length flds = key_field_count base" "list_all short flds" "short t"
    using h by (auto simp: head_ok_def)
  moreover have "key_field_count base \<noteq> 0"
    using h unfolding head_ok_def by (metis length_0_conv)
  moreover have "\<not> (length blob = 0 \<or> SSOOSSH_MAX_CERT < length blob)"
    using b blob(2) by simp
  ultimately show ?parse
    unfolding ssoossh_cert_parse_nested
    apply (intro conjI)
    apply assumption
    apply (rule exI [of _ t], rule exI, intro conjI, assumption, rule b, assumption, assumption)
    apply (rule exI [of _ base], intro conjI, assumption, assumption)
    apply (rule exI [of _ nonce], rule exI, intro conjI, assumption, rule refl)
    apply (rule exI [of _ flds], rule exI, intro conjI, assumption, assumption, rule refl)
    apply (simp only: slice kb)
    apply (rule exI [of _ serial], rule exI, intro conjI, rule refl)
    apply (rule exI [of _ 1], rule exI, intro conjI, rule refl, rule refl)
    apply (rule exI [of _ c], intro conjI)
    by (simp_all only: slice kb tail)
qed

text \<open>
  C4: the certificate grammar.  A blob parses as a certificate exactly when it is, end to end:
  a type field of fewer than 64 bytes naming a supported key type with the certificate suffix,
  a nonce, that type's key fields, the serial, the user type 1, a key id, at most 64 principals in
  one field, the two validity bounds, three skipped options, the signature key, and one signature
  field of an algorithm name and a body, with nothing after any of them.  The parsed certificate
  then has exactly these values, its key blob is the base type's name followed by the key fields
  byte for byte, and what the CA signed is everything in front of the signature field.
\<close>

theorem cert_parse_iff:
  "ssoossh_cert_parse blob = Inr c \<longleftrightarrow>
    (\<exists>t base nonce flds serial key_id ps va vb opts sk st sig tbs.
      head_ok t base nonce flds \<and> tail_ok key_id ps opts sk st sig \<and>
      tbs = signed_bytes t nonce flds serial (tail_bytes key_id ps va vb opts sk) \<and>
      blob = tbs @ put_str (put_str st @ put_str sig) \<and> length blob \<le> SSOOSSH_MAX_CERT \<and>
      c = mk_cert (c_str t) (put_str base @ put_strs flds) serial 1 key_id ps va vb sk (c_str st) sig
            (length tbs) blob)"
  by (rule cert_parse_grammar)

section \<open>What the signature covers\<close>

lemma u64_bytes_inj [simp]: "u64_bytes v = u64_bytes w \<longleftrightarrow> v = w"
proof
  assume "u64_bytes v = u64_bytes w"
  then show "v = w" using u64_cur [of "[]" v "[]"] u64_cur [of "[]" w "[]"] by simp
qed simp

lemma put_strs_inj_prefix:
  "length ps = length qs \<Longrightarrow> list_all short ps \<Longrightarrow> list_all short qs \<Longrightarrow>
    put_strs ps @ x = put_strs qs @ y \<Longrightarrow> ps = qs \<and> x = y"
proof (induction ps qs rule: list_induct2)
  case (Cons p ps q qs)
  then have "p = q \<and> put_strs ps @ x = put_strs qs @ y"
    using put_str_inj [of p q "put_strs ps @ x" "put_strs qs @ y"] by simp
  with Cons show ?case by simp
qed simp

lemma put_strs_inj: "list_all short ps \<Longrightarrow> list_all short qs \<Longrightarrow> put_strs ps = put_strs qs \<Longrightarrow> ps = qs"
  using ssh_string.put_seq_inj [of ps qs] by (simp add: put_strs_def list_all_iff)

lemma u64_split: "u64_bytes v @ x = u64_bytes w @ y \<longleftrightarrow> v = w \<and> x = y"
  by (simp add: append_eq_append_conv)

lemma tail_bytes_inj:
  assumes "tail_ok k ps os sk st sg" "tail_ok l qs rs tk tt tg"
    "tail_bytes k ps va vb os sk = tail_bytes l qs wa wb rs tk"
  shows "k = l \<and> ps = qs \<and> va = wa \<and> vb = wb \<and> os = rs \<and> sk = tk"
proof -
  have "k = l \<and> put_str (put_strs ps) @ u64_bytes va @ u64_bytes vb @ put_strs os @ put_str sk =
      put_str (put_strs qs) @ u64_bytes wa @ u64_bytes wb @ put_strs rs @ put_str tk"
    using assms put_str_inj [of k l] by (simp add: tail_bytes_def tail_ok_def)
  then have "k = l \<and> put_strs ps = put_strs qs \<and> va = wa \<and> vb = wb \<and>
      put_strs os @ put_str sk = put_strs rs @ put_str tk"
    using assms put_str_inj [of "put_strs ps" "put_strs qs"] by (simp add: tail_ok_def u64_split)
  then show ?thesis
    using assms put_strs_inj [of ps qs] put_strs_inj_prefix [of os rs "put_str sk" "put_str tk"]
    by (simp add: tail_ok_def)
qed

lemma signed_bytes_inj:
  assumes "head_ok t base nonce flds" "head_ok u base' nonce' flds'"
    "signed_bytes t nonce flds serial x = signed_bytes u nonce' flds' serial' y"
  shows "t = u \<and> base = base' \<and> flds = flds' \<and> serial = serial' \<and> x = y"
proof -
  have sh: "short t" "short u" "short nonce" "short nonce'"
    using assms(1,2) by (auto simp: head_ok_def)
  have 1: "t = u" "nonce = nonce'"
    "put_strs flds @ u64_bytes serial @ u32_bytes 1 @ x = put_strs flds' @ u64_bytes serial' @ u32_bytes 1 @ y"
    using assms(3) put_str_inj [OF sh(1,2)] put_str_inj [OF sh(3,4)] unfolding signed_bytes_def by blast+
  then have 2: "base = base'" "length flds = length flds'"
    using assms(1,2) by (auto simp: head_ok_def)
  have "flds = flds' \<and> u64_bytes serial @ u32_bytes 1 @ x = u64_bytes serial' @ u32_bytes 1 @ y"
    using assms(1,2) by (intro put_strs_inj_prefix [OF 2(2) _ _ 1(3)]) (simp_all add: head_ok_def)
  with 1 2 show ?thesis by (simp add: u64_split)
qed

text \<open>
  C5: no field that a decision reads is outside the signature.  Two certificates whose signed
  bytes are the same agree in the type, the subject key, the serial, the key id, the principals,
  the validity bounds and the signature key; what may differ is only the signature field itself.
  The signed bytes are a prefix of the blob that stops exactly where that field starts.
\<close>

theorem cert_signed_fields:
  assumes "ssoossh_cert_parse a = Inr c" and "ssoossh_cert_parse b = Inr d"
    and "take (cert_signed_len c) (cert_blob c) = take (cert_signed_len d) (cert_blob d)"
  shows "cert_algo c = cert_algo d \<and> cert_key_blob c = cert_key_blob d \<and> cert_serial c = cert_serial d \<and>
    cert_type c = cert_type d \<and> cert_key_id c = cert_key_id d \<and> cert_principals c = cert_principals d \<and>
    cert_valid_after c = cert_valid_after d \<and> cert_valid_before c = cert_valid_before d \<and>
    cert_signature_key c = cert_signature_key d \<and> cert_blob c = a \<and>
    (\<exists>sig. short sig \<and> a = take (cert_signed_len c) a @ put_str sig)"
proof -
  obtain t base nonce flds serial k ps va vb os sk st sg where 1:
      "head_ok t base nonce flds" "tail_ok k ps os sk st sg"
      "a = signed_bytes t nonce flds serial (tail_bytes k ps va vb os sk) @ put_str (put_str st @ put_str sg)"
      "c = mk_cert (c_str t) (put_str base @ put_strs flds) serial 1 k ps va vb sk (c_str st) sg
            (length (signed_bytes t nonce flds serial (tail_bytes k ps va vb os sk))) a"
    using assms(1) unfolding cert_parse_grammar by blast
  obtain u base' nonce' flds' serial' l qs wa wb rs tk tt tg where 2:
      "head_ok u base' nonce' flds'" "tail_ok l qs rs tk tt tg"
      "b = signed_bytes u nonce' flds' serial' (tail_bytes l qs wa wb rs tk) @ put_str (put_str tt @ put_str tg)"
      "d = mk_cert (c_str u) (put_str base' @ put_strs flds') serial' 1 l qs wa wb tk (c_str tt) tg
            (length (signed_bytes u nonce' flds' serial' (tail_bytes l qs wa wb rs tk))) b"
    using assms(2) unfolding cert_parse_grammar by blast
  have "signed_bytes t nonce flds serial (tail_bytes k ps va vb os sk) =
      signed_bytes u nonce' flds' serial' (tail_bytes l qs wa wb rs tk)"
    using assms(3) unfolding 1(4) 2(4) by (simp add: mk_cert_def 1(3) 2(3))
  from signed_bytes_inj [OF 1(1) 2(1) this] tail_bytes_inj [OF 1(2) 2(2)]
  have eqs: "t = u" "base = base'" "flds = flds'" "serial = serial'" "k = l" "ps = qs" "va = wa" "vb = wb" "sk = tk"
    by blast+
  have "short (put_str st @ put_str sg) \<and>
      a = take (cert_signed_len c) a @ put_str (put_str st @ put_str sg)"
    using 1 by (simp add: mk_cert_def tail_ok_def)
  then have ex: "\<exists>sig. short sig \<and> a = take (cert_signed_len c) a @ put_str sig" by blast
  show ?thesis
  proof (intro conjI ex)
  qed (simp_all add: 1(4) 2(4) eqs mk_cert_def)
qed

text \<open>A small certificate, for examples.\<close>

definition demo_tbs :: bytes where
  "demo_tbs = signed_bytes (bs ''ssh-ed25519-cert-v01@openssh.com'') [0] [[1, 2]] 7
     (tail_bytes (bs ''id'') [bs ''alice'', bs ''ops''] 100 200 [[], [], []] [9])"

definition demo_blob :: "bytes \<Rightarrow> bytes" where
  "demo_blob sig = demo_tbs @ put_str (put_str (bs ''rsa-sha2-256'') @ put_str sig)"

definition demo_cert :: "bytes \<Rightarrow> ssoossh_cert" where
  "demo_cert sig = mk_cert (bs ''ssh-ed25519-cert-v01@openssh.com'') (put_str (bs ''ssh-ed25519'') @ put_str [1, 2])
     7 1 (bs ''id'') [bs ''alice'', bs ''ops''] 100 200 [9] (bs ''rsa-sha2-256'') sig (length demo_tbs)
     (demo_blob sig)"

lemma demo_parses: "length sig < 1000 \<Longrightarrow> ssoossh_cert_parse (demo_blob sig) = Inr (demo_cert sig)"
proof -
  let ?t = "bs ''ssh-ed25519-cert-v01@openssh.com''"
  assume "length sig < 1000"
  then have ok: "tail_ok (bs ''id'') [bs ''alice'', bs ''ops''] [[], [], []] [9] (bs ''rsa-sha2-256'') sig"
    by (simp add: tail_ok_def SSOOSSH_MAX_PRINCIPALS_def)
  have "c_str ?t = ?t" by (simp add: c_str_def)
  moreover have "base_algo ?t 64 = Some (bs ''ssh-ed25519'')"
    by (simp add: base_algo_Some CERT_SUFFIX_def)
  ultimately have h: "head_ok ?t (bs ''ssh-ed25519'') [0] [[1, 2]]"
    by (simp add: head_ok_def key_field_count_def SSOOSSH_MAX_KEY_BLOB_def)
  have len: "length (demo_blob sig) \<le> SSOOSSH_MAX_CERT"
    using \<open>length sig < 1000\<close>
    by (simp add: demo_blob_def demo_tbs_def signed_bytes_def tail_bytes_def SSOOSSH_MAX_CERT_def)
  have c: "c_str ?t = ?t" "c_str (bs ''rsa-sha2-256'') = bs ''rsa-sha2-256''"
    by (simp_all add: c_str_def)
  show ?thesis
    unfolding cert_parse_grammar
    by (rule exI [of _ ?t], rule exI [of _ "bs ''ssh-ed25519''"], rule exI [of _ "[0]"],
        rule exI [of _ "[[1, 2]]"], rule exI [of _ 7], rule exI [of _ "bs ''id''"],
        rule exI [of _ "[bs ''alice'', bs ''ops'']"], rule exI [of _ 100], rule exI [of _ 200],
        rule exI [of _ "[[], [], []]"], rule exI [of _ "[9]"], rule exI [of _ "bs ''rsa-sha2-256''"],
        rule exI [of _ sig], rule exI [of _ demo_tbs], intro conjI, rule h, rule ok, rule demo_tbs_def,
        rule demo_blob_def, rule len, simp only: demo_cert_def c put_strs_simps append_Nil2)
qed

theorem cert_signed_fields_witness:
  "ssoossh_cert_parse (demo_blob [5]) = Inr (demo_cert [5]) \<and>
   ssoossh_cert_parse (demo_blob [6]) = Inr (demo_cert [6]) \<and> demo_blob [5] \<noteq> demo_blob [6] \<and>
   cert_principals (demo_cert [5]) = cert_principals (demo_cert [6])"
proof -
  have p: "ssoossh_cert_parse (demo_blob [5]) = Inr (demo_cert [5])"
    "ssoossh_cert_parse (demo_blob [6]) = Inr (demo_cert [6])"
    by (rule demo_parses, simp)+
  have "demo_blob [5] \<noteq> demo_blob [6]"
    by (simp add: demo_blob_def)
  moreover have "take (cert_signed_len (demo_cert [5])) (cert_blob (demo_cert [5])) =
      take (cert_signed_len (demo_cert [6])) (cert_blob (demo_cert [6]))"
    by (simp add: demo_cert_def mk_cert_def demo_blob_def)
  ultimately show ?thesis using p cert_signed_fields [OF p] by blast
qed

end
