(* ===== verification/Principals_Map.thy ===== *)
theory Principals_Map
  imports Ssh_Key
begin

text \<open>
  src/principals_map.c: the hand-written YAML subset that adds principals to an account.  A slice
  is the bytes it points at.  The message written to the caller's \<open>err\<close> buffer is the value of
  a refusal; \<open>err_cap\<close> bytes of it, terminator included, are kept.

  The lemmas: a line means the same thing wherever it stands, so the file is the sequence of
  its items; the load succeeds exactly when that sequence describes a map, and then yields the
  account's own entry of it, as far as the fixed table holds it.
\<close>

section \<open>Slices\<close>

definition is_blank :: "byte \<Rightarrow> bool" where
  "is_blank c \<longleftrightarrow> c = 0x20 \<or> c = 0x09"

definition is_trim :: "byte \<Rightarrow> bool" where
  "is_trim c \<longleftrightarrow> c = 0x20 \<or> c = 0x09 \<or> c = 0x0d"

text \<open>The two quote states, and whether the previous character lets a comment start.\<close>

fun strip_comment_loop :: "bool \<Rightarrow> bool \<Rightarrow> bool \<Rightarrow> bytes \<Rightarrow> bytes" where
  "strip_comment_loop in_single in_double start [] = []"
| "strip_comment_loop in_single in_double start (c # cs) =
     (if c = 0x27 \<and> \<not> in_double then c # strip_comment_loop (\<not> in_single) in_double False cs
      else if c = 0x22 \<and> \<not> in_single then c # strip_comment_loop in_single (\<not> in_double) False cs
      else if c = 0x23 \<and> \<not> in_single \<and> \<not> in_double \<and> start then []
      else c # strip_comment_loop in_single in_double (is_blank c) cs)"

definition strip_comment :: "bytes \<Rightarrow> bytes" where
  "strip_comment line = strip_comment_loop False False True line"

definition trim :: "bytes \<Rightarrow> bytes" where
  "trim s = rev (dropWhile is_trim (rev (dropWhile is_trim s)))"

definition unquote :: "bytes \<Rightarrow> bytes option" where
  "unquote inp =
     (case inp of
        [] \<Rightarrow> Some inp
      | quote # cs \<Rightarrow>
          if quote \<noteq> 0x22 \<and> quote \<noteq> 0x27 then Some inp
          else if length inp < 2 \<or> last inp \<noteq> quote then None
          else if list_ex (\<lambda>c. c = quote \<or> c = 0x5c) (butlast cs) then None
          else Some (butlast cs))"

text \<open>The first colon outside quotes; the key in front of it is built from the left.\<close>

fun split_key_loop :: "bool \<Rightarrow> bool \<Rightarrow> bytes \<Rightarrow> bytes \<Rightarrow> (bytes \<times> bytes) option" where
  "split_key_loop in_single in_double key [] = None"
| "split_key_loop in_single in_double key (c # cs) =
     (if c = 0x27 \<and> \<not> in_double then split_key_loop (\<not> in_single) in_double (key @ [c]) cs
      else if c = 0x22 \<and> \<not> in_single then split_key_loop in_single (\<not> in_double) (key @ [c]) cs
      else if c = 0x3a \<and> \<not> in_single \<and> \<not> in_double then Some (trim key, trim cs)
      else split_key_loop in_single in_double (key @ [c]) cs)"

definition split_key :: "bytes \<Rightarrow> (bytes \<times> bytes) option" where
  "split_key line = split_key_loop False False [] line"

section \<open>The loader\<close>

definition SSOOSSH_MAX_MAP_PRINCIPALS :: nat where "SSOOSSH_MAX_MAP_PRINCIPALS = 64"
definition SSOOSSH_MAX_PRINCIPAL_LEN :: nat where "SSOOSSH_MAX_PRINCIPAL_LEN = 128"
definition MAX_MAP_FILE :: nat where "MAX_MAP_FILE = 256 * 1024"

record ssoossh_principals =
  map_principals :: "bytes list"
  map_found :: bool

definition no_principals :: ssoossh_principals where
  "no_principals = \<lparr>map_principals = [], map_found = False\<rparr>"

datatype ssoossh_map_status = MAP_OK | MAP_UNREADABLE | MAP_MALFORMED

definition store :: "ssoossh_principals \<Rightarrow> bytes \<Rightarrow> ssoossh_principals" where
  "store out prin =
     (if \<not> map_found out \<or> length (map_principals out) \<ge> SSOOSSH_MAX_MAP_PRINCIPALS \<or>
         length prin \<ge> SSOOSSH_MAX_PRINCIPAL_LEN then out
      else out\<lparr>map_principals := map_principals out @ [prin]\<rparr>)"

definition line_err :: "nat \<Rightarrow> bytes \<Rightarrow> bytes" where
  "line_err line_no msg = bs ''line '' @ dec_bytes line_no @ bs '': '' @ msg"

function parse_flow_loop ::
  "bytes \<Rightarrow> ssoossh_principals \<Rightarrow> bool \<Rightarrow> nat \<Rightarrow> bytes + ssoossh_principals" where
  "parse_flow_loop inner out collect line_no =
     (let field = trim (takeWhile (\<lambda>c. c \<noteq> 0x2c) inner);
          rest = dropWhile (\<lambda>c. c \<noteq> 0x2c) inner in
      case unquote field of
        None \<Rightarrow> Inl (line_err line_no
          (bs ''quoted value uses escapes or embedded quotes, which are not supported''))
      | Some prin \<Rightarrow>
          if prin = [] then Inl (line_err line_no (bs ''empty principal in list''))
          else
            let out = (if collect then store out prin else out) in
            if rest = [] then Inr out else parse_flow_loop (tl rest) out collect line_no)"
  by pat_completeness auto
termination
  by (relation "measure (\<lambda>(inner, out, collect, line_no). length inner)")
    (simp_all add: length_tl_dropWhile del: length_tl dropWhile_eq_Nil_conv)

declare parse_flow_loop.simps [simp del]

definition parse_flow ::
  "bytes \<Rightarrow> ssoossh_principals \<Rightarrow> bool \<Rightarrow> nat \<Rightarrow> bytes + ssoossh_principals" where
  "parse_flow value out collect line_no =
     (if value = [] \<or> last value \<noteq> 0x5d then Inl (line_err line_no (bs ''unterminated list''))
      else
        let inner = trim (butlast (tl value)) in
        if inner = [] then Inr out else parse_flow_loop inner out collect line_no)"

text \<open>One line of the rescan for a duplicate, and the rescan of the lines before this one.\<close>

definition account_line :: "bytes \<Rightarrow> bytes \<Rightarrow> bool" where
  "account_line name line =
     (let content = trim (strip_comment line) in
      if content = [] \<or> hd content = 0x2d then False
      else if line \<noteq> [] \<and> is_blank (hd line) then False
      else
        (case split_key content of
           None \<Rightarrow> False
         | Some (key, value) \<Rightarrow>
             (case unquote key of None \<Rightarrow> False | Some unquoted \<Rightarrow> unquoted = name)))"

definition account_seen :: "bytes list \<Rightarrow> bytes \<Rightarrow> bool" where
  "account_seen before name = list_ex (account_line name) before"

text \<open>The state of the loop: the result so far, and the account whose list is open.\<close>

record map_state =
  ms_out :: ssoossh_principals
  ms_ours :: bool
  ms_open :: bool

definition map_item_line :: "map_state \<Rightarrow> nat \<Rightarrow> bytes \<Rightarrow> bytes + map_state" where
  "map_item_line st line_no content =
     (let item = tl content in
      if item \<noteq> [] \<and> hd item \<noteq> 0x20 then
        Inl (line_err line_no (bs ''a list item needs a space after its \"-\"''))
      else
        (case unquote (trim item) of
           None \<Rightarrow> Inl (line_err line_no
             (bs ''quoted value uses escapes or embedded quotes, which are not supported''))
         | Some prin \<Rightarrow>
             if prin = [] then Inl (line_err line_no (bs ''empty principal''))
             else if \<not> ms_open st then
               Inl (line_err line_no (bs ''principal is not under any account''))
             else
               Inr (if ms_ours st then st\<lparr>ms_out := store (ms_out st) prin\<rparr> else st)))"

definition map_account_line ::
  "bytes \<Rightarrow> bytes list \<Rightarrow> map_state \<Rightarrow> nat \<Rightarrow> bytes \<Rightarrow> bytes + map_state" where
  "map_account_line account before st line_no content =
     (case split_key content of
        None \<Rightarrow> Inl (line_err line_no
          (bs ''expected an \"account:\" line or a \"- principal\" list item''))
      | Some (key, value) \<Rightarrow>
     (case unquote key of
        None \<Rightarrow> Inl (line_err line_no
          (bs ''quoted account name uses escapes or embedded quotes, which are not supported''))
      | Some name \<Rightarrow>
          if name = [] then Inl (line_err line_no (bs ''empty account name''))
          else if account_seen before name then
            Inl (line_err line_no (bs ''account is already defined''))
          else
            let ours = (name = account);
                out = (if ours then (ms_out st)\<lparr>map_found := True\<rparr> else ms_out st) in
            if value = [] then Inr \<lparr>ms_out = out, ms_ours = ours, ms_open = True\<rparr>
            else if value = bs ''null'' \<or> value = bs ''~'' then
              Inr \<lparr>ms_out = out, ms_ours = ours, ms_open = False\<rparr>
            else if hd value = 0x5b then
              (case parse_flow value out ours line_no of
                 Inl e \<Rightarrow> Inl e
               | Inr out \<Rightarrow> Inr \<lparr>ms_out = out, ms_ours = ours, ms_open = False\<rparr>)
            else Inl (line_err line_no (bs ''account must be followed by a list of principals''))))"

definition map_line ::
  "bytes \<Rightarrow> bytes list \<Rightarrow> map_state \<Rightarrow> nat \<Rightarrow> bytes \<Rightarrow> bytes + map_state" where
  "map_line account before st line_no raw =
     (let content = strip_comment raw;
          indent = takeWhile is_blank content in
      if 0x09 \<in> set indent then
        Inl (line_err line_no (bs ''indented with a tab; YAML requires spaces''))
      else
        let content = trim content in
        if content = [] then Inr st
        else if hd content = 0x2d then map_item_line st line_no content
        else if length indent > 0 then
          Inl (line_err line_no (bs ''an account starts at the beginning of the line''))
        else map_account_line account before st line_no content)"

text \<open>
  The loop over the file, a line at a time: the lines before the current one are what the
  source rescans through \<open>data\<close> and \<open>pos\<close>.
\<close>

fun map_load_loop ::
  "bytes \<Rightarrow> bytes list \<Rightarrow> bytes list \<Rightarrow> map_state \<Rightarrow> bytes + map_state" where
  "map_load_loop account before [] st = Inr st"
| "map_load_loop account before (raw # rest) st =
     (case map_line account before st (length before + 1) raw of
        Inl e \<Rightarrow> Inl e
      | Inr st \<Rightarrow> map_load_loop account (before @ [raw]) rest st)"

definition ssoossh_principals_map_load ::
  "bool \<Rightarrow> bytes \<Rightarrow> file_read \<Rightarrow> bytes \<Rightarrow> nat \<Rightarrow> ssoossh_map_status \<times> ssoossh_principals \<times> bytes"
where
  "ssoossh_principals_map_load malloc_ok path source account err_cap =
     (let err = (\<lambda>e. take (err_cap - 1) e) in
      case source of
        FileAbsent \<Rightarrow> (MAP_UNREADABLE, no_principals, err (bs ''cannot read '' @ path))
      | _ \<Rightarrow>
          if \<not> malloc_ok then (MAP_UNREADABLE, no_principals, [])
          else
            (case source of
               FileData content \<Rightarrow>
                 let data = take MAX_MAP_FILE content in
                 if length data \<ge> MAX_MAP_FILE then
                   (MAP_MALFORMED, no_principals,
                    err (path @ bs '' is larger than '' @ dec_bytes MAX_MAP_FILE @ bs '' bytes''))
                 else
                   (case map_load_loop account [] (split_lines data)
                      \<lparr>ms_out = no_principals, ms_ours = False, ms_open = False\<rparr> of
                      Inl e \<Rightarrow> (MAP_MALFORMED, no_principals, err e)
                    | Inr st \<Rightarrow> (MAP_OK, ms_out st, []))
             | _ \<Rightarrow> (MAP_UNREADABLE, no_principals, err (bs ''cannot read '' @ path))))"

definition ssoossh_principals_allow :: "ssoossh_principals \<Rightarrow> bytes list \<Rightarrow> bool" where
  "ssoossh_principals_allow p cert_principals =
     (if \<not> map_found p then False
      else list_ex (\<lambda>c. list_ex (\<lambda>q. c_str c = c_str q) (map_principals p)) cert_principals)"


section \<open>What a file describes\<close>

text \<open>What a line says by itself, and what a sequence of such items says as a map.\<close>

datatype map_value = ValOpen | ValClosed "bytes list"

datatype map_item = ItemBlank | ItemEntry bytes | ItemAccount bytes map_value | ItemBad

definition list_item :: "bytes \<Rightarrow> bytes option" where
  "list_item f = (case unquote (trim f) of None \<Rightarrow> None | Some p \<Rightarrow> if p = [] then None else Some p)"

definition flow_value :: "bytes \<Rightarrow> bytes list option" where
  "flow_value value =
     (if value = [] \<or> last value \<noteq> 0x5d then None
      else
        let inner = trim (butlast (tl value)) in
        if inner = [] then Some []
        else those (map list_item (split_on 0x2c inner)))"

definition account_item :: "bytes \<Rightarrow> map_item" where
  "account_item content =
     (case split_key content of
        None \<Rightarrow> ItemBad
      | Some (key, value) \<Rightarrow>
     (case unquote key of
        None \<Rightarrow> ItemBad
      | Some name \<Rightarrow>
          if name = [] then ItemBad
          else if value = [] then ItemAccount name ValOpen
          else if value = bs ''null'' \<or> value = bs ''~'' then ItemAccount name (ValClosed [])
          else if hd value = 0x5b then
            (case flow_value value of None \<Rightarrow> ItemBad | Some ps \<Rightarrow> ItemAccount name (ValClosed ps))
          else ItemBad))"

definition classify :: "bytes \<Rightarrow> map_item" where
  "classify raw =
     (let content = strip_comment raw;
          indent = takeWhile is_blank content in
      if 0x09 \<in> set indent then ItemBad
      else
        let content = trim content in
        if content = [] then ItemBlank
        else if hd content = 0x2d then
          (if tl content \<noteq> [] \<and> hd (tl content) \<noteq> 0x20 then ItemBad
           else (case list_item (tl content) of None \<Rightarrow> ItemBad | Some p \<Rightarrow> ItemEntry p))
        else if indent \<noteq> [] then ItemBad
        else account_item content)"

definition append_last :: "(bytes \<times> bytes list) list \<Rightarrow> bytes \<Rightarrow> (bytes \<times> bytes list) list" where
  "append_last m p = butlast m @ [(fst (last m), snd (last m) @ [p])]"

fun describe :: "(bytes \<times> bytes list) list \<Rightarrow> bool \<Rightarrow> map_item list \<Rightarrow> (bytes \<times> bytes list) list option" where
  "describe m op [] = Some m"
| "describe m op (ItemBlank # r) = describe m op r"
| "describe m op (ItemEntry p # r) = (if op then describe (append_last m p) op r else None)"
| "describe m op (ItemAccount n v # r) =
     (if n \<in> fst ` set m then None
      else describe (m @ [(n, case v of ValOpen \<Rightarrow> [] | ValClosed ps \<Rightarrow> ps)]) (v = ValOpen) r)"
| "describe m op (ItemBad # r) = None"

text \<open>The whole map, and what the fixed table keeps of an entry.\<close>

definition file_map :: "bytes \<Rightarrow> (bytes \<times> bytes list) list option" where
  "file_map content = describe [] False (map classify (split_lines content))"

definition stored :: "bytes list \<Rightarrow> bytes list" where
  "stored ps = take SSOOSSH_MAX_MAP_PRINCIPALS (filter (\<lambda>p. length p < SSOOSSH_MAX_PRINCIPAL_LEN) ps)"

definition entry_of :: "(bytes \<times> bytes list) list \<Rightarrow> bytes \<Rightarrow> ssoossh_principals" where
  "entry_of m account =
     \<lparr>map_principals = (case map_of m account of None \<Rightarrow> [] | Some ps \<Rightarrow> stored ps),
      map_found = (account \<in> fst ` set m)\<rparr>"

section \<open>The loader follows the description\<close>

lemma store_stored:
  "map_found out \<Longrightarrow> map_principals out = stored ps \<Longrightarrow>
    store out p = out\<lparr>map_principals := stored (ps @ [p])\<rparr>"
  by (auto simp: store_def stored_def min_def)

lemma fold_store_stored:
  "map_found out \<Longrightarrow> map_principals out = stored ps \<Longrightarrow>
    foldl store out qs = out\<lparr>map_principals := stored (ps @ qs)\<rparr>"
proof (induction qs arbitrary: out ps)
  case (Cons q qs)
  have "foldl store (out\<lparr>map_principals := stored (ps @ [q])\<rparr>) qs =
      (out\<lparr>map_principals := stored (ps @ [q])\<rparr>)\<lparr>map_principals := stored ((ps @ [q]) @ qs)\<rparr>"
    by (rule Cons.IH) (use Cons.prems in simp_all)
  with Cons.prems show ?case by (simp add: store_stored)
qed (cases out, simp)

lemma those_Cons: "those (x # xs) =
    (case x of None \<Rightarrow> None | Some y \<Rightarrow> map_option (Cons y) (those xs))"
  by simp

lemma parse_flow_loop_eq:
  "(case parse_flow_loop inner out collect n of Inl e \<Rightarrow> None | Inr out' \<Rightarrow> Some out') =
    map_option (\<lambda>ps. if collect then foldl store out ps else out) (those (map list_item (split_on 0x2c inner)))"
proof (induction inner out collect n rule: parse_flow_loop.induct)
  case (1 inner out collect n)
  let ?piece = "takeWhile (\<lambda>c. c \<noteq> 0x2c) inner" and ?rest = "dropWhile (\<lambda>c. c \<noteq> 0x2c) inner"
  have split: "split_on 0x2c inner = ?piece # (if ?rest = [] then [] else split_on 0x2c (tl ?rest))"
    by (subst split_on.simps) (simp add: Let_def del: dropWhile_eq_Nil_conv)
  show ?case
  proof (cases "list_item ?piece")
    case None
    then show ?thesis
      unfolding split by (subst parse_flow_loop.simps)
        (auto simp: Let_def list_item_def split: option.splits if_splits)
  next
    case (Some p)
    then have p: "unquote (trim ?piece) = Some p" "p \<noteq> []"
      by (auto simp: list_item_def split: option.splits if_splits)
    let ?out = "if collect then store out p else out"
    have step: "parse_flow_loop inner out collect n =
        (if ?rest = [] then Inr ?out else parse_flow_loop (tl ?rest) ?out collect n)"
      by (subst parse_flow_loop.simps) (simp only: Let_def p option.case if_False)
    show ?thesis
    proof (cases "?rest = []")
      case True
      then show ?thesis unfolding split step using Some by simp
    next
      case False
      have "(case parse_flow_loop (tl ?rest) ?out collect n of Inl e \<Rightarrow> None | Inr out' \<Rightarrow> Some out') =
        map_option (\<lambda>ps. if collect then foldl store ?out ps else ?out)
          (those (map list_item (split_on 0x2c (tl ?rest))))"
        by (rule 1 [OF refl refl p refl False])
      with False Some show ?thesis
        unfolding split step
        by (simp del: dropWhile_eq_Nil_conv add: option.map_comp comp_def)
    qed
  qed
qed

lemma parse_flow_eq:
  "(case parse_flow value out collect n of Inl e \<Rightarrow> None | Inr out' \<Rightarrow> Some out') =
    map_option (\<lambda>ps. if collect then foldl store out ps else out) (flow_value value)"
  by (auto simp: parse_flow_def flow_value_def Let_def parse_flow_loop_eq)


lemma strip_comment_hd: "strip_comment_loop a b c (x # xs) \<noteq> [] \<Longrightarrow> hd (strip_comment_loop a b c (x # xs)) = x"
  by (auto split: if_splits)

lemma strip_comment_first: "strip_comment raw \<noteq> [] \<Longrightarrow> raw \<noteq> [] \<and> hd raw = hd (strip_comment raw)"
  using strip_comment_hd by (cases raw) (auto simp: strip_comment_def simp del: strip_comment_loop.simps(2))

lemma trim_Nil: "trim [] = []"
  by (simp add: trim_def)

text \<open>The rescan finds exactly the accounts of the lines it goes over.\<close>

lemma account_line_classify:
  "classify raw \<noteq> ItemBad \<Longrightarrow> account_line name raw \<longleftrightarrow> (\<exists>v. classify raw = ItemAccount name v)"
proof -
  assume ok: "classify raw \<noteq> ItemBad"
  let ?c = "strip_comment raw" and ?t = "trim (strip_comment raw)"
  consider (blank) "?t = []" | (item) "?t \<noteq> []" "hd ?t = 0x2d" | (acc) "?t \<noteq> []" "hd ?t \<noteq> 0x2d" by blast
  then show ?thesis
  proof cases
    case blank
    then show ?thesis using ok by (auto simp: classify_def account_line_def Let_def split: if_splits)
  next
    case item
    then show ?thesis
      using ok by (auto simp: classify_def account_line_def Let_def split: if_splits option.splits)
  next
    case acc
    then have c: "?c \<noteq> []" using trim_Nil by auto
    have ind: "takeWhile is_blank ?c = []" and ai: "classify raw = account_item ?t"
      using ok acc by (auto simp: classify_def Let_def split: if_splits)
    have "\<not> is_blank (hd raw)" "raw \<noteq> []"
      using ind c strip_comment_first [OF c] by (cases ?c; auto split: if_splits)+
    then have "account_line name raw \<longleftrightarrow> (case split_key ?t of None \<Rightarrow> False
         | Some (key, value) \<Rightarrow> (case unquote key of None \<Rightarrow> False | Some u \<Rightarrow> u = name))"
      using acc by (simp add: account_line_def Let_def)
    with ok ai show ?thesis
      by (auto simp: account_item_def split: option.splits if_splits)
  qed
qed

text \<open>The loop's state beside the description read so far.\<close>

definition map_sim :: "bytes \<Rightarrow> bytes list \<Rightarrow> map_state \<Rightarrow> (bytes \<times> bytes list) list \<Rightarrow> bool \<Rightarrow> bool" where
  "map_sim account before st m op \<longleftrightarrow>
     ms_out st = entry_of m account \<and> ms_open st = op \<and> (op \<longrightarrow> m \<noteq> []) \<and>
     (m \<noteq> [] \<longrightarrow> (ms_ours st \<longleftrightarrow> fst (last m) = account)) \<and> distinct (map fst m) \<and>
     (\<forall>name. account_seen before name \<longleftrightarrow> name \<in> fst ` set m)"

lemma account_seen_append:
  "account_seen (before @ [raw]) name \<longleftrightarrow> account_seen before name \<or> account_line name raw"
  by (auto simp: account_seen_def)

lemma entry_append_last:
  assumes "m \<noteq> []" "distinct (map fst m)"
  shows "entry_of (append_last m p) account =
    (if fst (last m) = account then store (entry_of m account) p else entry_of m account)"
proof -
  obtain n ps l where m: "m = l @ [(n, ps)]"
    using assms(1) by (cases m rule: rev_cases) auto
  then have n: "n \<notin> fst ` set l" using assms(2) by auto
  then have "map_of l n = None" by (simp add: map_of_eq_None_iff)
  then show ?thesis
    using n store_stored [of "entry_of m account" ps p]
    by (auto simp: m append_last_def entry_of_def map_add_def split: option.splits)
qed

lemma fst_append_last: "m \<noteq> [] \<Longrightarrow> map fst (append_last m p) = map fst m"
  by (cases m rule: rev_cases) (auto simp: append_last_def)


lemma map_item_line_eq:
  "map_item_line st n content =
    (if tl content \<noteq> [] \<and> hd (tl content) \<noteq> 0x20 then map_item_line st n content
     else case list_item (tl content) of
       None \<Rightarrow> Inl (projl (map_item_line st n content))
     | Some p \<Rightarrow>
        if \<not> ms_open st then Inl (projl (map_item_line st n content))
        else Inr (if ms_ours st then st\<lparr>ms_out := store (ms_out st) p\<rparr> else st))"
  by (auto simp: map_item_line_def list_item_def Let_def split: option.splits)

lemma map_account_line_eq:
  "(case map_account_line account before st n content of Inl e \<Rightarrow> None | Inr st' \<Rightarrow> Some st') =
    (case account_item content of
       ItemAccount name v \<Rightarrow>
         if account_seen before name then None
         else
           let ours = (name = account);
               out = (if ours then (ms_out st)\<lparr>map_found := True\<rparr> else ms_out st) in
           Some \<lparr>ms_out = (case v of ValOpen \<Rightarrow> out
                    | ValClosed ps \<Rightarrow> if ours then foldl store out ps else out),
                 ms_ours = ours, ms_open = (v = ValOpen)\<rparr>
     | _ \<Rightarrow> None)"
proof -
  have flow: "(case (case parse_flow val out ours n of Inl e \<Rightarrow> Inl e
        | Inr out' \<Rightarrow> Inr \<lparr>ms_out = out', ms_ours = ours, ms_open = False\<rparr>) of
       Inl e \<Rightarrow> None | Inr st' \<Rightarrow> Some st') =
     map_option (\<lambda>ps. \<lparr>ms_out = if ours then foldl store out ps else out, ms_ours = ours, ms_open = False\<rparr>)
       (flow_value val)" for val out ours
    using parse_flow_eq [of val out ours n]
    by (cases "parse_flow val out ours n"; cases "flow_value val") auto
  show ?thesis
    by (auto simp: map_account_line_def account_item_def Let_def flow split: option.split)
qed

lemma map_sim_blank: "map_sim account before st m op \<Longrightarrow> classify raw = ItemBlank \<Longrightarrow>
    map_sim account (before @ [raw]) st m op"
  using account_line_classify [of raw] by (auto simp: map_sim_def account_seen_append)

lemma map_sim_entry:
  assumes "map_sim account before st m True" "classify raw = ItemEntry p"
  shows "map_sim account (before @ [raw])
    (if ms_ours st then st\<lparr>ms_out := store (ms_out st) p\<rparr> else st) (append_last m p) True"
proof -
  have m: "m \<noteq> []" "distinct (map fst m)" using assms(1) by (simp_all add: map_sim_def)
  have dom: "fst ` set (append_last m p) = fst ` set m"
    using arg_cong [OF fst_append_last [OF m(1), of p], of set] by simp
  have l: "append_last m p \<noteq> []" "fst (last (append_last m p)) = fst (last m)"
    by (simp_all add: append_last_def)
  show ?thesis
    using assms account_line_classify [of raw] entry_append_last [OF m, of p account]
      fst_append_last [OF m(1), of p] dom l
    by (auto simp: map_sim_def account_seen_append)
qed

lemma map_sim_account:
  assumes "map_sim account before st m op" "classify raw = ItemAccount n v" "n \<notin> fst ` set m"
  shows "map_sim account (before @ [raw])
    \<lparr>ms_out = (let out = (if n = account then (ms_out st)\<lparr>map_found := True\<rparr> else ms_out st) in
        case v of ValOpen \<Rightarrow> out
        | ValClosed ps \<Rightarrow> if n = account then foldl store out ps else out),
     ms_ours = (n = account), ms_open = (v = ValOpen)\<rparr>
    (m @ [(n, case v of ValOpen \<Rightarrow> [] | ValClosed ps \<Rightarrow> ps)]) (v = ValOpen)"
proof -
  have none: "map_of m n = None" using assms(3) by (simp add: map_of_eq_None_iff)
  have out: "ms_out st = entry_of m account" using assms(1) by (simp add: map_sim_def)
  have e: "entry_of (m @ [(n, ps)]) account =
      (if n = account then (entry_of m account)\<lparr>map_found := True, map_principals := stored ps\<rparr>
       else entry_of m account)" for ps
    using none by (auto simp: entry_of_def map_add_def split: option.splits)
  have "stored [] = []" by (simp add: stored_def)
  moreover have "map_principals (entry_of m n) = []" using none by (simp add: entry_of_def)
  ultimately have f: "foldl store ((entry_of m n)\<lparr>map_found := True\<rparr>) ps =
      (entry_of m n)\<lparr>map_found := True, map_principals := stored ps\<rparr>" for ps
    using fold_store_stored [of "(entry_of m n)\<lparr>map_found := True\<rparr>" "[]" ps] by simp
  have o: "(entry_of m n)\<lparr>map_found := True, map_principals := stored []\<rparr> = (entry_of m n)\<lparr>map_found := True\<rparr>"
    using none by (simp add: entry_of_def stored_def)
  show ?thesis
    using assms account_line_classify [of raw] e f o out
    by (auto simp: map_sim_def account_seen_append Let_def split: map_value.splits)
qed

lemma map_line_blank: "classify raw = ItemBlank \<Longrightarrow> map_line account before st n raw = Inr st"
  by (auto simp: classify_def map_line_def Let_def account_item_def split: if_splits option.splits)

lemma map_line_entry: "classify raw = ItemEntry p \<Longrightarrow>
    \<exists>e. map_line account before st n raw =
      (if \<not> ms_open st then Inl e
       else Inr (if ms_ours st then st\<lparr>ms_out := store (ms_out st) p\<rparr> else st))"
  by (auto simp: classify_def map_line_def map_item_line_def list_item_def Let_def account_item_def
      split: if_splits option.splits)

lemma map_line_bad: "classify raw = ItemBad \<Longrightarrow> \<exists>e. map_line account before st n raw = Inl e"
proof -
  let ?c = "strip_comment raw"
  assume bad: "classify raw = ItemBad"
  show ?thesis
  proof (cases "0x09 \<notin> set (takeWhile is_blank ?c) \<and> trim ?c \<noteq> [] \<and> hd (trim ?c) \<noteq> 0x2d \<and>
      takeWhile is_blank ?c = []")
    case True
    then have "account_item (trim ?c) = ItemBad" "map_line account before st n raw =
        map_account_line account before st n (trim ?c)"
      using bad by (simp_all add: classify_def map_line_def Let_def)
    then show ?thesis
      using map_account_line_eq [of account before st n "trim ?c"]
      by (auto split: sum.splits)
  next
    case False
    then show ?thesis
      using bad by (auto simp: classify_def map_line_def map_item_line_def list_item_def Let_def
        split: if_splits option.splits)
  qed
qed

lemma map_line_account:
  assumes "classify raw = ItemAccount name v"
  shows "\<exists>e. map_line account before st n raw =
    (if account_seen before name then Inl e
     else Inr \<lparr>ms_out = (let out = (if name = account then (ms_out st)\<lparr>map_found := True\<rparr> else ms_out st) in
          case v of ValOpen \<Rightarrow> out
          | ValClosed ps \<Rightarrow> if name = account then foldl store out ps else out),
        ms_ours = (name = account), ms_open = (v = ValOpen)\<rparr>)"
proof -
  let ?c = "strip_comment raw"
  have "account_item (trim ?c) = ItemAccount name v"
    "map_line account before st n raw = map_account_line account before st n (trim ?c)"
    using assms by (auto simp: classify_def map_line_def Let_def split: if_splits option.splits)
  then show ?thesis
    using map_account_line_eq [of account before st n "trim ?c"]
    by (auto simp: Let_def split: sum.splits if_splits)
qed

lemma map_load_loop_step:
  "map_line account before st (length before + 1) raw = Inr st' \<Longrightarrow>
    map_load_loop account before (raw # rest) st = map_load_loop account (before @ [raw]) rest st'"
  by simp

lemma map_load_loop_sim:
  "map_sim account before st m op \<Longrightarrow>
    (case describe m op (map classify rest) of
       None \<Rightarrow> \<exists>e. map_load_loop account before rest st = Inl e
     | Some m' \<Rightarrow> \<exists>st'. map_load_loop account before rest st = Inr st' \<and> ms_out st' = entry_of m' account)"
proof (induction rest arbitrary: before st m op)
  case Nil
  then show ?case by (simp add: map_sim_def)
next
  case (Cons raw rest)
  let ?n = "length before + 1"
  show ?case
  proof (cases "classify raw")
    case ItemBlank
    then show ?thesis
      using map_line_blank [OF ItemBlank, of account before st ?n]
        Cons.IH [OF map_sim_blank [OF Cons.prems ItemBlank]] by (auto simp: ItemBlank split: option.splits)
  next
    case (ItemEntry p)
    have op: "ms_open st = op" using Cons.prems by (simp add: map_sim_def)
    show ?thesis
    proof (cases op)
      case True
      then have sim: "map_sim account before st m True" using Cons.prems by simp
      from True show ?thesis
        using map_line_entry [OF ItemEntry, of account before st ?n] ItemEntry op
          Cons.IH [OF map_sim_entry [OF sim ItemEntry]] by (auto split: option.splits)
    next
      case False
      then show ?thesis
        using map_line_entry [OF ItemEntry, of account before st ?n] ItemEntry op by auto
    qed
  next
    case (ItemAccount name v)
    have seen: "account_seen before name \<longleftrightarrow> name \<in> fst ` set m"
      using Cons.prems by (simp add: map_sim_def)
    show ?thesis
    proof (cases "name \<in> fst ` set m")
      case True
      then show ?thesis
        using map_line_account [OF ItemAccount, of account before st ?n] ItemAccount seen by auto
    next
      case False
      then have "map_line account before st ?n raw = Inr
        \<lparr>ms_out = (let out = (if name = account then (ms_out st)\<lparr>map_found := True\<rparr> else ms_out st) in
            case v of ValOpen \<Rightarrow> out
            | ValClosed ps \<Rightarrow> if name = account then foldl store out ps else out),
          ms_ours = (name = account), ms_open = (v = ValOpen)\<rparr>"
        using map_line_account [OF ItemAccount, of account before st ?n] seen by (auto simp only: if_False)
      note step = map_load_loop_step [OF this, of rest]
      have d: "describe m op (map classify (raw # rest)) =
          describe (m @ [(name, case v of ValOpen \<Rightarrow> [] | ValClosed ps \<Rightarrow> ps)]) (v = ValOpen) (map classify rest)"
        using False by (simp add: ItemAccount)
      show ?thesis
        unfolding step d by (rule Cons.IH [OF map_sim_account [OF Cons.prems ItemAccount False]])
    qed
  next
    case ItemBad
    then show ?thesis using map_line_bad [OF ItemBad, of account before st ?n] by auto
  qed
qed

lemma map_load_described:
  "case ssoossh_principals_map_load malloc_ok path source account err_cap of (status, out, err) \<Rightarrow>
    (case source of
       FileData content \<Rightarrow>
         if \<not> malloc_ok then status = MAP_UNREADABLE \<and> out = no_principals
         else if MAX_MAP_FILE \<le> length content then status = MAP_MALFORMED \<and> out = no_principals
         else
           (case file_map content of
              None \<Rightarrow> status = MAP_MALFORMED \<and> out = no_principals
            | Some m \<Rightarrow> status = MAP_OK \<and> out = entry_of m account)
     | _ \<Rightarrow> status = MAP_UNREADABLE \<and> out = no_principals)"
proof (cases source)
  case (FileData content)
  let ?st = "\<lparr>ms_out = no_principals, ms_ours = False, ms_open = False\<rparr>"
  have "map_sim account [] ?st [] False"
    by (simp add: map_sim_def account_seen_def entry_of_def no_principals_def)
  from map_load_loop_sim [OF this, of "split_lines content"] FileData show ?thesis
    by (auto simp: ssoossh_principals_map_load_def Let_def file_map_def split: option.splits)
qed (simp_all add: ssoossh_principals_map_load_def Let_def)


end
