(* ===== verification/Checks.thy ===== *)
theory Checks
  imports Args Ssh_Cert Principals_Map
begin

text \<open>
  src/checks.c: the four checks that decide a login.  A check gives its verdict and the lines it
  logs.  The map file comes from \<open>read_file\<close>, with \<open>malloc_ok\<close> for the one allocation of its loader;
  the current time is an argument, as in the source.  \<open>int64_t\<close> sums and differences are taken modulo
  2^64, which is one of the behaviours C allows where they overflow; the theorem on the validity
  window says where they do not.

  The lemmas: each check succeeds exactly under the condition its comment states, the log text of
  the certificate's principals is bounded and printable, and where the window is evaluated wrongly.
\<close>

section \<open>Log text\<close>

text \<open>An instant the C library cannot break down, or that does not fit, is a question mark.\<close>

definition utc_string :: "int \<Rightarrow> bytes" where
  "utc_string t = (case utc_text t 32 of None \<Rightarrow> bs ''?'' | Some s \<Rightarrow> s)"

fun principals_string_loop :: "nat \<Rightarrow> bytes list \<Rightarrow> bytes \<Rightarrow> bytes" where
  "principals_string_loop out_cap [] out = out"
| "principals_string_loop out_cap (p # ps) out =
     (let (whole, one) = ssoossh_log_escape p 256;
          need = length one + (if length out > 0 then 1 else 0) in
      if \<not> whole \<or> length out + need + 4 \<ge> out_cap then out @ bs ''...''
      else principals_string_loop out_cap ps ((if length out > 0 then out @ bs '','' else out) @ one))"

definition principals_string :: "ssoossh_cert \<Rightarrow> nat \<Rightarrow> bytes" where
  "principals_string cert out_cap = principals_string_loop out_cap (cert_principals cert) []"

section \<open>Check 1: the signature\<close>

fun ca_signature_loop ::
    "'k openssl \<Rightarrow> ssoossh_cert \<Rightarrow> nat \<Rightarrow> nat \<Rightarrow> ca_key list \<Rightarrow> bool \<Rightarrow> log_line list \<Rightarrow>
     ca_key option \<times> bool \<times> log_line list" where
  "ca_signature_loop ossl cert count i [] saw logs = (None, saw, logs)"
| "ca_signature_loop ossl cert count i (k # ks) saw logs =
     (case ssoossh_cert_verify ossl cert (ca_blob k) of
        (VERIFY_OK, l) \<Rightarrow>
          (Some k, saw,
           logs @ l @ [ssoossh_debugf ''check 1/4 CA signature: signed by %s, trusted CA %zu of %zu''
             [AStr (ssoossh_sshkey_fingerprint ossl (ca_blob k)), ANum (int i + 1), ANum (int count)]])
      | (VERIFY_UNSUPPORTED, l) \<Rightarrow> ca_signature_loop ossl cert count (i + 1) ks True (logs @ l)
      | (_, l) \<Rightarrow> ca_signature_loop ossl cert count (i + 1) ks saw (logs @ l))"

definition ssoossh_check_ca_signature ::
    "'k openssl \<Rightarrow> ssoossh_cert \<Rightarrow> ca_list \<Rightarrow> ca_key option \<times> log_line list" where
  "ssoossh_check_ca_signature ossl cert cas =
     (case ca_signature_loop ossl cert (length (ca_keys cas)) 0 (ca_keys cas) False [] of
        (Some k, _, logs) \<Rightarrow> (Some k, logs)
      | (None, saw_unsupported, logs) \<Rightarrow>
          let cert_fp = ssoossh_sshkey_fingerprint ossl (cert_signature_key cert) in
          if saw_unsupported then
            (None, logs @ [ssoossh_errf ''certificate signature algorithm %s cannot be verified by this build (signature key %s, crypto %s): ssh-rsa means RSA with SHA-1 and is refused by policy; any other algorithm here is one this host's crypto does not provide''
               [AStr (ssoossh_log_escape_str (cert_signature_algo cert) 256), AStr cert_fp,
                AStr (OpenSSL_version ossl)]])
          else
            (None, logs @ [ssoossh_errf ''certificate is not signed by a trusted CA (signature key %s, %zu trusted key(s) tried)''
               [AStr cert_fp, ANum (int (length (ca_keys cas)))]]))"

section \<open>Check 2: the key\<close>

definition ssoossh_check_key_binding ::
    "'k openssl \<Rightarrow> ssoossh_cert \<Rightarrow> bytes \<Rightarrow> bool \<times> log_line list" where
  "ssoossh_check_key_binding ossl cert our_key =
     (if length (cert_key_blob cert) = 0 then
        (False, [ssoossh_errf ''certificate carries no public key'' []])
      else if length (cert_key_blob cert) \<noteq> length our_key \<or> cert_key_blob cert \<noteq> our_key then
        (False, [ssoossh_errf ''certificate public key %s does not match the key generated for this attempt %s''
           [AStr (ssoossh_sshkey_fingerprint ossl (cert_key_blob cert)),
            AStr (ssoossh_sshkey_fingerprint ossl our_key)]])
      else
        (True, [ssoossh_debugf ''check 2/4 key binding: certificate key %s matches the key generated for this attempt''
           [AStr (ssoossh_sshkey_fingerprint ossl (cert_key_blob cert))]]))"

section \<open>Check 3: the principal\<close>

text \<open>The certificate's principals as the C strings the map comparison is given.\<close>

definition principal_names :: "ssoossh_cert \<Rightarrow> bytes list" where
  "principal_names cert =
     map c_str (filter (\<lambda>p. \<not> length p \<ge> SSOOSSH_MAX_PRINCIPAL_LEN) (cert_principals cert))"

definition ssoossh_check_principal ::
    "bool \<Rightarrow> (bytes \<Rightarrow> file_read) \<Rightarrow> ssoossh_cert \<Rightarrow> bytes \<Rightarrow> bytes \<Rightarrow> bool \<times> log_line list" where
  "ssoossh_check_principal malloc_ok read_file cert username map_path =
     (let listed = AStr (principals_string cert 512);
          who = AStr (ssoossh_log_escape_str username 256);
          serial = ANum (uint (cert_serial cert));
          (whole, id) = ssoossh_log_escape (cert_key_id cert) 256;
          dots = AStr (if whole then [] else bs ''...'');
          not_mapped = ssoossh_errf ''certificate principals [%s] do not include \"%s\", certificate ID \"%s\"%s (serial %llu)''
            [listed, who, AStr id, dots, serial]
      in
      if ssoossh_cert_has_principal cert username then
        (True, [ssoossh_debugf ''check 3/4 principal: certificate principals [%s] include account \"%s\" (exact match)''
           [listed, who]])
      else if map_path \<noteq> [] then
        (case ssoossh_principals_map_load malloc_ok map_path (read_file map_path) username 256 of
           (MAP_OK, allowed, _) \<Rightarrow>
             if ssoossh_principals_allow allowed (principal_names cert) then
               (True, [ssoossh_debugf ''check 3/4 principal: account \"%s\" authorized via principals-map %s (certificate principals [%s])''
                  [who, AStr map_path, listed]])
             else
               (False, [ssoossh_errf ''certificate principals [%s] include neither the account \"%s\" nor any principal %s maps to it, certificate ID \"%s\"%s (serial %llu)''
                  [listed, who, AStr map_path, AStr id, dots, serial]])
         | (_, _, err) \<Rightarrow>
             (False, [ssoossh_warnf ''principals-map %s could not be loaded, so only an exact principal match applies: %s''
                [AStr map_path, AStr err], not_mapped]))
      else (False, [not_mapped]))"

section \<open>Check 4: the validity window\<close>

definition clamp64 :: "64 word \<Rightarrow> int" where
  "clamp64 w = (if uint w > INT64_MAX then INT64_MAX else uint w)"

text \<open>C's division truncates towards zero.\<close>

definition tolerance_seconds :: "int \<Rightarrow> int" where
  "tolerance_seconds tolerance =
     (if tolerance < 0 then - ((- tolerance) div SSOOSSH_SECOND) else tolerance div SSOOSSH_SECOND)"

definition ssoossh_check_validity :: "ssoossh_cert \<Rightarrow> int \<Rightarrow> int \<Rightarrow> bool \<times> log_line list" where
  "ssoossh_check_validity cert now tolerance =
     (let after = clamp64 (cert_valid_after cert); before = clamp64 (cert_valid_before cert);
          tolerance_s = tolerance_seconds tolerance;
          tol = AStr (ssoossh_duration_string tolerance) in
      if now < wrap64 (after - tolerance_s) then
        (False, [ssoossh_errf ''certificate not yet valid, %s of skew, tolerance %s''
           [AStr (ssoossh_duration_string (wrap64 (wrap64 (after - now) * SSOOSSH_SECOND))), tol]])
      else if now > wrap64 (before + tolerance_s) then
        (False, [ssoossh_errf ''certificate expired, %s of skew, tolerance %s''
           [AStr (ssoossh_duration_string (wrap64 (wrap64 (now - before) * SSOOSSH_SECOND))), tol]])
      else
        (True, [ssoossh_debugf ''check 4/4 validity window: now is within [%s, %s] (tolerance %s, %llds remaining)''
           [AStr (utc_string after), AStr (utc_string before), tol, ANum (wrap64 (before - now))]]))"


section \<open>What the checks decide\<close>

lemma ca_signature_loop_find:
  "fst (ca_signature_loop ossl cert count i ks saw logs) =
    find (\<lambda>k. fst (ssoossh_cert_verify ossl cert (ca_blob k)) = VERIFY_OK) ks"
  by (induction ossl cert count i ks saw logs rule: ca_signature_loop.induct)
    (auto split: prod.splits ssoossh_verify_result.splits)

lemma check_ca_signature_find:
  "fst (ssoossh_check_ca_signature ossl cert cas) =
    find (\<lambda>k. fst (ssoossh_cert_verify ossl cert (ca_blob k)) = VERIFY_OK) (ca_keys cas)"
  using ca_signature_loop_find [of ossl cert "length (ca_keys cas)" 0 "ca_keys cas" False "[]"]
  by (auto simp: ssoossh_check_ca_signature_def Let_def split: prod.splits option.splits)

lemma check_key_binding_iff:
  "fst (ssoossh_check_key_binding ossl cert key) \<longleftrightarrow> cert_key_blob cert = key \<and> key \<noteq> []"
  by (auto simp: ssoossh_check_key_binding_def)

text \<open>The map file gives the account a principal that the certificate lists.\<close>

definition map_grants :: "file_read \<Rightarrow> bytes \<Rightarrow> bytes list \<Rightarrow> bool" where
  "map_grants source account ps \<longleftrightarrow>
    (\<exists>content m entry. source = FileData content \<and> length content < MAX_MAP_FILE \<and>
       file_map content = Some m \<and> map_of m account = Some entry \<and>
       (\<exists>p \<in> set ps. length p < SSOOSSH_MAX_PRINCIPAL_LEN \<and> (\<exists>q \<in> set (stored entry). c_str p = c_str q)))"

lemma map_entry_iff:
  "map_found (entry_of m account) \<longleftrightarrow> map_of m account \<noteq> None"
  "map_of m account = Some ps \<Longrightarrow> map_principals (entry_of m account) = stored ps"
  by (simp_all add: entry_of_def map_of_eq_None_iff)

lemma principals_allow_iff:
  "ssoossh_principals_allow (entry_of m account) names \<longleftrightarrow>
    (\<exists>entry. map_of m account = Some entry \<and>
      (\<exists>c \<in> set names. \<exists>q \<in> set (stored entry). c_str c = c_str q))"
  by (cases "map_of m account") (auto simp: ssoossh_principals_allow_def map_entry_iff list_ex_iff)

lemma principal_names_set:
  "(\<exists>c \<in> set (principal_names cert). P (c_str c)) \<longleftrightarrow>
    (\<exists>p \<in> set (cert_principals cert). length p < SSOOSSH_MAX_PRINCIPAL_LEN \<and> P (c_str p))"
  by (auto simp: principal_names_def not_le)

lemma map_grants_load:
  "(case ssoossh_principals_map_load malloc_ok path source account cap of
      (MAP_OK, allowed, _) \<Rightarrow> ssoossh_principals_allow allowed (principal_names cert)
    | _ \<Rightarrow> False) \<longleftrightarrow> malloc_ok \<and> map_grants source account (cert_principals cert)"
proof -
  obtain st out err where load: "ssoossh_principals_map_load malloc_ok path source account cap = (st, out, err)"
    by (metis prod_cases3)
  note spec = map_load_described [where malloc_ok = malloc_ok and path = path and source = source and account = account
    and err_cap = cap, unfolded load prod.case]
  have grants: "ssoossh_principals_allow (entry_of m account) (principal_names cert) \<longleftrightarrow>
      (\<exists>entry. map_of m account = Some entry \<and> (\<exists>p \<in> set (cert_principals cert).
         length p < SSOOSSH_MAX_PRINCIPAL_LEN \<and> (\<exists>q \<in> set (stored entry). c_str p = c_str q)))" for m
    unfolding principals_allow_iff
    using principal_names_set [of cert "\<lambda>n. \<exists>q \<in> set (stored (the (map_of m account))). n = c_str q"]
    by (cases "map_of m account") simp_all
  have none: "st \<noteq> MAP_OK \<Longrightarrow> \<not> (case ssoossh_principals_map_load malloc_ok path source account cap of
      (MAP_OK, allowed, _) \<Rightarrow> ssoossh_principals_allow allowed (principal_names cert) | _ \<Rightarrow> False)"
    by (cases st) (simp_all add: load)
  show ?thesis
  proof (cases source)
    case (FileData content)
    show ?thesis
    proof (cases "malloc_ok \<and> length content < MAX_MAP_FILE \<and> file_map content \<noteq> None")
      case True
      then obtain m where m: "file_map content = Some m" by auto
      then have "st = MAP_OK" "out = entry_of m account" using spec True FileData by (auto simp: not_le)
      then have "(case ssoossh_principals_map_load malloc_ok path source account cap of
            (MAP_OK, allowed, _) \<Rightarrow> ssoossh_principals_allow allowed (principal_names cert) | _ \<Rightarrow> False) \<longleftrightarrow>
          ssoossh_principals_allow (entry_of m account) (principal_names cert)" by (simp add: load)
      also have "\<dots> \<longleftrightarrow> map_grants source account (cert_principals cert)"
        using grants [of m] True FileData by (simp add: map_grants_def m)
      finally show ?thesis using True by simp
    next
      case False
      then have "st \<noteq> MAP_OK" using spec FileData by (auto split: if_splits option.splits)
      moreover have "\<not> (malloc_ok \<and> map_grants source account (cert_principals cert))"
        using False FileData by (auto simp: map_grants_def)
      ultimately show ?thesis using none by simp
    qed
  qed (use spec none in \<open>auto simp: map_grants_def\<close>)
qed

lemma check_principal_spec:
  "fst (ssoossh_check_principal malloc_ok read_file cert username map_path) \<longleftrightarrow>
    username \<in> set (cert_principals cert) \<or>
    map_path \<noteq> [] \<and> malloc_ok \<and> map_grants (read_file map_path) username (cert_principals cert)"
  unfolding map_grants_load [symmetric, of malloc_ok _ _ _ map_path 256]
  by (auto simp: ssoossh_check_principal_def ssoossh_cert_has_principal_def list_ex_iff Let_def
      split: prod.splits ssoossh_map_status.splits)


lemma principals_string_loop_safe:
  assumes "length out + 4 \<le> cap" and "\<forall>b \<in> set out. printable b"
  shows "length (principals_string_loop cap ps out) < cap \<and>
    (\<forall>b \<in> set (principals_string_loop cap ps out). printable b)"
  using assms
proof (induction cap ps out rule: principals_string_loop.induct)
  case (2 cap p ps out)
  obtain whole one where one: "ssoossh_log_escape p 256 = (whole, one)" by (cases "ssoossh_log_escape p 256")
  have esc: "\<forall>b \<in> set one. printable b" using escape.run_alphabet [of _ p 256] one by fastforce
  have marks: "printable 0x2c" "printable 0x2e" by (simp_all add: printable_def)
  define need where "need = length one + (if length out > 0 then 1 else 0)"
  show ?case
  proof (cases "\<not> whole \<or> length out + need + 4 \<ge> cap")
    case True
    then have "principals_string_loop cap (p # ps) out = out @ bs ''...''"
      by (simp only: principals_string_loop.simps one Let_def prod.case need_def [symmetric] if_True)
    then show ?thesis using "2.prems" marks by simp
  next
    case False
    then have "principals_string_loop cap (p # ps) out =
        principals_string_loop cap ps ((if length out > 0 then out @ bs '','' else out) @ one)"
      by (simp only: principals_string_loop.simps one Let_def prod.case need_def [symmetric] if_False)
    moreover have "length ((if length out > 0 then out @ bs '','' else out) @ one) + 4 \<le> cap"
      using False by (simp add: need_def split: if_splits)
    moreover have "\<forall>b \<in> set ((if length out > 0 then out @ bs '','' else out) @ one). printable b"
      using "2.prems" esc marks by auto
    ultimately show ?thesis using "2.IH" [OF one [symmetric] refl refl False [unfolded need_def]] by metis
  qed
qed auto

text \<open>
  The signer that check 1 reports is the first trusted key, in file order, with which the
  certificate's signature verifies, and the check fails exactly when there is none.
\<close>

theorem check_ca_signature_first:
  "fst (ssoossh_check_ca_signature ossl cert cas) =
    find (\<lambda>k. fst (ssoossh_cert_verify ossl cert (ca_blob k)) = VERIFY_OK) (ca_keys cas)"
  by (rule check_ca_signature_find)

text \<open>
  C17: check 3 accepts exactly an account whose own name is a principal of the certificate, byte
  for byte, or for which a map is configured, could be read whole and is well formed, and lists one
  of the certificate's principals under the account.  A map never takes an account's own name away.
\<close>

theorem check_principal_iff:
  "fst (ssoossh_check_principal malloc_ok read_file cert username map_path) \<longleftrightarrow>
    username \<in> set (cert_principals cert) \<or>
    map_path \<noteq> [] \<and> malloc_ok \<and> map_grants (read_file map_path) username (cert_principals cert)"
  by (rule check_principal_spec)

text \<open>
  What check 3 writes about a certificate's principals stays inside its 512-byte buffer and is
  printable ASCII, whatever bytes the certificate holds.
\<close>

theorem principals_string_safe:
  "length (principals_string cert 512) < 512 \<and> list_all printable (principals_string cert 512)"
  unfolding principals_string_def list_all_iff by (rule principals_string_loop_safe) simp_all

section \<open>The validity window\<close>

definition int64 :: "int \<Rightarrow> bool" where
  "int64 x \<longleftrightarrow> - (2 ^ 63) \<le> x \<and> x < 2 ^ 63"

lemma wrap64_int64: "int64 x \<Longrightarrow> wrap64 x = x"
  by (simp add: wrap64_def int64_def)

lemma check_validity_spec:
  assumes "int64 (clamp64 (cert_valid_after cert) - tolerance_seconds tolerance)"
    and "int64 (clamp64 (cert_valid_before cert) + tolerance_seconds tolerance)"
  shows "fst (ssoossh_check_validity cert now tolerance) \<longleftrightarrow>
    clamp64 (cert_valid_after cert) - tolerance_seconds tolerance \<le> now \<and>
    now \<le> clamp64 (cert_valid_before cert) + tolerance_seconds tolerance"
  using assms by (auto simp: ssoossh_check_validity_def Let_def wrap64_int64)



text \<open>
  C40: with two's complement wrap-around, a certificate without an end (OpenSSH's all-ones bound)
  is refused at every time of the clock as soon as the tolerance is a second or more, as the
  default is: the clamped bound plus the tolerance is negative.
\<close>

theorem check_validity_forever_refused:
  assumes "cert_valid_before cert = - 1" and "SSOOSSH_SECOND \<le> tolerance" and "tolerance \<le> INT64_MAX"
    and "0 \<le> now"
  shows "\<not> fst (ssoossh_check_validity cert now tolerance)"
proof -
  define t where "t = tolerance_seconds tolerance"
  have t: "1 \<le> t" "t \<le> INT64_MAX div SSOOSSH_SECOND"
    using assms(2,3) zdiv_mono1 [of tolerance INT64_MAX SSOOSSH_SECOND] zdiv_mono1 [of SSOOSSH_SECOND tolerance SSOOSSH_SECOND]
    by (auto simp: t_def tolerance_seconds_def SSOOSSH_SECOND_def SSOOSSH_MILLISECOND_def)
  have before: "clamp64 (cert_valid_before cert) = INT64_MAX"
    using assms(1) by (simp add: clamp64_def INT64_MAX_def unsigned_minus_1_eq_mask mask_eq_exp_minus_1)
  have "wrap64 (INT64_MAX + t) < 0"
    using wrap64_sum_neg [of INT64_MAX t] t by (auto simp: INT64_MAX_def SSOOSSH_SECOND_def SSOOSSH_MILLISECOND_def)
  then show ?thesis using assms(4) before by (auto simp: ssoossh_check_validity_def Let_def t_def)
qed

theorem check_validity_forever_refused_witness:
  "\<not> fst (ssoossh_check_validity (demo_cert []\<lparr>cert_valid_before := - 1\<rparr>) 1800000000 SSOOSSH_DEFAULT_SKEW_TOLERANCE)"
  by (rule check_validity_forever_refused)
    (simp_all add: SSOOSSH_DEFAULT_SKEW_TOLERANCE_def SSOOSSH_SECOND_def SSOOSSH_MILLISECOND_def INT64_MAX_def)

end
