(* ===== verification/Conv.thy ===== *)
theory Conv
  imports Prelude "HOL-Library.Sublist"
begin

text \<open>
  src/conv.c: what may reach the user's terminal, and the one message sent through the PAM
  conversation.  The text to filter is a C string.  The conversation function of the application,
  with whatever it acts on, is a function over a state of its own; the array of responses it
  allocates is \<open>None\<close> for the null pointer and otherwise the text of its one response, which may
  be null too.

  The lemmas: nothing outside the class passes, nothing is reordered or made up, and the number
  returned accounts for every byte.
\<close>

section \<open>PAM\<close>

datatype pam_code =
  PAM_SUCCESS | PAM_AUTH_ERR | PAM_AUTHINFO_UNAVAIL | PAM_CONV_ERR | PAM_IGNORE | PAM_ABORT
  | PAM_USER_UNKNOWN | PAM_NO_MODULE_DATA | PAM_OTHER int

datatype pam_style = PAM_TEXT_INFO | PAM_ERROR_MSG | PAM_PROMPT_ECHO_ON | PAM_PROMPT_ECHO_OFF

type_synonym 'w pam_conv = "pam_style \<Rightarrow> bytes \<Rightarrow> 'w \<Rightarrow> pam_code \<times> bytes option option \<times> 'w"

section \<open>The classes\<close>

datatype ssoossh_text_class = TEXT_URL | TEXT_CODE | TEXT_QR

definition SSOOSSH_QR_UPPER :: bytes where "SSOOSSH_QR_UPPER = [0xe2, 0x96, 0x80]"
definition SSOOSSH_QR_LOWER :: bytes where "SSOOSSH_QR_LOWER = [0xe2, 0x96, 0x84]"
definition SSOOSSH_QR_BOTH :: bytes where "SSOOSSH_QR_BOTH = [0xe2, 0x96, 0x88]"

definition code_char :: "byte \<Rightarrow> bool" where
  "code_char c \<longleftrightarrow>
     (if 0x30 \<le> c \<and> c \<le> 0x39 then True
      else if 0x41 \<le> c \<and> c \<le> 0x5a then c \<notin> set (bs ''ILOU'')
      else c = 0x2d)"

definition url_char :: "byte \<Rightarrow> bool" where
  "url_char c \<longleftrightarrow>
     0x41 \<le> c \<and> c \<le> 0x5a \<or> 0x61 \<le> c \<and> c \<le> 0x7a \<or> 0x30 \<le> c \<and> c \<le> 0x39 \<or>
     c \<in> set (bs (''-._~:/?#[]@!$&'' @ [CHR 0x27] @ ''()*+,;=%''))"

section \<open>The filter\<close>

text \<open>The number of bytes dropped, and the C string in the buffer.\<close>

definition qr_take :: "bytes \<Rightarrow> nat" where
  "qr_take s =
     (if hd s = 0x20 \<or> hd s = 0x0a then 1
      else if length s \<ge> 3 \<and> take 3 s \<in> {SSOOSSH_QR_UPPER, SSOOSSH_QR_LOWER, SSOOSSH_QR_BOTH} then 3
      else 0)"

function sanitize_qr_loop :: "nat \<Rightarrow> bytes \<Rightarrow> bytes \<Rightarrow> nat \<Rightarrow> nat \<times> bytes" where
  "sanitize_qr_loop out_size s out dropped =
     (if s = [] then (dropped, out)
      else
        let n = qr_take s in
        if n = 0 then sanitize_qr_loop out_size (tl s) out (dropped + 1)
        else if length out + n + 1 > out_size then (dropped + length s, out)
        else sanitize_qr_loop out_size (drop n s) (out @ take n s) dropped)"
  by pat_completeness auto
termination
  by (relation "measure (\<lambda>(out_size, s, out, dropped). length s)") (auto simp: qr_take_def)

declare sanitize_qr_loop.simps [simp del]

definition sanitize_qr :: "bytes \<Rightarrow> nat \<Rightarrow> nat \<times> bytes" where
  "sanitize_qr s out_size = sanitize_qr_loop out_size s [] 0"

fun sanitize_loop :: "(byte \<Rightarrow> bool) \<Rightarrow> nat \<Rightarrow> bytes \<Rightarrow> bytes \<Rightarrow> nat \<Rightarrow> nat \<times> bytes" where
  "sanitize_loop ok out_size [] out dropped = (dropped, out)"
| "sanitize_loop ok out_size (c # s) out dropped =
     (if \<not> ok c then sanitize_loop ok out_size s out (dropped + 1)
      else if length out + 1 \<ge> out_size then (dropped + length (c # s), out)
      else sanitize_loop ok out_size s (out @ [c]) dropped)"

definition ssoossh_sanitize :: "ssoossh_text_class \<Rightarrow> bytes \<Rightarrow> nat \<Rightarrow> nat \<times> bytes" where
  "ssoossh_sanitize cls s out_size =
     (if out_size = 0 then (length s, [])
      else if cls = TEXT_QR then sanitize_qr s out_size
      else sanitize_loop (if cls = TEXT_CODE then code_char else url_char) out_size s [] 0)"

section \<open>The conversation\<close>

text \<open>The item libpam hands out for the conversation, and whether a response is wanted.\<close>

definition ssoossh_conv ::
    "pam_code \<times> 'w pam_conv option \<Rightarrow> pam_style \<Rightarrow> bytes \<Rightarrow> bool \<Rightarrow> 'w \<Rightarrow> pam_code \<times> bytes option \<times> 'w" where
  "ssoossh_conv item style text want w =
     (case item of
        (PAM_SUCCESS, None) \<Rightarrow> (PAM_CONV_ERR, None, w)
      | (PAM_SUCCESS, Some conv) \<Rightarrow>
          (case conv style text w of
             (rc, resp, w) \<Rightarrow>
               (case resp of
                  None \<Rightarrow> (rc, None, w)
                | Some r \<Rightarrow> (rc, if rc = PAM_SUCCESS \<and> want then r else None, w)))
      | (rc, _) \<Rightarrow> (rc, None, w))"

section \<open>What passes\<close>

text \<open>The pieces a class is made of.\<close>

fun text_pieces :: "ssoossh_text_class \<Rightarrow> bytes set" where
  "text_pieces TEXT_URL = {[c] |c. url_char c}"
| "text_pieces TEXT_CODE = {[c] |c. code_char c}"
| "text_pieces TEXT_QR = {[0x20], [0x0a], SSOOSSH_QR_UPPER, SSOOSSH_QR_LOWER, SSOOSSH_QR_BOTH}"

definition text_of_class :: "ssoossh_text_class \<Rightarrow> bytes \<Rightarrow> bool" where
  "text_of_class cls s \<longleftrightarrow> (\<exists>ps. s = concat ps \<and> set ps \<subseteq> text_pieces cls)"

lemma text_of_class_Nil [simp]: "text_of_class cls []"
  by (auto simp: text_of_class_def intro!: exI [of _ "[]"])

lemma text_of_class_append: "text_of_class cls s \<Longrightarrow> p \<in> text_pieces cls \<Longrightarrow> text_of_class cls (s @ p)"
  unfolding text_of_class_def
proof (elim exE conjE)
  fix ps assume "s = concat ps" "set ps \<subseteq> text_pieces cls" "p \<in> text_pieces cls"
  then show "\<exists>ps. s @ p = concat ps \<and> set ps \<subseteq> text_pieces cls" by (intro exI [of _ "ps @ [p]"]) simp
qed

lemma qr_take_piece: "s \<noteq> [] \<Longrightarrow> qr_take s \<noteq> 0 \<Longrightarrow> take (qr_take s) s \<in> text_pieces TEXT_QR \<and> qr_take s \<le> length s"
  by (cases s) (auto simp: qr_take_def split: if_splits)

text \<open>What a run of the filter keeps: class, room, order and count.\<close>

definition filtered :: "ssoossh_text_class \<Rightarrow> nat \<Rightarrow> bytes \<Rightarrow> bytes \<Rightarrow> nat \<Rightarrow> nat \<times> bytes \<Rightarrow> bool" where
  "filtered cls cap s out dropped r \<longleftrightarrow>
    text_of_class cls (snd r) \<and> length (snd r) < cap \<and>
    (\<exists>kept. snd r = out @ kept \<and> subseq kept s \<and> fst r + length kept = dropped + length s)"

lemma filtered_refl:
  "text_of_class cls out \<Longrightarrow> length out < cap \<Longrightarrow> n = dropped + length s \<Longrightarrow> filtered cls cap s out dropped (n, out)"
  by (auto simp: filtered_def intro!: exI [of _ "[]"])

lemma filtered_drop:
  "filtered cls cap s out (dropped + 1) r \<Longrightarrow> filtered cls cap (c # s) out dropped r"
  by (auto simp: filtered_def)

lemma filtered_keep:
  assumes "filtered cls cap s (out @ p) dropped r"
  shows "filtered cls cap (p @ s) out dropped r"
proof -
  obtain kept where "snd r = out @ p @ kept" "subseq kept s" "fst r + length kept = dropped + length s"
    using assms by (auto simp: filtered_def)
  then show ?thesis using assms unfolding filtered_def
    by (intro conjI exI [of _ "p @ kept"] list_emb_append_mono) auto
qed

lemma sanitize_loop_filtered:
  assumes "text_pieces cls = {[c] |c. ok c}" and "text_of_class cls out" and "length out < cap"
  shows "filtered cls cap s out dropped (sanitize_loop ok cap s out dropped)"
  using assms(2,3)
proof (induction s arbitrary: out dropped)
  case (Cons c s)
  consider "\<not> ok c" | "ok c" "length out + 1 \<ge> cap" | "ok c" "length out + 1 < cap" by linarith
  then show ?case
  proof cases
    case 1
    then show ?thesis using Cons by (auto intro: filtered_drop)
  next
    case 2
    then show ?thesis using Cons.prems by (auto intro: filtered_refl)
  next
    case 3
    have "text_of_class cls (out @ [c])" using Cons.prems 3 assms(1) by (auto intro: text_of_class_append)
    then show ?thesis using Cons.IH [of "out @ [c]"] 3 filtered_keep [of cls cap s out "[c]"] by simp
  qed
qed (simp add: filtered_refl)

lemma sanitize_qr_loop_filtered:
  assumes "text_of_class TEXT_QR out" and "length out < cap"
  shows "filtered TEXT_QR cap s out dropped (sanitize_qr_loop cap s out dropped)"
  using assms
proof (induction cap s out dropped rule: sanitize_qr_loop.induct)
  case (1 cap s out dropped)
  note step = sanitize_qr_loop.simps [of cap s out dropped]
  show ?case
  proof (cases "s = []")
    case True
    then show ?thesis using "1.prems" by (simp add: sanitize_qr_loop.simps [of cap "[]"] filtered_refl)
  next
    case ne: False
    then obtain c s' where s: "s = c # s'" by (cases s) auto
    consider "qr_take s = 0" | "qr_take s \<noteq> 0" "length out + qr_take s + 1 > cap"
      | "qr_take s \<noteq> 0" "length out + qr_take s + 1 \<le> cap" by linarith
    then show ?thesis
    proof cases
      case 1
      then have "filtered TEXT_QR cap s' out (dropped + 1) (sanitize_qr_loop cap s' out (dropped + 1))"
        using "1.IH"(1) [OF ne refl] "1.prems" by (simp add: s)
      then show ?thesis using 1 ne filtered_drop by (simp add: step) (simp add: s filtered_drop)
    next
      case 2
      then show ?thesis using ne "1.prems" by (auto simp: step Let_def intro: filtered_refl)
    next
      case 3
      note piece = qr_take_piece [OF ne 3(1)]
      have "filtered TEXT_QR cap (drop (qr_take s) s) (out @ take (qr_take s) s) dropped
          (sanitize_qr_loop cap (drop (qr_take s) s) (out @ take (qr_take s) s) dropped)"
        using "1.IH"(2) [OF ne refl] 3 "1.prems" piece by (simp add: text_of_class_append)
      from filtered_keep [OF this] show ?thesis using 3 ne by (simp add: step Let_def)
    qed
  qed
qed

lemma sanitize_filtered:
  assumes "0 < cap"
  shows "filtered cls cap s [] 0 (ssoossh_sanitize cls s cap)"
  using assms sanitize_qr_loop_filtered [of "[]" cap s 0]
    sanitize_loop_filtered [of cls "if cls = TEXT_CODE then code_char else url_char" "[]" cap s 0]
  by (cases cls) (auto simp: ssoossh_sanitize_def sanitize_qr_def)

text \<open>The bytes that may occur in a class.\<close>

definition class_byte :: "ssoossh_text_class \<Rightarrow> byte \<Rightarrow> bool" where
  "class_byte cls b \<longleftrightarrow> (\<exists>p \<in> text_pieces cls. b \<in> set p)"

interpretation sanitizer: text_filter "\<lambda>cap s. snd (ssoossh_sanitize cls s cap)" "class_byte cls" for cls
proof unfold_locales
  fix b cap s assume b: "b \<in> set (snd (ssoossh_sanitize cls s cap))"
  then have "0 < cap" by (cases cap) (auto simp: ssoossh_sanitize_def)
  from sanitize_filtered [OF this, of cls s] show "class_byte cls b"
    using b by (auto simp: filtered_def text_of_class_def class_byte_def) blast
next
  fix cap :: nat and s
  assume "0 < cap"
  from sanitize_filtered [OF this, of cls s] show "length (snd (ssoossh_sanitize cls s cap)) < cap"
    by (simp add: filtered_def)
qed

lemma sanitize_spec:
  assumes "0 < cap"
  shows "case ssoossh_sanitize cls s cap of (dropped, out) \<Rightarrow>
    text_of_class cls out \<and> length out < cap \<and> subseq out s \<and> dropped + length out = length s"
  using sanitize_filtered [OF assms, of cls s] by (auto simp: filtered_def split: prod.split)

text \<open>
  What the filter lets through to a terminal is made only of the pieces of its class (for a QR
  code whole three-byte blocks, spaces and newlines), fits the buffer, and is the input with some
  bytes left out; the number it returns is exactly how many, so it is zero only for a text that
  came through unchanged.
\<close>

theorem sanitize_accounts:
  assumes "0 < cap"
  shows "case ssoossh_sanitize cls s cap of (dropped, out) \<Rightarrow>
    text_of_class cls out \<and> length out < cap \<and> subseq out s \<and> dropped + length out = length s \<and>
    (dropped = 0 \<longrightarrow> out = s)"
  using sanitize_spec [OF assms, of cls s] subseq_same_length by (auto split: prod.splits)

theorem sanitize_accounts_witness:
  "ssoossh_sanitize TEXT_QR [0x1b, 0xe2, 0x96, 0x88, 0xe2, 0x96, 0x20] 8 = (3, [0xe2, 0x96, 0x88, 0x20]) \<and>
   text_of_class TEXT_QR (snd (ssoossh_sanitize TEXT_QR [0x1b, 0xe2, 0x96, 0x88, 0xe2, 0x96, 0x20] 8))"
proof
  show "ssoossh_sanitize TEXT_QR [0x1b, 0xe2, 0x96, 0x88, 0xe2, 0x96, 0x20] 8 = (3, [0xe2, 0x96, 0x88, 0x20])"
    by (simp add: ssoossh_sanitize_def sanitize_qr_def sanitize_qr_loop.simps qr_take_def SSOOSSH_QR_UPPER_def
        SSOOSSH_QR_LOWER_def SSOOSSH_QR_BOTH_def)
  show "text_of_class TEXT_QR (snd (ssoossh_sanitize TEXT_QR [0x1b, 0xe2, 0x96, 0x88, 0xe2, 0x96, 0x20] 8))"
    using sanitize_accounts [of 8 TEXT_QR "[0x1b, 0xe2, 0x96, 0x88, 0xe2, 0x96, 0x20]"] by (auto split: prod.splits)
qed

text \<open>No byte of any class can start a control sequence.\<close>

lemma class_byte_safe: "class_byte cls b \<Longrightarrow> b = 0x0a \<or> 0x20 \<le> b \<and> b \<noteq> 0x7f"
  by (cases cls)
    (auto simp: class_byte_def url_char_def code_char_def SSOOSSH_QR_UPPER_def SSOOSSH_QR_LOWER_def
      SSOOSSH_QR_BOTH_def word_le_nat_alt split: if_splits)

end
