(* ===== verification/Qr.thy ===== *)
theory Qr
  imports Conv
begin

text \<open>
  src/qr.c: a QR code drawn with half blocks.  The encoder of third_party/qrcodegen is a parameter:
  for a text it gives none when the text does not fit the largest version asked for, and otherwise
  the number of modules of a side and whether the module in a column and row is dark.  The result is
  the text in the buffer, empty on every failure; the number returned is its length.

  The lemmas: the drawing passes the terminal filter of src/conv.c unchanged, it always fits the
  buffer the module has for it, and the code can be read back from it.
\<close>

section \<open>Drawing\<close>

type_synonym qrcode = "nat \<times> (nat \<Rightarrow> nat \<Rightarrow> bool)"

definition QUIET :: int where "QUIET = 2"
definition SSOOSSH_QR_MAX_OUT :: nat where "SSOOSSH_QR_MAX_OUT = 2560"

definition put :: "nat \<Rightarrow> bytes \<Rightarrow> bytes \<Rightarrow> bytes option" where
  "put out_cap s out = (if length out + length s + 1 > out_cap then None else Some (out @ s))"

definition light :: "qrcode \<Rightarrow> int \<Rightarrow> int \<Rightarrow> bool" where
  "light qr x y =
     (if x < 0 \<or> y < 0 \<or> x \<ge> int (fst qr) \<or> y \<ge> int (fst qr) then True
      else \<not> snd qr (nat x) (nat y))"

definition glyph :: "bool \<Rightarrow> bool \<Rightarrow> bytes" where
  "glyph t b =
     (if t \<and> b then SSOOSSH_QR_BOTH else if t then SSOOSSH_QR_UPPER
      else if b then SSOOSSH_QR_LOWER else [0x20])"

text \<open>One terminal row: the columns, and the newline behind them.\<close>

fun qr_columns :: "nat \<Rightarrow> qrcode \<Rightarrow> int \<Rightarrow> int list \<Rightarrow> bytes \<Rightarrow> bytes option" where
  "qr_columns out_cap qr y [] out = put out_cap [0x0a] out"
| "qr_columns out_cap qr y (x # xs) out =
     (case put out_cap (glyph (light qr x y) (light qr x (y + 1))) out of
        None \<Rightarrow> None
      | Some out \<Rightarrow> qr_columns out_cap qr y xs out)"

fun qr_rows :: "nat \<Rightarrow> qrcode \<Rightarrow> int list \<Rightarrow> int list \<Rightarrow> bytes \<Rightarrow> bytes option" where
  "qr_rows out_cap qr xs [] out = Some out"
| "qr_rows out_cap qr xs (y # ys) out =
     (case qr_columns out_cap qr y xs out of
        None \<Rightarrow> None
      | Some out \<Rightarrow> qr_rows out_cap qr xs ys out)"

text \<open>The values of the two loop counters.\<close>

definition qr_xs :: "nat \<Rightarrow> int list" where
  "qr_xs n = map (\<lambda>k. int k - QUIET) [0..<n + 4]"

definition qr_ys :: "nat \<Rightarrow> int list" where
  "qr_ys n = map (\<lambda>k. 2 * int k - QUIET) [0..<(n + 5) div 2]"

definition ssoossh_qr_render :: "(bytes \<Rightarrow> qrcode option) \<Rightarrow> bytes \<Rightarrow> nat \<Rightarrow> bytes" where
  "ssoossh_qr_render encodeText text out_cap =
     (if out_cap = 0 then []
      else
        (case encodeText text of
           None \<Rightarrow> []
         | Some qr \<Rightarrow>
             (case qr_rows out_cap qr (qr_xs (fst qr)) (qr_ys (fst qr)) [] of None \<Rightarrow> [] | Some out \<Rightarrow> out)))"

section \<open>The drawing as a list of pieces\<close>

definition row_pieces :: "qrcode \<Rightarrow> int list \<Rightarrow> int \<Rightarrow> bytes list" where
  "row_pieces qr xs y = map (\<lambda>x. glyph (light qr x y) (light qr x (y + 1))) xs @ [[0x0a]]"

definition picture :: "qrcode \<Rightarrow> bytes list" where
  "picture qr = concat (map (row_pieces qr (qr_xs (fst qr))) (qr_ys (fst qr)))"

lemma glyph_piece: "glyph t b \<in> text_pieces TEXT_QR"
  by (simp add: glyph_def)

lemma glyph_inj: "glyph t b = glyph t' b' \<longleftrightarrow> t = t' \<and> b = b'"
  by (auto simp: glyph_def SSOOSSH_QR_UPPER_def SSOOSSH_QR_LOWER_def SSOOSSH_QR_BOTH_def)

lemma picture_pieces: "set (picture qr) \<subseteq> text_pieces TEXT_QR"
  using glyph_piece by (auto simp: picture_def row_pieces_def simp del: text_pieces.simps) (simp_all)

lemma qr_columns_eq:
  "length out < cap \<Longrightarrow> qr_columns cap qr y xs out =
    (if length out + length (concat (row_pieces qr xs y)) < cap then Some (out @ concat (row_pieces qr xs y)) else None)"
  by (induction xs arbitrary: out) (auto simp: put_def row_pieces_def split: option.splits)

lemma qr_rows_eq:
  "length out < cap \<Longrightarrow> qr_rows cap qr xs ys out =
    (if length out + length (concat (concat (map (row_pieces qr xs) ys))) < cap
     then Some (out @ concat (concat (map (row_pieces qr xs) ys))) else None)"
  by (induction ys arbitrary: out) (auto simp: qr_columns_eq)

lemma qr_render_eq:
  "ssoossh_qr_render encodeText text cap =
    (case encodeText text of
       None \<Rightarrow> []
     | Some qr \<Rightarrow> if length (concat (picture qr)) < cap then concat (picture qr) else [])"
  by (auto simp: ssoossh_qr_render_def qr_rows_eq picture_def split: option.split)

text \<open>A drawing of version 4, the largest asked for, fits the module's buffer.\<close>

lemma glyph_length: "length (glyph t b) \<le> 3"
  by (simp add: glyph_def SSOOSSH_QR_UPPER_def SSOOSSH_QR_LOWER_def SSOOSSH_QR_BOTH_def)

lemma row_length: "length (concat (row_pieces qr xs y)) \<le> 3 * length xs + 1"
proof -
  have "length (concat (map (\<lambda>x. glyph (light qr x y) (light qr x (y + 1))) xs)) \<le> 3 * length xs"
  proof (induction xs)
    case (Cons x xs)
    then show ?case using glyph_length [of "light qr x y" "light qr x (y + 1)"] by simp
  qed simp
  then show ?thesis by (simp add: row_pieces_def)
qed

lemma rows_length: "length (concat (concat (map (row_pieces qr xs) ys))) \<le> length ys * (3 * length xs + 1)"
proof (induction ys)
  case (Cons y ys)
  then show ?case using row_length [of qr xs y] by simp
qed simp

lemma picture_fits:
  assumes "fst qr \<le> 33"
  shows "length (concat (picture qr)) < SSOOSSH_QR_MAX_OUT"
proof -
  have "length (concat (picture qr)) \<le> ((fst qr + 5) div 2) * (3 * (fst qr + 4) + 1)"
    using rows_length [of qr "qr_xs (fst qr)" "qr_ys (fst qr)"] by (simp add: picture_def qr_xs_def qr_ys_def)
  also have "\<dots> \<le> 19 * 112" using assms by (intro mult_le_mono) auto
  finally show ?thesis by (simp add: SSOOSSH_QR_MAX_OUT_def)
qed

section \<open>The filter and the drawing\<close>

lemma qr_take_own_piece: "p \<in> text_pieces TEXT_QR \<Longrightarrow> qr_take (p @ s) = length p"
  by (auto simp: qr_take_def SSOOSSH_QR_UPPER_def SSOOSSH_QR_LOWER_def SSOOSSH_QR_BOTH_def)

lemma piece_nonempty: "p \<in> text_pieces TEXT_QR \<Longrightarrow> p \<noteq> []"
  by (auto simp: SSOOSSH_QR_UPPER_def SSOOSSH_QR_LOWER_def SSOOSSH_QR_BOTH_def)

lemma pieces_inj:
  assumes "set ps \<subseteq> text_pieces TEXT_QR" and "set qs \<subseteq> text_pieces TEXT_QR" and "concat ps = concat qs"
  shows "ps = qs"
  using assms
proof (induction ps arbitrary: qs)
  case Nil
  then show ?case using piece_nonempty by (cases qs) auto
next
  case (Cons p ps)
  then obtain q qs' where qs: "qs = q # qs'" using piece_nonempty by (cases qs) auto
  have len: "length p = length q"
    using Cons.prems qr_take_own_piece [of p "concat ps"] qr_take_own_piece [of q "concat qs'"] by (simp add: qs)
  then have "p = q" "concat ps = concat qs'" using Cons.prems(3) by (simp_all add: qs)
  then show ?case using Cons.IH [of qs'] Cons.prems(1,2) by (simp add: qs)
qed

lemma sanitize_qr_pieces:
  assumes "set ps \<subseteq> text_pieces TEXT_QR" and "length out + length (concat ps) < cap"
  shows "sanitize_qr_loop cap (concat ps) out n = (n, out @ concat ps)"
  using assms
proof (induction ps arbitrary: out)
  case Nil
  then show ?case by (simp add: sanitize_qr_loop.simps)
next
  case (Cons p ps)
  then have p: "qr_take (p @ concat ps) = length p" "p \<noteq> []"
    using qr_take_own_piece piece_nonempty by auto
  then have "sanitize_qr_loop cap (concat (p # ps)) out n = sanitize_qr_loop cap (concat ps) (out @ p) n"
    using Cons.prems(2) by (simp add: sanitize_qr_loop.simps [of cap "p @ concat ps"])
  then show ?case using Cons by simp
qed

text \<open>
  C35: for every code of at most 33 modules a side, the largest the module asks for, the whole drawing
  fits the module's buffer and goes through the filter of the terminal without losing a byte: what
  the renderer draws with is exactly what the filter lets through.
\<close>

theorem qr_drawing_passes:
  assumes "encodeText text = Some qr" and "fst qr \<le> 33"
  shows "ssoossh_qr_render encodeText text SSOOSSH_QR_MAX_OUT = concat (picture qr) \<and>
    ssoossh_sanitize TEXT_QR (concat (picture qr)) SSOOSSH_QR_MAX_OUT = (0, concat (picture qr))"
  using picture_fits [OF assms(2)] assms(1) picture_pieces [of qr] sanitize_qr_pieces [of "picture qr" "[]"]
  by (auto simp: qr_render_eq ssoossh_sanitize_def sanitize_qr_def)

theorem qr_drawing_passes_witness:
  "ssoossh_sanitize TEXT_QR (ssoossh_qr_render (\<lambda>text. Some (21, \<lambda>x y. x = y)) (bs ''x'') SSOOSSH_QR_MAX_OUT) SSOOSSH_QR_MAX_OUT =
    (0, ssoossh_qr_render (\<lambda>text. Some (21, \<lambda>x y. x = y)) (bs ''x'') SSOOSSH_QR_MAX_OUT)"
  using qr_drawing_passes [of "\<lambda>text. Some (21, \<lambda>x y. x = y)" "bs ''x''" "(21, \<lambda>x y. x = y)"] by simp

lemma concat_map_inj:
  assumes "\<forall>y \<in> set ys. length (f y) = n \<and> length (g y) = n" and "concat (map f ys) = concat (map g ys)" and "y \<in> set ys"
  shows "f y = g y"
  using assms by (induction ys) auto

lemma light_module:
  "x < fst qr \<Longrightarrow> y < fst qr \<Longrightarrow> light qr (int x) (int y) \<longleftrightarrow> \<not> snd qr x y"
  by (simp add: light_def)

lemma picture_module:
  assumes "picture qr = picture qr'" and "fst qr = fst qr'" and "x < fst qr" and "y < fst qr"
  shows "snd qr x y = snd qr' x y"
proof -
  let ?xs = "qr_xs (fst qr)" and ?r = "int (y div 2 * 2)"
  have r: "?r \<in> set (qr_ys (fst qr))" unfolding qr_ys_def set_map
    using assms(4) by (intro image_eqI [of _ _ "y div 2 + 1"]) (auto simp: QUIET_def)
  have xin: "int x \<in> set ?xs" unfolding qr_xs_def set_map
    using assms(3) by (intro image_eqI [of _ _ "x + 2"]) (auto simp: QUIET_def)
  have rows: "concat (map (row_pieces qr ?xs) (qr_ys (fst qr))) = concat (map (row_pieces qr' ?xs) (qr_ys (fst qr)))"
    using assms(1) unfolding picture_def assms(2) [symmetric] .
  have "\<forall>y \<in> set (qr_ys (fst qr)). length (row_pieces qr ?xs y) = length ?xs + 1 \<and>
      length (row_pieces qr' ?xs y) = length ?xs + 1"
    by (simp add: row_pieces_def)
  from concat_map_inj [OF this rows r] have "row_pieces qr ?xs ?r = row_pieces qr' ?xs ?r" .
  then have "\<forall>x \<in> set ?xs. glyph (light qr x ?r) (light qr x (?r + 1)) = glyph (light qr' x ?r) (light qr' x (?r + 1))"
    by (simp add: row_pieces_def)
  then have both: "light qr (int x) ?r = light qr' (int x) ?r" "light qr (int x) (?r + 1) = light qr' (int x) (?r + 1)"
    using xin by (auto simp: glyph_inj)
  have "int y = ?r \<or> int y = ?r + 1" by presburger
  then have "light qr (int x) (int y) = light qr' (int x) (int y)" using both by auto
  then show ?thesis using light_module [of x qr y] light_module [of x qr' y] assms(2-4) by simp
qed



end
