(* ===== verification/Json_Doc.thy ===== *)
theory Json_Doc
  imports Json
begin

text \<open>
  JSON documents as src/json.c meets them: what the reader makes of a document is what the document
  says.  A document is a tree of strings, primitives, arrays and objects in compact form; the tokens
  the tokenizer must find in it are written down by recursion on the tree, and the loop of the
  tokenizer is shown to find them.
\<close>

section \<open>Documents\<close>

datatype jv = JStr bytes | JPrim bytes | JArr "jv list" | JObj "(bytes \<times> jv) list"

definition lit :: "bytes \<Rightarrow> bytes" where
  "lit s = 0x22 # literal_body s @ [0x22]"

text \<open>The comma in front of every element but the first.\<close>

definition sep :: "bool \<Rightarrow> bytes" where
  "sep first = (if first then [] else [0x2c])"

fun render :: "jv \<Rightarrow> bytes"
  and render_items :: "bool \<Rightarrow> jv list \<Rightarrow> bytes"
  and render_fields :: "bool \<Rightarrow> (bytes \<times> jv) list \<Rightarrow> bytes" where
  "render (JStr s) = lit s"
| "render (JPrim p) = p"
| "render (JArr vs) = 0x5b # render_items True vs @ [0x5d]"
| "render (JObj fs) = 0x7b # render_fields True fs @ [0x7d]"
| "render_items first [] = []"
| "render_items first (v # vs) = sep first @ render v @ render_items False vs"
| "render_fields first [] = []"
| "render_fields first ((n, v) # fs) = sep first @ lit n @ 0x3a # render v @ render_fields False fs"

definition prim_byte :: "byte \<Rightarrow> bool" where
  "prim_byte c \<longleftrightarrow> 32 < c \<and> c < 127 \<and> c \<notin> {0x22, 0x2c, 0x3a, 0x5b, 0x5d, 0x7b, 0x7d}"

fun proper :: "jv \<Rightarrow> bool" where
  "proper (JStr s) \<longleftrightarrow> 0 \<notin> set s"
| "proper (JPrim p) \<longleftrightarrow> p \<noteq> [] \<and> list_all prim_byte p"
| "proper (JArr vs) \<longleftrightarrow> list_all proper vs"
| "proper (JObj fs) \<longleftrightarrow> list_all (\<lambda>f. 0 \<notin> set (fst f) \<and> proper (snd f)) fs"

section \<open>The tokens of a document\<close>

text \<open>\<open>p\<close> is the offset of the value, \<open>i\<close> the index of its first token and \<open>s\<close> its parent's.\<close>

fun vtoks :: "nat \<Rightarrow> nat \<Rightarrow> int \<Rightarrow> jv \<Rightarrow> jsmntok_t list"
  and itoks :: "bool \<Rightarrow> nat \<Rightarrow> nat \<Rightarrow> int \<Rightarrow> jv list \<Rightarrow> jsmntok_t list"
  and ftoks :: "bool \<Rightarrow> nat \<Rightarrow> nat \<Rightarrow> int \<Rightarrow> (bytes \<times> jv) list \<Rightarrow> jsmntok_t list" where
  "vtoks p i s (JStr x) =
     [\<lparr>tok_type = JSMN_STRING, tok_start = int (p + 1), tok_end = int (p + 1 + length (literal_body x)), tok_size = 0, tok_parent = s\<rparr>]"
| "vtoks p i s (JPrim x) =
     [\<lparr>tok_type = JSMN_PRIMITIVE, tok_start = int p, tok_end = int (p + length x), tok_size = 0, tok_parent = s\<rparr>]"
| "vtoks p i s (JArr vs) =
     \<lparr>tok_type = JSMN_ARRAY, tok_start = int p, tok_end = int (p + length (render (JArr vs))), tok_size = length vs, tok_parent = s\<rparr> #
     itoks True (p + 1) (i + 1) (int i) vs"
| "vtoks p i s (JObj fs) =
     \<lparr>tok_type = JSMN_OBJECT, tok_start = int p, tok_end = int (p + length (render (JObj fs))), tok_size = length fs, tok_parent = s\<rparr> #
     ftoks True (p + 1) (i + 1) (int i) fs"
| "itoks first p i s [] = []"
| "itoks first p i s (v # vs) =
     vtoks (p + length (sep first)) i s v @
     itoks False (p + length (sep first) + length (render v)) (i + length (vtoks (p + length (sep first)) i s v)) s vs"
| "ftoks first p i s [] = []"
| "ftoks first p i s ((n, v) # fs) =
     (let q = p + length (sep first); r = q + length (lit n) + 1; t = vtoks r (i + 1) (int i) v in
      \<lparr>tok_type = JSMN_STRING, tok_start = int (q + 1), tok_end = int (q + 1 + length (literal_body n)), tok_size = 1, tok_parent = s\<rparr> #
      t @ ftoks False (r + length (render v)) (i + 1 + length t) s fs)"

text \<open>Closed, and linked to a token from \<open>k\<close> on in front of it.\<close>

definition linked :: "nat \<Rightarrow> nat \<Rightarrow> jsmntok_t list \<Rightarrow> bool" where
  "linked k i ts \<longleftrightarrow> (\<forall>j < length ts. tok_end (ts ! j) \<noteq> - 1 \<and> int k \<le> tok_parent (ts ! j) \<and> tok_parent (ts ! j) < int (i + j))"

lemma linked_Nil [simp]: "linked k i []"
  by (simp add: linked_def)

lemma linked_Cons [simp]:
  "linked k i (t # ts) \<longleftrightarrow> (tok_end t \<noteq> - 1 \<and> int k \<le> tok_parent t \<and> tok_parent t < int i) \<and> linked k (Suc i) ts"
  by (auto simp: linked_def All_less_Suc2 algebra_simps)

lemma linked_append [simp]: "linked k i (a @ b) \<longleftrightarrow> linked k i a \<and> linked k (i + length a) b"
  by (induction a arbitrary: i) auto

lemma toks_linked:
  "int k \<le> s \<Longrightarrow> s < int i \<Longrightarrow> linked k i (vtoks p i s v)"
  "int k \<le> s \<Longrightarrow> s < int i \<Longrightarrow> linked k i (itoks first p i s vs)"
  "int k \<le> s \<Longrightarrow> s < int i \<Longrightarrow> linked k i (ftoks first p i s fs)"
  by (induction p i s v and first p i s vs and first p i s fs arbitrary: k and k and k rule: vtoks_itoks_ftoks.induct)
    (auto simp: Let_def)

section \<open>The loop finds them\<close>

lemma loop_end: "pos \<ge> length js \<Longrightarrow> jsmn_loop num js pos s T = Inr T"
  by (simp add: jsmn_loop.simps [of num js pos])

lemma loop_step:
  assumes "drop pos js = c # r" and "c \<noteq> 0" and "jsmn_step num js pos s T = Inr (pos', s', T')"
  shows "jsmn_loop num js pos s T = jsmn_loop num js pos' s' T'"
proof -
  have "pos < length js" "js ! pos = c"
    using assms(1) by (metis drop_all list.distinct(1) not_le, metis assms(1) hd_drop_conv_nth list.sel(1) drop_all list.distinct(1) not_le)
  then show ?thesis using assms by (simp add: jsmn_loop.simps [of num js pos])
qed

lemma drop_at:
  assumes "drop pos js = c # r"
  shows "js ! pos = c" and "drop (pos + 1) js = r" and "drop (Suc pos) js = r"
  using assms by (metis drop_all hd_drop_conv_nth list.distinct(1) list.sel(1) not_le,
      metis Suc_eq_plus1 drop_Suc list.sel(3) tl_drop, metis drop_Suc list.sel(3) tl_drop)

lemma drop_app: "drop pos js = a @ b \<Longrightarrow> drop (pos + length a) js = b"
  by (metis append_eq_conv_conj drop_drop add.commute)

lemma loop_literal:
  assumes "drop pos js = lit x @ r" and "0 \<notin> set x" and "length T < num"
  shows "jsmn_loop num js pos s T = jsmn_loop num js (pos + length (lit x)) s
    (bump_size s (T @ [\<lparr>tok_type = JSMN_STRING, tok_start = int (pos + 1), tok_end = int (pos + 1 + length (literal_body x)),
      tok_size = 0, tok_parent = s\<rparr>]))"
proof -
  have d: "drop pos js = 0x22 # literal_body x @ 0x22 # r" using assms(1) by (simp add: lit_def)
  have "string_scan (drop (pos + 1) js) = Inr (length (literal_body x))"
    unfolding drop_at(2) [OF d] by (rule string_scan_body [OF assms(2)])
  then have "jsmn_step num js pos s T = Inr (pos + length (lit x), s,
    bump_size s (T @ [\<lparr>tok_type = JSMN_STRING, tok_start = int (pos + 1), tok_end = int (pos + 1 + length (literal_body x)),
      tok_size = 0, tok_parent = s\<rparr>]))"
    using assms(3) by (simp add: jsmn_step_def drop_at(1) [OF d] jsmn_parse_string_def lit_def)
  from loop_step [OF d _ this] show ?thesis by simp
qed

lemma bump_append: "s < int (length T) \<Longrightarrow> - 1 \<le> s \<Longrightarrow> bump_size s (T @ ts) = bump_size s T @ ts"
  by (auto simp: bump_size_def nth_append list_update_append)

lemma bump_at: "bump_size (int (length A)) (A @ t # D) = A @ t\<lparr>tok_size := tok_size t + 1\<rparr> # D"
  by (simp add: bump_size_def)

lemma primitive_scan_bytes:
  assumes "list_all prim_byte p" and "r = [] \<or> hd r \<in> {0x3a, 0x09, 0x0d, 0x0a, 0x20, 0x2c, 0x5d, 0x7d}"
  shows "primitive_scan (p @ r) = Some (length p)"
  using assms(1)
proof (induction p)
  case Nil
  then show ?case using assms(2) by (cases r) auto
next
  case (Cons c p)
  then have "32 < c" "c < 127" "c \<notin> {0x3a, 0x2c, 0x5d, 0x7d}" by (auto simp: prim_byte_def)
  moreover from this have "c \<noteq> 0" "c \<noteq> 0x09" "c \<noteq> 0x0d" "c \<noteq> 0x0a" "c \<noteq> 0x20" "\<not> c < 32" "\<not> 127 \<le> c" by auto
  ultimately show ?case using Cons by simp
qed

lemma loop_primitive:
  assumes "drop pos js = x @ r" and "x \<noteq> []" and "list_all prim_byte x" and "length T < num"
    and "r = [] \<or> hd r \<in> {0x3a, 0x09, 0x0d, 0x0a, 0x20, 0x2c, 0x5d, 0x7d}"
  shows "jsmn_loop num js pos s T = jsmn_loop num js (pos + length x) s
    (bump_size s (T @ [\<lparr>tok_type = JSMN_PRIMITIVE, tok_start = int pos, tok_end = int (pos + length x),
      tok_size = 0, tok_parent = s\<rparr>]))"
proof -
  obtain c y where x: "x = c # y" using assms(2) by (cases x) auto
  have d: "drop pos js = c # y @ r" using assms(1) by (simp add: x)
  have c: "32 < c" "c \<notin> {0x22, 0x2c, 0x3a, 0x5b, 0x5d, 0x7b, 0x7d}" using assms(3) by (auto simp: x prim_byte_def)
  then have c': "c \<noteq> 0" "c \<noteq> 0x09" "c \<noteq> 0x0d" "c \<noteq> 0x0a" "c \<noteq> 0x20" by auto
  have "primitive_scan (drop pos js) = Some (length x)"
    unfolding assms(1) by (rule primitive_scan_bytes [OF assms(3,5)])
  then have "jsmn_step num js pos s T = Inr (pos + length x, s,
    bump_size s (T @ [\<lparr>tok_type = JSMN_PRIMITIVE, tok_start = int pos, tok_end = int (pos + length x),
      tok_size = 0, tok_parent = s\<rparr>]))"
    using assms(4) c c' by (simp add: jsmn_step_def drop_at(1) [OF d] jsmn_parse_primitive_def)
  from loop_step [OF d c'(1) this] show ?thesis .
qed

lemma close_walk:
  assumes "tok_open t" and "tok_type t = type" and "linked (length A) (Suc (length A)) E"
    and "i \<le> length E" and "i + length A < fuel"
  shows "close_bracket fuel type pos s (A @ t # E) (length A + i) = Inr (tok_parent t, A @ t\<lparr>tok_end := int pos + 1\<rparr> # E)"
  using assms(4,5)
proof (induction i arbitrary: fuel rule: less_induct)
  case (less i)
  then obtain f where f: "fuel = Suc f" by (cases fuel) auto
  show ?case
  proof (cases i)
    case 0
    then show ?thesis using assms(1,2) by (simp add: f)
  next
    case (Suc j)
    define u where "u = E ! j"
    have at: "(A @ t # E) ! (length A + i) = u" by (simp add: Suc u_def nth_append)
    have u: "tok_end u \<noteq> - 1" "int (length A) \<le> tok_parent u" "tok_parent u < int (length A + i)"
      using assms(3) less.prems Suc by (auto simp: u_def linked_def)
    define m where "m = nat (tok_parent u) - length A"
    have m: "nat (tok_parent u) = length A + m" "m < i" "m \<le> length E" "m + length A < f"
      using u less.prems f by (auto simp: m_def)
    have "\<not> tok_open u" "tok_parent u \<noteq> - 1" using u by (auto simp: tok_open_def)
    then show ?thesis using less.IH [OF m(2-4)] unfolding f close_bracket.simps at Let_def by (simp add: m(1))
  qed
qed

lemma loop_close:
  assumes "drop pos js = c # r" and "c = (if type = JSMN_OBJECT then 0x7d else 0x5d)"
    and "type = JSMN_OBJECT \<or> type = JSMN_ARRAY"
    and "tok_open t" and "tok_type t = type" and "linked (length A) (Suc (length A)) E"
  shows "jsmn_loop num js pos s (A @ t # E) = jsmn_loop num js (pos + 1) (tok_parent t) (A @ t\<lparr>tok_end := int pos + 1\<rparr> # E)"
proof -
  have "close_bracket (length (A @ t # E)) type pos s (A @ t # E) (length (A @ t # E) - 1) =
      Inr (tok_parent t, A @ t\<lparr>tok_end := int pos + 1\<rparr> # E)"
    using close_walk [OF assms(4-6), of "length E" "length (A @ t # E)" pos s] by simp
  then have "jsmn_step num js pos s (A @ t # E) = Inr (pos + 1, tok_parent t, A @ t\<lparr>tok_end := int pos + 1\<rparr> # E)"
    using assms(2,3) by (auto simp: jsmn_step_def drop_at(1) [OF assms(1)])
  from loop_step [OF assms(1) _ this] show ?thesis using assms(2,3) by auto
qed

lemma loop_sep:
  assumes "drop pos js = sep first @ r"
    and "first \<and> s' = s \<or> \<not> first \<and> s \<noteq> - 1 \<and>
      s' = (if tok_type (T ! nat s) \<noteq> JSMN_ARRAY \<and> tok_type (T ! nat s) \<noteq> JSMN_OBJECT then tok_parent (T ! nat s) else s)"
  shows "jsmn_loop num js pos s T = jsmn_loop num js (pos + length (sep first)) s' T"
proof (cases first)
  case False
  then have d: "drop pos js = 0x2c # r" using assms(1) by (simp add: sep_def)
  have "jsmn_step num js pos s T = Inr (pos + 1, s', T)"
    using assms(2) False by (simp add: jsmn_step_def drop_at(1) [OF d])
  from loop_step [OF d _ this] show ?thesis using False by (simp add: sep_def)
qed (use assms in \<open>simp add: sep_def\<close>)

lemma loop_colon:
  assumes "drop pos js = 0x3a # r"
  shows "jsmn_loop num js pos s T = jsmn_loop num js (pos + 1) (int (length T) - 1) T"
proof -
  have "jsmn_step num js pos s T = Inr (pos + 1, int (length T) - 1, T)"
    by (simp add: jsmn_step_def drop_at(1) [OF assms])
  from loop_step [OF assms _ this] show ?thesis by simp
qed

lemma loop_open:
  assumes "drop pos js = c # r" and "c = (if type = JSMN_OBJECT then 0x7b else 0x5b)"
    and "type = JSMN_OBJECT \<or> type = JSMN_ARRAY" and "length T < num"
  shows "jsmn_loop num js pos s T = jsmn_loop num js (pos + 1) (int (length T))
    (bump_size s T @ [\<lparr>tok_type = type, tok_start = int pos, tok_end = - 1, tok_size = 0, tok_parent = s\<rparr>])"
proof -
  have "jsmn_step num js pos s T = Inr (pos + 1, int (length T),
    bump_size s T @ [\<lparr>tok_type = type, tok_start = int pos, tok_end = - 1, tok_size = 0, tok_parent = s\<rparr>])"
    using assms(2-4) by (auto simp: jsmn_step_def drop_at(1) [OF assms(1)])
  from loop_step [OF assms(1) _ this] show ?thesis using assms(2,3) by auto
qed

definition delimited :: "bytes \<Rightarrow> bool" where
  "delimited r \<longleftrightarrow> r = [] \<or> hd r \<in> {0x3a, 0x09, 0x0d, 0x0a, 0x20, 0x2c, 0x5d, 0x7d}"

definition grown :: "nat \<Rightarrow> jsmntok_t \<Rightarrow> jsmntok_t" where
  "grown n t = t\<lparr>tok_size := tok_size t + n\<rparr>"

lemma grown_simps [simp]:
  "tok_type (grown n t) = tok_type t" "tok_start (grown n t) = tok_start t" "tok_end (grown n t) = tok_end t"
  "tok_parent (grown n t) = tok_parent t" "grown m (grown n t) = grown (n + m) t" "grown 0 t = t"
  "bump_size (int (length A)) (A @ t # D) = A @ grown 1 t # D"
  by (simp_all add: grown_def bump_at)

lemma delimited_rest:
  "delimited (render_items False vs @ 0x5d # r)" "delimited (render_fields False fs @ 0x7d # r)"
  by (cases vs; simp add: delimited_def sep_def) (cases fs; auto simp: delimited_def sep_def)

lemma loop_value:
  "drop p js = render v @ r \<Longrightarrow> proper v \<Longrightarrow> delimited r \<Longrightarrow> - 1 \<le> s \<Longrightarrow> s < int (length T) \<Longrightarrow> i = length T \<Longrightarrow>
     length T + length (vtoks p i s v) \<le> num \<Longrightarrow>
     jsmn_loop num js p s T = jsmn_loop num js (p + length (render v)) s (bump_size s T @ vtoks p i s v)"
  "drop p js = render_items first vs @ 0x5d # r \<Longrightarrow> list_all proper vs \<Longrightarrow> s = int (length A) \<Longrightarrow>
     i = length (A @ t # D) \<Longrightarrow> i + length (itoks first p i s vs) \<le> num \<Longrightarrow> tok_type t = JSMN_ARRAY \<Longrightarrow>
     jsmn_loop num js p s (A @ t # D) = jsmn_loop num js (p + length (render_items first vs)) s
       (A @ grown (length vs) t # D @ itoks first p i s vs)"
  "drop p js = render_fields first fs @ 0x7d # r \<Longrightarrow> list_all (\<lambda>f. 0 \<notin> set (fst f) \<and> proper (snd f)) fs \<Longrightarrow> s = int (length A) \<Longrightarrow>
     i = length (A @ t # D) \<Longrightarrow> i + length (ftoks first p i s fs) \<le> num \<Longrightarrow> tok_type t = JSMN_OBJECT \<Longrightarrow>
     (if first then u = s
      else int (length A) < u \<and> u < int i \<and> tok_type ((A @ t # D) ! nat u) = JSMN_STRING \<and> tok_parent ((A @ t # D) ! nat u) = s) \<Longrightarrow>
     \<exists>u'. jsmn_loop num js p u (A @ t # D) = jsmn_loop num js (p + length (render_fields first fs)) u'
       (A @ grown (length fs) t # D @ ftoks first p i s fs)"
proof (induction p i s v and first p i s vs and first p i s fs arbitrary: T r and A t D r and A t D u r
    rule: vtoks_itoks_ftoks.induct)
  case (1 p i s x)
  then show ?case using loop_literal [of p js x r T num s] by (simp add: bump_append)
next
  case (2 p i s x)
  then show ?case using loop_primitive [of p js x r T num s] by (simp add: bump_append delimited_def)
next
  case (3 p i s vs)
  let ?t = "\<lparr>tok_type = JSMN_ARRAY, tok_start = int p, tok_end = - 1, tok_size = 0, tok_parent = s\<rparr>"
  have d: "drop p js = 0x5b # render_items True vs @ 0x5d # r" using "3.prems"(1) by simp
  have len: "length (bump_size s T) = i" using "3.prems"(6) by simp
  have d2: "drop (p + 1) js = render_items True vs @ 0x5d # r" by (rule drop_at(2) [OF d])
  have 1: "jsmn_loop num js p s T = jsmn_loop num js (p + 1) (int i) (bump_size s T @ [?t])"
    using loop_open [OF d, of JSMN_ARRAY T num s] "3.prems" by simp
  have 2: "jsmn_loop num js (p + 1) (int i) (bump_size s T @ [?t]) =
      jsmn_loop num js (p + 1 + length (render_items True vs)) (int i)
        (bump_size s T @ grown (length vs) ?t # itoks True (p + 1) (i + 1) (int i) vs)"
    using "3.IH" [OF d2, of "bump_size s T" ?t "[]"] "3.prems" len by simp
  have l: "linked i (Suc i) (itoks True (p + 1) (i + 1) (int i) vs)" using toks_linked(2) [of i "int i" "Suc i"] by simp
  have 3: "jsmn_loop num js (p + 1 + length (render_items True vs)) (int i)
        (bump_size s T @ grown (length vs) ?t # itoks True (p + 1) (i + 1) (int i) vs) =
      jsmn_loop num js (p + 1 + length (render_items True vs) + 1) s (bump_size s T @ vtoks p i s (JArr vs))"
    using loop_close [OF drop_app [OF d2], of JSMN_ARRAY "grown (length vs) ?t" "bump_size s T"
        "itoks True (p + 1) (i + 1) (int i) vs" num "int i"] l len
    by (simp add: tok_open_def grown_def algebra_simps)
  show ?case unfolding 1 2 3 by (simp add: algebra_simps)
next
  case (4 p i s fs)
  let ?t = "\<lparr>tok_type = JSMN_OBJECT, tok_start = int p, tok_end = - 1, tok_size = 0, tok_parent = s\<rparr>"
  have d: "drop p js = 0x7b # render_fields True fs @ 0x7d # r" using "4.prems"(1) by simp
  have len: "length (bump_size s T) = i" using "4.prems"(6) by simp
  have d2: "drop (p + 1) js = render_fields True fs @ 0x7d # r" by (rule drop_at(2) [OF d])
  have 1: "jsmn_loop num js p s T = jsmn_loop num js (p + 1) (int i) (bump_size s T @ [?t])"
    using loop_open [OF d, of JSMN_OBJECT T num s] "4.prems" by simp
  obtain u where 2: "jsmn_loop num js (p + 1) (int i) (bump_size s T @ [?t]) =
      jsmn_loop num js (p + 1 + length (render_fields True fs)) u
        (bump_size s T @ grown (length fs) ?t # ftoks True (p + 1) (i + 1) (int i) fs)"
    using "4.IH" [OF d2, of "bump_size s T" ?t "[]" "int i"] "4.prems" len by auto
  have l: "linked i (Suc i) (ftoks True (p + 1) (i + 1) (int i) fs)" using toks_linked(3) [of i "int i" "Suc i"] by simp
  have 3: "jsmn_loop num js (p + 1 + length (render_fields True fs)) u
        (bump_size s T @ grown (length fs) ?t # ftoks True (p + 1) (i + 1) (int i) fs) =
      jsmn_loop num js (p + 1 + length (render_fields True fs) + 1) s (bump_size s T @ vtoks p i s (JObj fs))"
    using loop_close [OF drop_app [OF d2], of JSMN_OBJECT "grown (length fs) ?t" "bump_size s T"
        "ftoks True (p + 1) (i + 1) (int i) fs" num u] l len
    by (simp add: tok_open_def grown_def algebra_simps)
  show ?case unfolding 1 2 3 by (simp add: algebra_simps)
next
  case (5 first p i s)
  then show ?case by simp
next
  case (6 first p i s v vs)
  let ?q = "p + length (sep first)"
  let ?ts = "vtoks ?q i s v"
  have d: "drop p js = sep first @ render v @ render_items False vs @ 0x5d # r" using "6.prems"(1) by simp
  have dv: "drop ?q js = render v @ render_items False vs @ 0x5d # r" by (rule drop_app [OF d])
  have dr: "drop (?q + length (render v)) js = render_items False vs @ 0x5d # r" by (rule drop_app [OF dv])
  have 1: "jsmn_loop num js p s (A @ t # D) = jsmn_loop num js ?q s (A @ t # D)"
    by (rule loop_sep [OF d]) (use "6.prems" in simp)
  have 2: "jsmn_loop num js ?q s (A @ t # D) = jsmn_loop num js (?q + length (render v)) s (A @ grown 1 t # D @ ?ts)"
    using "6.IH"(1) [OF dv, of "A @ t # D"] "6.prems" delimited_rest by simp
  show ?case unfolding 1 2 using "6.IH"(3) [OF dr, of A "grown 1 t" "D @ ?ts"] "6.prems"
    by (simp add: algebra_simps)
next
  case (7 first p i s)
  then show ?case by auto
next
  case (8 first p i s n v fs)
  let ?q = "p + length (sep first)"
  let ?m = "?q + length (lit n)"
  let ?k = "\<lparr>tok_type = JSMN_STRING, tok_start = int (?q + 1), tok_end = int (?q + 1 + length (literal_body n)), tok_size = 0, tok_parent = s\<rparr>"
  let ?ts = "vtoks (?m + 1) (i + 1) (int i) v"
  have d: "drop p js = sep first @ lit n @ 0x3a # render v @ render_fields False fs @ 0x7d # r" using "8.prems"(1) by simp
  have dn: "drop ?q js = lit n @ 0x3a # render v @ render_fields False fs @ 0x7d # r" by (rule drop_app [OF d])
  have dc: "drop ?m js = 0x3a # render v @ render_fields False fs @ 0x7d # r" by (rule drop_app [OF dn])
  have dv: "drop (?m + 1) js = render v @ render_fields False fs @ 0x7d # r" by (rule drop_at(2) [OF dc])
  have dr: "drop (?m + 1 + length (render v)) js = render_fields False fs @ 0x7d # r" by (rule drop_app [OF dv])
  have room: "i + 1 + length ?ts + length (ftoks False (?m + 1 + length (render v)) (i + 1 + length ?ts) s fs) \<le> num"
    using "8.prems"(5) by (simp add: Let_def algebra_simps)
  have 1: "jsmn_loop num js p u (A @ t # D) = jsmn_loop num js ?q s (A @ t # D)"
    by (rule loop_sep [OF d]) (use "8.prems" in \<open>auto split: if_splits\<close>)
  have 2: "jsmn_loop num js ?q s (A @ t # D) = jsmn_loop num js ?m s (A @ grown 1 t # D @ [?k])"
    using loop_literal [OF dn, of "A @ t # D" num s] "8.prems"(2,3,4) room by simp
  have 3: "jsmn_loop num js ?m s (A @ grown 1 t # D @ [?k]) = jsmn_loop num js (?m + 1) (int i) (A @ grown 1 t # D @ [?k])"
    using loop_colon [OF dc, of num s] "8.prems"(4) by simp
  have i: "int i = int (length (A @ grown 1 t # D))" using "8.prems"(4) by simp
  have 4: "jsmn_loop num js (?m + 1) (int i) (A @ grown 1 t # D @ [?k]) =
      jsmn_loop num js (?m + 1 + length (render v)) (int i) (A @ grown 1 t # D @ grown 1 ?k # ?ts)"
    using "8.IH"(1) [OF refl refl dv, of "A @ grown 1 t # D @ [?k]"] "8.prems"(2,4) room delimited_rest
      grown_simps(7) [of "A @ grown 1 t # D" ?k "[]"] unfolding i by simp
  have at: "(A @ grown 1 t # D @ grown 1 ?k # ?ts) ! i = grown 1 ?k"
    using "8.prems"(4) nth_append_length [of "A @ grown 1 t # D" "grown 1 ?k" ?ts] by simp
  have cond: "if False then int i = s
    else int (length A) < int i \<and> int i < int (i + 1 + length ?ts) \<and>
      tok_type ((A @ grown 1 t # D @ grown 1 ?k # ?ts) ! nat (int i)) = JSMN_STRING \<and>
      tok_parent ((A @ grown 1 t # D @ grown 1 ?k # ?ts) ! nat (int i)) = s"
    unfolding nat_int at using "8.prems"(4) by simp
  have "\<exists>u'. jsmn_loop num js (?m + 1 + length (render v)) (int i) (A @ grown 1 t # (D @ grown 1 ?k # ?ts)) =
      jsmn_loop num js (?m + 1 + length (render v) + length (render_fields False fs)) u'
        (A @ grown (length fs) (grown 1 t) # (D @ grown 1 ?k # ?ts) @
          ftoks False (?m + 1 + length (render v)) (i + 1 + length ?ts) s fs)"
    by (rule "8.IH"(2) [OF refl refl refl dr, of A "grown 1 t" "D @ grown 1 ?k # ?ts" "int i"])
      (rule cond | use "8.prems"(2-4,6) room in \<open>simp; fail\<close>)+
  moreover have "A @ grown (length fs) (grown 1 t) # (D @ grown 1 ?k # ?ts) @
      ftoks False (?m + 1 + length (render v)) (i + 1 + length ?ts) s fs =
      A @ grown (length ((n, v) # fs)) t # D @ ftoks first p i s ((n, v) # fs)"
    by (simp add: Let_def grown_def)
  moreover have "?m + 1 + length (render v) + length (render_fields False fs) = p + length (render_fields first ((n, v) # fs))"
    by simp
  ultimately show ?case unfolding 1 2 3 4 by (simp only:)
qed

lemma loop_blanks:
  assumes "drop p js = ws" and "list_all (\<lambda>c. c \<in> {0x09, 0x0d, 0x0a, 0x20}) ws"
  shows "jsmn_loop num js p s T = Inr T"
  using assms
proof (induction ws arbitrary: p)
  case Nil
  then show ?case by (simp add: loop_end)
next
  case (Cons c ws)
  have "jsmn_step num js p s T = Inr (p + 1, s, T)"
    using Cons.prems(2) by (auto simp: jsmn_step_def drop_at(1) [OF Cons.prems(1)])
  from loop_step [OF Cons.prems(1) _ this] show ?case
    using Cons.IH [OF drop_at(2) [OF Cons.prems(1)]] Cons.prems(2) by auto
qed

lemma toks_closed: "list_all (\<lambda>t. tok_end t \<noteq> - 1) (vtoks p i s v)"
proof -
  have closed: "linked k j ts \<Longrightarrow> list_all (\<lambda>t. tok_end t \<noteq> - 1) ts" for k j ts
    by (simp add: linked_def list_all_length)
  show ?thesis
    using closed [OF toks_linked(2) [of i "int i" "i + 1"]] closed [OF toks_linked(3) [of i "int i" "i + 1"]]
    by (cases v) auto
qed

lemma parse_document:
  assumes "proper v" and "length (vtoks 0 0 (- 1) v) \<le> num" and "list_all (\<lambda>c. c \<in> {0x09, 0x0d, 0x0a, 0x20}) ws"
  shows "jsmn_parse (render v @ ws) num = Inr (vtoks 0 0 (- 1) v)"
proof -
  have "delimited ws" using assms(3) by (cases ws) (auto simp: delimited_def)
  then have "jsmn_loop num (render v @ ws) 0 (- 1) [] =
      jsmn_loop num (render v @ ws) (length (render v)) (- 1) (vtoks 0 0 (- 1) v)"
    using loop_value(1) [of 0 "render v @ ws" v ws "- 1" "[]" 0 num] assms by (simp add: bump_size_def)
  also have "\<dots> = Inr (vtoks 0 0 (- 1) v)" by (rule loop_blanks [OF _ assms(3)]) simp
  finally show ?thesis using toks_closed [of 0 0 "- 1" v] by (auto simp: jsmn_parse_def tok_open_def list_ex_iff list_all_iff)
qed

section \<open>Reading fields\<close>

lemma toks_span:
  "proper v \<Longrightarrow> \<forall>t \<in> set (vtoks p i s v). int p \<le> tok_start t \<and> tok_start t < int (p + length (render v))"
  "list_all proper vs \<Longrightarrow> \<forall>t \<in> set (itoks first p i s vs). int p \<le> tok_start t \<and> tok_start t < int (p + length (render_items first vs))"
  "list_all (\<lambda>f. 0 \<notin> set (fst f) \<and> proper (snd f)) fs \<Longrightarrow>
     \<forall>t \<in> set (ftoks first p i s fs). int p \<le> tok_start t \<and> tok_start t < int (p + length (render_fields first fs))"
proof (induction p i s v and first p i s vs and first p i s fs rule: vtoks_itoks_ftoks.induct)
  case (6 first p i s v vs)
  then show ?case by fastforce
next
  case (8 first p i s n v fs)
  then show ?case by (fastforce simp: Let_def lit_def)
qed (fastforce simp: lit_def)+

lemma skip_value:
  assumes "drop i toks = vtoks p j s v @ R" and "proper v" and "\<forall>t \<in> set R. int (p + length (render v)) \<le> tok_start t"
  shows "skip toks i = i + length (vtoks p j s v)"
proof -
  obtain t ts where v: "vtoks p j s v = t # ts" by (cases v) auto
  have d: "toks ! i = t" "drop (i + 1) toks = ts @ R"
    using assms(1) unfolding v append_Cons
    by (metis drop_all hd_drop_conv_nth list.distinct(1) list.sel(1) not_le, metis Suc_eq_plus1 drop_Suc list.sel(3) tl_drop)
  have e: "tok_end t \<le> int (p + length (render v))" using v by (cases v) (auto simp: lit_def)
  have "\<forall>u \<in> set ts. tok_start u < tok_end t"
  proof (cases v)
    case (JArr vs)
    then show ?thesis using v toks_span(2) [of vs True "p + 1" "j + 1" "int j"] assms(2) by auto
  next
    case (JObj fs)
    then show ?thesis using v toks_span(3) [of fs True "p + 1" "j + 1" "int j"] assms(2) by auto
  qed (use v in auto)
  moreover have "\<forall>u \<in> set R. \<not> tok_start u < tok_end t" using assms(3) e by auto
  ultimately have "takeWhile (\<lambda>u. tok_start u < tok_end t) (ts @ R) = ts"
    by (cases R) (auto simp: takeWhile_append)
  then show ?thesis by (simp add: skip_def d(1) d(2) [simplified] v)
qed

lemma literal_body_inject:
  assumes "literal_body a = literal_body b" and "0 \<notin> set a" and "0 \<notin> set b"
  shows "a = b"
proof -
  have "unescaped (length a + length b + 1) (literal_body a) = Some a"
    "unescaped (length a + length b + 1) (literal_body b) = Some b"
    by (rule json_literal.dec_enc; use assms in simp)+
  then show ?thesis using assms(1) by simp
qed

text \<open>A field name as the module asks for it: no byte of it needs an escape.\<close>

definition plain :: "bytes \<Rightarrow> bool" where
  "plain name \<longleftrightarrow> literal_body name = name \<and> 0 \<notin> set name"

lemma tok_text_at:
  assumes "drop q body = x @ r" and "tok_start t = int q" and "tok_end t = int (q + length x)"
  shows "tok_text body t = x"
  using assms by (simp add: tok_text_def)

lemma key_is_name:
  assumes "drop q body = lit n @ r" and "0 \<notin> set n" and "plain name" and "tok_type t = JSMN_STRING"
    and "tok_start t = int (q + 1)" and "tok_end t = int (q + 1 + length (literal_body n))"
  shows "token_is body t name \<longleftrightarrow> n = name"
proof -
  have "drop (q + 1) body = literal_body n @ 0x22 # r" using assms(1) drop_at(2) [of q body "0x22"] by (simp add: lit_def)
  then have "tok_text body t = literal_body n" by (rule tok_text_at) (rule assms(5,6))+
  moreover have "literal_body n = name \<longleftrightarrow> n = name"
    using literal_body_inject [of n name] assms(2,3) by (auto simp: plain_def)
  ultimately show ?thesis using assms(4-6) by (auto simp: token_is_def)
qed

text \<open>Where a value is, in the body and in the table.\<close>

definition at_value :: "bytes \<Rightarrow> jsmntok_t list \<Rightarrow> nat \<Rightarrow> jv \<Rightarrow> bool" where
  "at_value body toks j v \<longleftrightarrow> proper v \<and>
     (\<exists>p s r R. drop p body = render v @ r \<and> drop j toks = vtoks p j s v @ R \<and>
        (\<forall>t \<in> set R. int (p + length (render v)) \<le> tok_start t))"

definition fields :: "jv \<Rightarrow> (bytes \<times> jv) list" where
  "fields v = (case v of JObj fs \<Rightarrow> fs | _ \<Rightarrow> [])"

lemma vtoks_Cons: "\<exists>t ts. vtoks p i s v = t # ts"
  by (cases v) auto

lemma object_get_loop_fields:
  assumes "drop q body = render_fields first fs @ r" and "drop i toks = ftoks first q i s fs @ R"
    and "\<forall>t \<in> set R. int (q + length (render_fields first fs)) \<le> tok_start t"
    and "list_all (\<lambda>f. 0 \<notin> set (fst f) \<and> proper (snd f)) fs" and "plain name"
  shows "case map_of fs name of
      None \<Rightarrow> object_get_loop body toks name (length fs) i = None
    | Some v \<Rightarrow> \<exists>j. object_get_loop body toks name (length fs) i = Some j \<and> at_value body toks j v"
  using assms(1-4)
proof (induction fs arbitrary: first q i)
  case (Cons f fs)
  obtain n v where f: "f = (n, v)" by (cases f)
  define a where "a = q + length (sep first)"
  define b where "b = a + length (lit n) + 1"
  define ts where "ts = vtoks b (i + 1) (int i) v"
  define k where "k = \<lparr>tok_type = JSMN_STRING, tok_start = int (a + 1), tok_end = int (a + 1 + length (literal_body n)), tok_size = 1, tok_parent = s\<rparr>"
  define rest where "rest = ftoks False (b + length (render v)) (i + 1 + length ts) s fs"
  have t0: "drop i toks = k # ts @ rest @ R"
    using Cons.prems(2) by (simp add: f a_def b_def ts_def k_def rest_def Let_def)
  have b0: "drop q body = sep first @ lit n @ 0x3a # render v @ render_fields False fs @ r"
    using Cons.prems(1) by (simp add: f)
  have ba: "drop a body = lit n @ 0x3a # render v @ render_fields False fs @ r" unfolding a_def by (rule drop_app [OF b0])
  have bb: "drop b body = render v @ render_fields False fs @ r" unfolding b_def by (rule drop_at(2) [OF drop_app [OF ba]])
  have bc: "drop (b + length (render v)) body = render_fields False fs @ r" by (rule drop_app [OF bb])
  have t1: "drop (i + 1) toks = ts @ rest @ R" by (rule drop_at(2) [OF t0])
  have t2: "drop (i + 1 + length ts) toks = rest @ R" by (rule drop_app [OF t1])
  have len: "b + length (render v) + length (render_fields False fs) = q + length (render_fields first (f # fs))"
    by (simp add: f a_def b_def)
  have pv: "0 \<notin> set n" "proper v" "list_all (\<lambda>f. 0 \<notin> set (fst f) \<and> proper (snd f)) fs" using Cons.prems(4) by (auto simp: f)
  have starts: "\<forall>t \<in> set (rest @ R). int (b + length (render v)) \<le> tok_start t"
    using toks_span(3) [OF pv(3), of False "b + length (render v)" "i + 1 + length ts" s] Cons.prems(3) len
    by (fastforce simp: rest_def)
  have val: "at_value body toks (i + 1) v"
    unfolding at_value_def using pv(2) bb t1 starts unfolding ts_def by blast
  have skip: "skip toks (i + 1) = i + 1 + length ts"
    unfolding ts_def by (rule skip_value [OF _ pv(2) starts]) (use t1 ts_def in simp)
  have i: "i < length toks" "\<not> i + 1 \<ge> length toks" "toks ! i = k"
    using t0 t1 vtoks_Cons [of b "i + 1" "int i" v] drop_at(1) [OF t0] by (auto simp: ts_def intro: ccontr)
  have key: "token_is body k name \<longleftrightarrow> n = name"
    by (rule key_is_name [OF ba pv(1) assms(5)]) (simp_all add: k_def)
  show ?case
  proof (cases "n = name")
    case True
    then show ?thesis using i key val by (simp add: f)
  next
    case False
    have "case map_of fs name of
        None \<Rightarrow> object_get_loop body toks name (length fs) (i + 1 + length ts) = None
      | Some v \<Rightarrow> \<exists>j. object_get_loop body toks name (length fs) (i + 1 + length ts) = Some j \<and> at_value body toks j v"
      by (rule Cons.IH [OF bc]) (use t2 Cons.prems(3) len pv(3) in \<open>simp_all add: rest_def\<close>)
    moreover have "object_get_loop body toks name (length (f # fs)) i = object_get_loop body toks name (length fs) (i + 1 + length ts)"
      using i key False skip by simp
    moreover have "map_of (f # fs) name = map_of fs name" using False by (simp add: f)
    ultimately show ?thesis by (simp only:)
  qed
qed simp

lemma object_get_fields:
  assumes "at_value body toks j v" and "plain name"
  shows "case map_of (fields v) name of
      None \<Rightarrow> object_get body toks j name = None
    | Some u \<Rightarrow> \<exists>k. object_get body toks j name = Some k \<and> at_value body toks k u"
proof -
  obtain p s r R where at: "proper v" "drop p body = render v @ r" "drop j toks = vtoks p j s v @ R"
      "\<forall>t \<in> set R. int (p + length (render v)) \<le> tok_start t"
    using assms(1) by (auto simp: at_value_def)
  obtain t ts where v: "vtoks p j s v = t # ts" using vtoks_Cons by blast
  have hd: "toks ! j = t" using at(3) drop_at(1) by (simp add: v)
  have type: "tok_type t = JSMN_OBJECT \<longleftrightarrow> (\<exists>fs. v = JObj fs)" using v by (cases v) auto
  show ?thesis
  proof (cases v)
    case (JObj fs)
    have t: "tok_type t = JSMN_OBJECT" "tok_size t = length fs" "ts = ftoks True (p + 1) (j + 1) (int j) fs"
      using v by (auto simp: JObj)
    have b: "drop (p + 1) body = render_fields True fs @ 0x7d # r"
      using at(2) by (intro drop_at(2)) (simp add: JObj)
    have ts: "drop (j + 1) toks = ftoks True (p + 1) (j + 1) (int j) fs @ R"
      using at(3) by (intro drop_at(2)) (simp add: JObj)
    have "case map_of fs name of
        None \<Rightarrow> object_get_loop body toks name (length fs) (j + 1) = None
      | Some u \<Rightarrow> \<exists>k. object_get_loop body toks name (length fs) (j + 1) = Some k \<and> at_value body toks k u"
      by (rule object_get_loop_fields [OF b ts _ _ assms(2)]) (use at(1,4) in \<open>auto simp: JObj\<close>)
    moreover have "object_get body toks j name = object_get_loop body toks name (length fs) (j + 1)"
      by (simp add: object_get_def hd t)
    moreover have "fields v = fs" by (simp add: fields_def JObj)
    ultimately show ?thesis by (simp only:)
  qed (use type in \<open>auto simp: object_get_def fields_def hd\<close>)
qed

lemma unescape_partial:
  assumes "0 \<notin> set s" and "length out < cap"
  shows "unescape_loop cap (literal_body s) out = (length out + length s < cap, out @ take (cap - 1 - length out) s)"
  using assms
proof (induction s arbitrary: out)
  case Nil
  then show ?case by (simp add: literal_body_def unescape_loop.simps)
next
  case (Cons c s)
  have "unescape_loop cap (literal_body (c # s)) out =
      (if length out + 1 \<ge> cap then (False, out) else unescape_loop cap (literal_body s) (out @ [c]))"
    using unescape_loop_esc [of c cap "literal_body s" out] Cons.prems(1) by (simp add: literal_body_def)
  moreover have "take (cap - Suc (length out)) (c # s) = c # take (cap - 1 - length (out @ [c])) s" if room: "\<not> length out + 1 \<ge> cap"
  proof -
    obtain m where m: "cap - Suc (length out) = Suc m" using room by (cases "cap - Suc (length out)") auto
    then have "m = cap - 1 - length (out @ [c])" by simp
    then show ?thesis by (simp add: m)
  qed
  ultimately show ?case using Cons by (auto simp: not_le)
qed

text \<open>What a reader with a buffer of \<open>cap\<close> bytes gets of a value.\<close>

definition string_value :: "nat \<Rightarrow> jv option \<Rightarrow> bool \<times> bytes" where
  "string_value cap v = (case v of Some (JStr s) \<Rightarrow> (length s < cap, take (cap - 1) s) | _ \<Rightarrow> (False, []))"

lemma value_token:
  assumes "at_value body toks j v" and "0 < cap"
  shows "(if tok_type (toks ! j) \<noteq> JSMN_STRING then (False, []) else unescape (tok_text body (toks ! j)) cap) =
      string_value cap (Some v) \<and> (tok_type (toks ! j) = JSMN_OBJECT) = (\<exists>fs. v = JObj fs)"
proof -
  obtain p s r R where at: "proper v" "drop p body = render v @ r" "drop j toks = vtoks p j s v @ R"
    using assms(1) by (auto simp: at_value_def)
  obtain t ts where v: "vtoks p j s v = t # ts" using vtoks_Cons by blast
  have hd: "toks ! j = t" using at(3) drop_at(1) by (simp add: v)
  show ?thesis
  proof (cases v)
    case (JStr x)
    have "drop (p + 1) body = literal_body x @ 0x22 # r" using at(2) drop_at(2) [of p body "0x22"] by (simp add: JStr lit_def)
    then have "tok_text body t = literal_body x" by (rule tok_text_at) (use v in \<open>auto simp: JStr\<close>)
    then show ?thesis using v at(1) assms(2) unescape_partial [of x "[]" cap]
      by (auto simp: JStr hd string_value_def unescape_def)
  qed (use v in \<open>auto simp: hd string_value_def\<close>)
qed

definition jget :: "jv option \<Rightarrow> bytes \<Rightarrow> jv option" where
  "jget v name = (case v of Some (JObj fs) \<Rightarrow> map_of fs name | _ \<Rightarrow> None)"

lemma get_string_document:
  assumes "proper doc" and "length (vtoks 0 0 (- 1) doc) \<le> MAX_TOKENS"
    and "list_all (\<lambda>c. c \<in> {0x09, 0x0d, 0x0a, 0x20}) ws" and "length (render doc @ ws) \<le> SSOOSSH_MAX_RESPONSE"
    and "plain field" and "0 < cap" and "object = None \<or> plain (the object)"
  shows "get_string (render doc @ ws) object field cap =
    string_value cap (jget (case object of None \<Rightarrow> Some doc | Some name \<Rightarrow> jget (Some doc) name) field)"
proof -
  let ?body = "render doc @ ws"
  let ?toks = "vtoks 0 0 (- 1) doc"
  have parse: "jsmn_parse ?body MAX_TOKENS = Inr ?toks" by (rule parse_document [OF assms(1-3)])
  have ne: "render doc \<noteq> []" using assms(1) by (cases doc) (auto simp: lit_def)
  have root: "at_value ?body ?toks 0 doc"
    unfolding at_value_def using assms(1) by (intro conjI exI [of _ 0] exI [of _ "- 1"] exI [of _ ws] exI [of _ "[]"]) auto
  have cnt: "\<not> length ?toks < 1" using vtoks_Cons [of 0 0 "- 1" doc] by auto
  have get: "(case object_get ?body ?toks j field of None \<Rightarrow> (False, [])
      | Some target \<Rightarrow> if tok_type (?toks ! target) \<noteq> JSMN_STRING then (False, [])
          else unescape (tok_text ?body (?toks ! target)) cap) = string_value cap (jget (Some v) field)"
    if at: "at_value ?body ?toks j v" and obj: "\<exists>fs. v = JObj fs" for j v
  proof (cases "map_of (fields v) field")
    case None
    then show ?thesis using object_get_fields [OF at assms(5)] obj
      by (auto simp: fields_def jget_def string_value_def)
  next
    case (Some u)
    then obtain k where k: "object_get ?body ?toks j field = Some k" "at_value ?body ?toks k u"
      using object_get_fields [OF at assms(5)] by auto
    have "jget (Some v) field = Some u" using Some obj by (auto simp: jget_def fields_def)
    then show ?thesis using k(1) value_token [OF k(2) assms(6)] by simp
  qed
  show ?thesis
  proof (cases "\<exists>fs. doc = JObj fs")
    case False
    then have "jget (Some doc) x = None" for x by (auto simp: jget_def split: jv.split)
    then show ?thesis using False value_token [OF root assms(6)] cnt assms(4) ne parse
      by (auto simp: get_string_def string_value_def jget_def split: option.split)
  next
    case True
    then have obj: "tok_type (?toks ! 0) = JSMN_OBJECT" using value_token [OF root assms(6)] by blast
    show ?thesis
    proof (cases object)
      case None
      then show ?thesis using get [OF root True] cnt obj assms(4) ne
        unfolding get_string_def parse by simp
    next
      case (Some name)
      then have name: "plain name" using assms(7) by simp
      show ?thesis
      proof (cases "map_of (fields doc) name")
        case m: None
        then show ?thesis using object_get_fields [OF root name] cnt obj assms(4) ne True
          unfolding get_string_def parse by (auto simp: Some jget_def fields_def string_value_def)
      next
        case m: (Some u)
        then obtain k where k: "object_get ?body ?toks 0 name = Some k" "at_value ?body ?toks k u"
          using object_get_fields [OF root name] by auto
        have ju: "jget (Some doc) name = Some u" using m True by (auto simp: jget_def fields_def)
        show ?thesis
        proof (cases "\<exists>fs. u = JObj fs")
          case uo: True
          then show ?thesis using get [OF k(2) uo] value_token [OF k(2) assms(6)] k(1) cnt obj assms(4) ne
            unfolding get_string_def parse by (simp add: Some ju)
        next
          case uo: False
          then have "jget (Some u) field = None" by (auto simp: jget_def split: jv.split)
          then show ?thesis using uo value_token [OF k(2) assms(6)] k(1) cnt obj assms(4) ne
            unfolding get_string_def parse by (auto simp: Some ju string_value_def)
        qed
      qed
    qed
  qed
qed

text \<open>How many tokens a document takes.\<close>

fun tokens :: "jv \<Rightarrow> nat" where
  "tokens (JStr s) = 1"
| "tokens (JPrim p) = 1"
| "tokens (JArr vs) = 1 + sum_list (map tokens vs)"
| "tokens (JObj fs) = 1 + sum_list (map (\<lambda>f. 1 + tokens (snd f)) fs)"

lemma length_toks:
  "length (vtoks p i s v) = tokens v"
  "length (itoks first p i s vs) = sum_list (map tokens vs)"
  "length (ftoks first p i s fs) = sum_list (map (\<lambda>f. 1 + tokens (snd f)) fs)"
  by (induction p i s v and first p i s vs and first p i s fs rule: vtoks_itoks_ftoks.induct) (simp_all add: Let_def)

definition blanks :: "bytes \<Rightarrow> bool" where
  "blanks ws \<longleftrightarrow> list_all (\<lambda>c. c \<in> {0x09, 0x0d, 0x0a, 0x20}) ws"

definition readable :: "jv \<Rightarrow> bytes \<Rightarrow> bool" where
  "readable doc ws \<longleftrightarrow> proper doc \<and> blanks ws \<and> tokens doc \<le> MAX_TOKENS \<and> length (render doc @ ws) \<le> SSOOSSH_MAX_RESPONSE"

lemma data_string_document:
  assumes "readable doc ws" and "plain field" and "0 < cap"
  shows "ssoossh_json_data_string (render doc @ ws) field cap =
    string_value cap (jget (jget (Some doc) (bs ''data'')) field)"
proof -
  have "plain (bs ''data'')" by (simp add: plain_def literal_body_def json_esc_def)
  then show ?thesis using assms
    unfolding ssoossh_json_data_string_def readable_def blanks_def
    by (subst get_string_document) (auto simp: length_toks)
qed

lemma top_string_document:
  assumes "readable doc ws" and "plain field" and "0 < cap"
  shows "ssoossh_json_top_string (render doc @ ws) field cap = string_value cap (jget (Some doc) field)"
  using assms unfolding ssoossh_json_top_string_def readable_def blanks_def
  by (subst get_string_document) (auto simp: length_toks)


definition demo_document :: jv where
  "demo_document =
     JObj [(bs ''id'', JArr [JPrim (bs ''12''), JObj []]),
       (bs ''data'', JObj [(bs ''x'', JPrim (bs ''null'')), (bs ''url'', JStr (bs [CHR ''/'', CHR 0x22, CHR ''a'']))])]"


end
