(* ===== verification/Host.thy ===== *)
theory Host
  imports Checks Conv
begin

text \<open>
  What the module learns of the host it runs on: src/console.c, src/sshdetect.c, src/localaddrs.c
  and src/hostinfo.c, in their Linux configuration.  Every fact of the host is a parameter: the PAM
  items, the environment, the contents of a file or none, the list \<open>getifaddrs\<close> gives and the text
  \<open>inet_ntop\<close> makes of an address.  Strings the C library hands out are C strings.

  The lemmas: which terminals count as a console, when a session is taken to come over SSH, that the
  addresses reported are a set of usable addresses, and that every field stays within its buffer.
\<close>

section \<open>The request context\<close>

record ssoossh_request_context =
  ctx_service :: bytes
  ctx_tty :: bytes
  ctx_rhost :: bytes
  ctx_hostname :: bytes
  ctx_ruser :: bytes

datatype pam_item = PAM_SERVICE | PAM_TTY | PAM_RHOST | PAM_RUSER

definition read_item :: "(pam_item \<Rightarrow> pam_code \<times> bytes option) \<Rightarrow> pam_item \<Rightarrow> nat \<Rightarrow> bytes" where
  "read_item pam_get_item i out_cap =
     (case pam_get_item i of
        (PAM_SUCCESS, Some v) \<Rightarrow> take (out_cap - 1) (c_str v)
      | _ \<Rightarrow> [])"

text \<open>\<open>gethostname\<close> gives the bytes it put into the buffer, \<open>None\<close> when it fails.\<close>

definition ssoossh_context_read ::
    "(pam_item \<Rightarrow> pam_code \<times> bytes option) \<Rightarrow> bytes option \<Rightarrow> ssoossh_request_context" where
  "ssoossh_context_read pam_get_item hostname =
     \<lparr> ctx_service = read_item pam_get_item PAM_SERVICE 64,
       ctx_tty = read_item pam_get_item PAM_TTY 128,
       ctx_rhost = read_item pam_get_item PAM_RHOST 256,
       ctx_hostname = (case hostname of None \<Rightarrow> [] | Some h \<Rightarrow> c_str (take 255 h)),
       ctx_ruser = read_item pam_get_item PAM_RUSER 64 \<rparr>"

definition numbered :: "bytes \<Rightarrow> bytes \<Rightarrow> bool" where
  "numbered name pre \<longleftrightarrow>
     (let n = length pre in
      take n name = pre \<and> drop n name \<noteq> [] \<and> list_all is_digit (drop n name))"

text \<open>The Linux and FreeBSD answer; macOS has no console flow.\<close>

definition ssoossh_console_flow_supported :: bool where
  "ssoossh_console_flow_supported = True"

definition console_prefixes :: "bytes list" where
  "console_prefixes =
     map bs [''tty'', ''ttyv'', ''ttyS'', ''ttyu'', ''ttyAMA'', ''ttyUSB'', ''hvc'', ''hvsi'', ''xvc'']"

definition ssoossh_context_is_console :: "ssoossh_request_context \<Rightarrow> bool" where
  "ssoossh_context_is_console ctx =
     (let tty = ctx_tty ctx in
      if ctx_rhost ctx \<noteq> [] then False
      else if tty = [] then False
      else
        let tty = (if take 5 tty = bs ''/dev/'' then drop 5 tty else tty) in
        if tty = bs ''console'' then True
        else if take 4 tty = bs ''pts/'' \<or> numbered tty (bs ''pts'') then False
        else list_ex (numbered tty) console_prefixes)"

section \<open>SSH sessions\<close>

definition ssoossh_ssh_session_env :: "(bytes \<Rightarrow> bytes option) \<Rightarrow> bool" where
  "ssoossh_ssh_session_env getenv =
     list_ex (\<lambda>name. case getenv name of None \<Rightarrow> False | Some v \<Rightarrow> c_str v \<noteq> [])
       (map bs [''SSH_CONNECTION'', ''SSH_CLIENT'', ''SSH_TTY''])"

definition is_c_space :: "byte \<Rightarrow> bool" where
  "is_c_space c \<longleftrightarrow> c = 0x20 \<or> 0x09 \<le> c \<and> c \<le> 0x0d"

definition digits_value :: "bytes \<Rightarrow> int" where
  "digits_value ds = foldl (\<lambda>v c. v * 10 + digit_val c) 0 ds"

text \<open>
  The conversion \<open>%ld\<close> of \<open>sscanf\<close>, which saturates, and the cast to the 32 bits of a \<open>pid_t\<close>.
\<close>

definition scan_long :: "bytes \<Rightarrow> int option" where
  "scan_long s =
     (let s = dropWhile is_c_space s;
          neg = (s \<noteq> [] \<and> hd s = 0x2d);
          s = (if s \<noteq> [] \<and> (hd s = 0x2d \<or> hd s = 0x2b) then tl s else s);
          ds = takeWhile is_digit s;
          v = (if neg then - digits_value ds else digits_value ds)
      in if ds = [] then None else Some (max (- (2 ^ 63)) (min INT64_MAX v)))"

definition pid_of :: "int \<Rightarrow> int" where
  "pid_of v = (v + 2 ^ 31) mod 2 ^ 32 - 2 ^ 31"

text \<open>The conversions \<open> %*c %ld\<close>: one byte after white space, then the number.\<close>

definition scan_parent :: "bytes \<Rightarrow> int option" where
  "scan_parent s =
     (let s = dropWhile is_c_space s in if s = [] then None else scan_long (tl s))"

text \<open>The contents of \<open>/proc/<pid>/stat\<close>, up to the last parenthesis and behind it.\<close>

definition last_close :: "bytes \<Rightarrow> (bytes \<times> bytes) option" where
  "last_close s =
     (if 0x29 \<notin> set s then None
      else Some (rev (tl (dropWhile (\<lambda>c. c \<noteq> 0x29) (rev s))), rev (takeWhile (\<lambda>c. c \<noteq> 0x29) (rev s))))"

definition process_info :: "(int \<Rightarrow> bytes option) \<Rightarrow> int \<Rightarrow> (bytes \<times> int) option" where
  "process_info proc_stat pid =
     (case proc_stat pid of
        None \<Rightarrow> None
      | Some content \<Rightarrow>
          let buf = c_str (take 511 content) in
          (case last_close buf of
             None \<Rightarrow> None
           | Some (front, behind) \<Rightarrow>
               if 0x28 \<notin> set front then None
               else
                 let comm = tl (dropWhile (\<lambda>c. c \<noteq> 0x28) front) in
                 map_option (\<lambda>parent. (take 31 comm, pid_of parent)) (scan_parent behind)))"

fun ancestry_loop :: "(int \<Rightarrow> bytes option) \<Rightarrow> nat \<Rightarrow> int \<Rightarrow> bool" where
  "ancestry_loop proc_stat 0 pid = False"
| "ancestry_loop proc_stat (Suc hops) pid =
     (if \<not> pid > 1 then False
      else
        (case process_info proc_stat pid of
           None \<Rightarrow> False
         | Some (comm, ppid) \<Rightarrow>
             if take 4 comm = bs ''sshd'' then True
             else if ppid = pid then False
             else ancestry_loop proc_stat hops ppid))"

definition ssoossh_ssh_session_ancestry :: "(int \<Rightarrow> bytes option) \<Rightarrow> int \<Rightarrow> bool" where
  "ssoossh_ssh_session_ancestry proc_stat pid = ancestry_loop proc_stat 64 pid"

definition ssoossh_ssh_session :: "(bytes \<Rightarrow> bytes option) \<Rightarrow> (int \<Rightarrow> bytes option) \<Rightarrow> int \<Rightarrow> bool" where
  "ssoossh_ssh_session getenv proc_stat pid \<longleftrightarrow>
     ssoossh_ssh_session_env getenv \<or> ssoossh_ssh_session_ancestry proc_stat pid"

section \<open>Addresses\<close>

definition SSOOSSH_ADDR_LEN :: nat where "SSOOSSH_ADDR_LEN = 46"
definition SSOOSSH_MAX_LOCAL_ADDRS :: nat where "SSOOSSH_MAX_LOCAL_ADDRS = 32"

datatype sockaddr = AF_INET "32 word" | AF_INET6 "128 word" | AF_OTHER

text \<open>An entry of \<open>getifaddrs\<close>: its address or null, and the two flags that matter.\<close>

record ifaddr =
  ifa_addr :: "sockaddr option"
  iff_up :: bool
  iff_loopback :: bool

text \<open>127.0.0.0/8, 169.254.0.0/16, ::1 and fe80::/10, on addresses in host order.\<close>

fun unusable :: "sockaddr \<Rightarrow> bool" where
  "unusable (AF_INET host) \<longleftrightarrow> drop_bit 24 host = 127 \<or> drop_bit 16 host = 0xa9fe"
| "unusable (AF_INET6 a) \<longleftrightarrow> a = 1 \<or> drop_bit 118 a = 0x3fa"
| "unusable AF_OTHER \<longleftrightarrow> True"

definition address_text :: "(sockaddr \<Rightarrow> bytes option) \<Rightarrow> ifaddr \<Rightarrow> bytes option" where
  "address_text inet_ntop ifa =
     (case ifa_addr ifa of
        None \<Rightarrow> None
      | Some a \<Rightarrow>
          if \<not> iff_up ifa \<or> iff_loopback ifa then None
          else if unusable a then None
          else inet_ntop a)"

fun local_addresses_loop ::
    "(sockaddr \<Rightarrow> bytes option) \<Rightarrow> nat \<Rightarrow> ifaddr list \<Rightarrow> bytes list \<Rightarrow> bytes list" where
  "local_addresses_loop inet_ntop mx [] out = out"
| "local_addresses_loop inet_ntop mx (ifa # ifas) out =
     (if \<not> length out < mx then out
      else
        (case address_text inet_ntop ifa of
           None \<Rightarrow> local_addresses_loop inet_ntop mx ifas out
         | Some buf \<Rightarrow>
             if buf \<in> set out then local_addresses_loop inet_ntop mx ifas out
             else local_addresses_loop inet_ntop mx ifas (out @ [buf])))"

definition ssoossh_local_addresses ::
    "(sockaddr \<Rightarrow> bytes option) \<Rightarrow> ifaddr list option \<Rightarrow> nat \<Rightarrow> bytes list" where
  "ssoossh_local_addresses inet_ntop getifaddrs mx =
     (case getifaddrs of None \<Rightarrow> [] | Some ifas \<Rightarrow> local_addresses_loop inet_ntop mx ifas [])"

section \<open>Host facts\<close>

definition SSOOSSH_HOSTINFO_CAP :: nat where "SSOOSSH_HOSTINFO_CAP = 256"

record ssoossh_host_info =
  hi_process :: bytes
  hi_machine_id :: bytes
  hi_os :: bytes
  hi_client_time :: bytes

text \<open>The files read, the result of \<open>uname\<close> and the clock.\<close>

record host_env =
  env_cmdline :: "bytes option"
  env_machine_id :: "bytes option"
  env_os_release :: "bytes option"
  env_uname :: "(bytes \<times> bytes) option"
  env_time :: int

definition trim_end :: "bytes \<Rightarrow> bytes" where
  "trim_end s = rev (dropWhile (\<lambda>c. c \<in> {0x0a, 0x0d, 0x20, 0x09}) (rev s))"

definition cat_capped :: "nat \<Rightarrow> bytes \<Rightarrow> bytes \<Rightarrow> bytes" where
  "cat_capped cap out s = out @ take (cap - 1 - length out) s"

text \<open>\<open>fgets\<close>: the bytes put into the buffer, and what is left of the file.\<close>

definition fgets :: "nat \<Rightarrow> bytes \<Rightarrow> (bytes \<times> bytes) option" where
  "fgets cap file =
     (if file = [] then None
      else
        let line = takeWhile (\<lambda>c. c \<noteq> 0x0a) file;
            n = min (cap - 1) (if length line < length file then length line + 1 else length line)
        in Some (take n file, drop n file))"

lemma fgets_shorter:
  assumes "fgets cap file = Some (line, rest)" and "1 < cap"
  shows "length rest < length file"
proof -
  let ?l = "takeWhile (\<lambda>c. c \<noteq> 0x0a) file"
  have "0 < length file" "length ?l \<le> length file"
    using assms(1) by (auto simp: fgets_def length_takeWhile_le split: if_splits)
  then show ?thesis using assms by (auto simp: fgets_def Let_def split: if_splits)
qed

definition read_first_line :: "bytes option \<Rightarrow> nat \<Rightarrow> bytes" where
  "read_first_line file cap =
     (case file of
        None \<Rightarrow> []
      | Some content \<Rightarrow> (case fgets cap content of None \<Rightarrow> [] | Some (line, _) \<Rightarrow> trim_end (c_str line)))"

definition unquote_value :: "bytes \<Rightarrow> bytes" where
  "unquote_value v =
     (let n = length v in
      if n \<ge> 2 \<and> (v ! 0 = 0x22 \<or> v ! 0 = 0x27) \<and> v ! (n - 1) = v ! 0 then tl (butlast v) else v)"

function pretty_name_loop :: "nat \<Rightarrow> bytes \<Rightarrow> bytes" where
  "pretty_name_loop cap file =
     (case fgets 512 file of
        None \<Rightarrow> []
      | Some (line, rest) \<Rightarrow>
          let line = c_str line; key = bs ''PRETTY_NAME='' in
          if take (length key) line \<noteq> key then pretty_name_loop cap rest
          else cat_capped cap [] (unquote_value (trim_end (drop (length key) line))))"
  by pat_completeness auto
termination
  by (relation "measure (\<lambda>(cap, file). length file)") (auto intro: fgets_shorter)

declare pretty_name_loop.simps [simp del]

definition read_pretty_name :: "bytes option \<Rightarrow> nat \<Rightarrow> bytes" where
  "read_pretty_name file cap = (case file of None \<Rightarrow> [] | Some content \<Rightarrow> pretty_name_loop cap content)"

definition read_os :: "bytes option \<Rightarrow> (bytes \<times> bytes) option \<Rightarrow> nat \<Rightarrow> bytes" where
  "read_os os_release uname cap =
     (let out = read_pretty_name os_release cap;
          (sysname, release) = (case uname of None \<Rightarrow> ([], []) | Some u \<Rightarrow> u);
          out = (if out \<noteq> [] then cat_capped cap out (bs '' '') else out);
          out = cat_capped cap out (c_str sysname);
          out = cat_capped cap out (bs '' '');
          out = cat_capped cap out (c_str release)
      in trim_end out)"

definition read_machine_id :: "bytes option \<Rightarrow> nat \<Rightarrow> bytes" where
  "read_machine_id file cap = read_first_line file cap"

definition join_args :: "bytes \<Rightarrow> bytes" where
  "join_args buf = trim_end (map (\<lambda>c. if c = 0 then 0x20 else c) buf)"

definition read_process :: "bytes option \<Rightarrow> nat \<Rightarrow> bytes" where
  "read_process cmdline cap =
     (case cmdline of None \<Rightarrow> [] | Some content \<Rightarrow> join_args (take (cap - 1) content))"

definition read_client_time :: "int \<Rightarrow> nat \<Rightarrow> bytes" where
  "read_client_time now cap = (case utc_text now cap of None \<Rightarrow> [] | Some s \<Rightarrow> s)"

definition ssoossh_host_info_read :: "host_env \<Rightarrow> ssoossh_host_info" where
  "ssoossh_host_info_read env =
     \<lparr> hi_process = read_process (env_cmdline env) (SSOOSSH_HOSTINFO_CAP + 1),
       hi_machine_id = read_machine_id (env_machine_id env) (SSOOSSH_HOSTINFO_CAP + 1),
       hi_os = read_os (env_os_release env) (env_uname env) (SSOOSSH_HOSTINFO_CAP + 1),
       hi_client_time = read_client_time (env_time env) 32 \<rparr>"

section \<open>Console terminals\<close>

lemma numbered_iff: "numbered name pre \<longleftrightarrow> (\<exists>ds. name = pre @ ds \<and> ds \<noteq> [] \<and> list_all is_digit ds)"
proof
  assume "numbered name pre"
  then show "\<exists>ds. name = pre @ ds \<and> ds \<noteq> [] \<and> list_all is_digit ds"
    by (intro exI [of _ "drop (length pre) name"]) (metis append_take_drop_id numbered_def)
qed (auto simp: numbered_def)

text \<open>A device of the console kind: the kernel console, or a known driver's name and a number.\<close>

definition console_device :: "bytes \<Rightarrow> bool" where
  "console_device name \<longleftrightarrow>
     name = bs ''console'' \<or>
     (\<exists>pre \<in> set console_prefixes. \<exists>ds. name = pre @ ds \<and> ds \<noteq> [] \<and> list_all is_digit ds)"

lemma console_prefix_head: "pre \<in> set console_prefixes \<Longrightarrow> hd pre \<noteq> 0x70 \<and> hd pre \<noteq> 0x2f \<and> pre \<noteq> []"
  by (auto simp: console_prefixes_def bs_def)

lemma console_device_head:
  assumes "console_device name"
  shows "name \<noteq> [] \<and> hd name \<noteq> 0x70 \<and> hd name \<noteq> 0x2f"
proof -
  consider "name = bs ''console''" | pre ds where "pre \<in> set console_prefixes" "name = pre @ ds"
    using assms by (auto simp: console_device_def)
  then show ?thesis
  proof cases
    case 2
    then show ?thesis using console_prefix_head [OF 2(1)] by (simp add: hd_append)
  qed (simp add: bs_def)
qed

lemma is_console_spec:
  "ssoossh_context_is_console ctx \<longleftrightarrow>
     ctx_rhost ctx = [] \<and> (\<exists>name. console_device name \<and> (ctx_tty ctx = name \<or> ctx_tty ctx = bs ''/dev/'' @ name))"
proof -
  define name where "name = (if take 5 (ctx_tty ctx) = bs ''/dev/'' then drop 5 (ctx_tty ctx) else ctx_tty ctx)"
  have pts: "\<not> (take 4 name = bs ''pts/'' \<or> numbered name (bs ''pts''))" if "console_device name"
    using console_device_head [OF that] by (cases name) (auto simp: numbered_iff bs_def)
  have ex: "console_device name \<longleftrightarrow> name = bs ''console'' \<or> list_ex (numbered name) console_prefixes"
    by (auto simp: console_device_def list_ex_iff numbered_iff)
  have "ssoossh_context_is_console ctx \<longleftrightarrow> ctx_rhost ctx = [] \<and> ctx_tty ctx \<noteq> [] \<and> console_device name"
    using pts ex unfolding ssoossh_context_is_console_def Let_def name_def [symmetric] by auto
  moreover have "(\<exists>n. console_device n \<and> (ctx_tty ctx = n \<or> ctx_tty ctx = bs ''/dev/'' @ n)) \<longleftrightarrow>
      ctx_tty ctx \<noteq> [] \<and> console_device name"
  proof
    assume "\<exists>n. console_device n \<and> (ctx_tty ctx = n \<or> ctx_tty ctx = bs ''/dev/'' @ n)"
    then obtain n where n: "console_device n" "ctx_tty ctx = n \<or> ctx_tty ctx = bs ''/dev/'' @ n" by blast
    from console_device_head [OF n(1)] n(2) have "name = n" "ctx_tty ctx \<noteq> []"
      by (cases n; force simp: name_def bs_def)+
    then show "ctx_tty ctx \<noteq> [] \<and> console_device name" using n(1) by simp
  next
    assume *: "ctx_tty ctx \<noteq> [] \<and> console_device name"
    have "ctx_tty ctx = name \<or> ctx_tty ctx = bs ''/dev/'' @ name"
      using append_take_drop_id [of 5 "ctx_tty ctx"]
      by (cases "take 5 (ctx_tty ctx) = bs ''/dev/''") (simp_all add: name_def)
    with * show "\<exists>n. console_device n \<and> (ctx_tty ctx = n \<or> ctx_tty ctx = bs ''/dev/'' @ n)" by blast
  qed
  ultimately show ?thesis by blast
qed

text \<open>
  A login is at a console exactly when it names no remote host and its terminal, with or without
  the directory, is the kernel console or a numbered device of one of the nine console drivers; a
  pseudo-terminal or anything else never is.
\<close>

theorem is_console_iff:
  "ssoossh_context_is_console ctx \<longleftrightarrow>
     ctx_rhost ctx = [] \<and> (\<exists>name. console_device name \<and> (ctx_tty ctx = name \<or> ctx_tty ctx = bs ''/dev/'' @ name))"
  by (rule is_console_spec)

section \<open>The process tree\<close>

lemma dropWhile_app: "\<forall>c \<in> set xs. P c \<Longrightarrow> dropWhile P (xs @ ys) = dropWhile P ys"
  by (induction xs) auto

lemma takeWhile_app: "\<forall>c \<in> set xs. P c \<Longrightarrow> takeWhile P (xs @ ys) = xs @ takeWhile P ys"
  by (induction xs) auto

lemma last_close_app:
  assumes "0x29 \<notin> set behind"
  shows "last_close (front @ 0x29 # behind) = Some (front, behind)"
proof -
  have "\<forall>c \<in> set (rev behind). c \<noteq> 0x29" using assms by auto
  then show ?thesis by (simp add: last_close_def dropWhile_app takeWhile_app)
qed

lemma digits_value_dec: "digits_value (dec_bytes n) = int n"
proof (induction n rule: dec_bytes.induct)
  case (1 n)
  have "int (n div 10) * 10 + int (n mod 10) = int n" by presburger
  then show ?case using 1
    by (cases "n < 10") (simp_all add: dec_bytes.simps [of n] digits_value_def digit_byte(2))
qed

lemma dec_bytes_digits: "c \<in> set (dec_bytes n) \<Longrightarrow> is_digit c"
proof (induction n rule: dec_bytes.induct)
  case (1 n)
  then show ?case by (cases "n < 10") (auto simp: dec_bytes.simps [of n] digit_byte(1))
qed

lemma c_space_digit: "is_digit c \<Longrightarrow> \<not> is_c_space c \<and> c \<noteq> 0x2d \<and> c \<noteq> 0x2b \<and> c \<noteq> 0x28 \<and> c \<noteq> 0x29"
  by (auto simp: is_digit_def is_c_space_def word_le_nat_alt word_unat_eq_iff)

lemma scan_long_dec:
  assumes "no_digit rest" and "int n \<le> INT64_MAX"
  shows "scan_long (0x20 # dec_bytes n @ rest) = Some (int n)"
proof -
  obtain c cs where c: "dec_bytes n = c # cs" "is_digit c" using dec_bytes_Cons by blast
  have tw: "takeWhile is_digit (dec_bytes n @ rest) = dec_bytes n"
    using assms(1) dec_bytes_digits [of _ n] by (cases rest) (auto simp: takeWhile_app no_digit_def)
  have dw: "dropWhile is_c_space (0x20 # dec_bytes n @ rest) = dec_bytes n @ rest"
    using c c_space_digit [OF c(2)] by (simp add: is_c_space_def [of "0x20"])
  have "takeWhile is_digit (c # cs @ rest) = c # cs" using tw c(1) by simp
  then show ?thesis using assms(2) c c_space_digit [OF c(2)] digits_value_dec [of n]
    unfolding scan_long_def dw by (simp add: Let_def c(1) INT64_MAX_def)
qed

text \<open>
  The line the kernel prints, for a command of at most the 31 bytes read, whatever bytes are in it;
  \<open>behind\<close> is the rest of the line, all numbers.
\<close>

definition stat_line :: "nat \<Rightarrow> bytes \<Rightarrow> byte \<Rightarrow> nat \<Rightarrow> bytes \<Rightarrow> bytes" where
  "stat_line pid comm state ppid behind =
     dec_bytes pid @ bs '' ('' @ comm @ bs '') '' @ state # 0x20 # dec_bytes ppid @ behind"

lemma dec_bytes_no: "\<not> is_digit c \<Longrightarrow> c \<notin> set (dec_bytes n)"
  using dec_bytes_digits by blast

lemma process_info_stat:
  assumes "proc_stat pid = Some (stat_line p comm state ppid behind)"
    and "length (stat_line p comm state ppid behind) \<le> 511" and "0 \<notin> set (stat_line p comm state ppid behind)"
    and "length comm \<le> 31" and "ppid < 2 ^ 31" and "\<not> is_c_space state \<and> state \<noteq> 0x29"
    and "no_digit behind" and "0x29 \<notin> set behind"
  shows "process_info proc_stat pid = Some (comm, int ppid)"
proof -
  let ?front = "dec_bytes p @ bs '' ('' @ comm" and ?rest = "0x20 # state # 0x20 # dec_bytes ppid @ behind"
  have line: "stat_line p comm state ppid behind = ?front @ 0x29 # ?rest" by (simp add: stat_line_def bs_def)
  have "0x29 \<notin> set (dec_bytes ppid)" by (rule dec_bytes_no) (simp add: is_digit_def)
  then have close: "last_close (stat_line p comm state ppid behind) = Some (?front, ?rest)"
    unfolding line using assms(6,8) by (intro last_close_app) auto
  have "\<forall>c \<in> set (dec_bytes p @ [0x20]). c \<noteq> 0x28"
    using dec_bytes_no [of "0x28" p] by (auto simp: is_digit_def)
  then have comm: "dropWhile (\<lambda>c. c \<noteq> 0x28) ?front = 0x28 # comm"
    using dropWhile_app [of "dec_bytes p @ [0x20]" "\<lambda>c. c \<noteq> 0x28" "0x28 # comm"] by (simp add: bs_def)
  have parent: "scan_parent ?rest = Some (int ppid)"
    using assms(5-7) scan_long_dec [of behind ppid]
    by (simp add: scan_parent_def is_c_space_def [of "0x20"] INT64_MAX_def)
  have cs: "c_str (take 511 (stat_line p comm state ppid behind)) = stat_line p comm state ppid behind"
    using assms(2,3) by (simp add: c_str_id)
  show ?thesis using assms(1,4,5) close comm parent cs
    by (simp add: process_info_def pid_of_def bs_def)
qed

text \<open>One step up the process tree, from a process the walk looks at.\<close>

inductive parent :: "(int \<Rightarrow> bytes option) \<Rightarrow> int \<Rightarrow> int \<Rightarrow> bool" for proc_stat where
  "1 < pid \<Longrightarrow> process_info proc_stat pid = Some (comm, ppid) \<Longrightarrow> parent proc_stat pid ppid"

inductive_simps parent_simp: "parent proc_stat pid ppid"

definition is_sshd :: "(int \<Rightarrow> bytes option) \<Rightarrow> int \<Rightarrow> bool" where
  "is_sshd proc_stat pid \<longleftrightarrow>
     1 < pid \<and> (\<exists>rest ppid. process_info proc_stat pid = Some (bs ''sshd'' @ rest, ppid))"

lemma take_prefix: "take (length p) xs = p \<longleftrightarrow> (\<exists>r. xs = p @ r)"
  by (metis append_eq_conv_conj append_take_drop_id)

lemma is_sshd_take:
  "is_sshd proc_stat pid \<longleftrightarrow>
     1 < pid \<and> (\<exists>comm ppid. process_info proc_stat pid = Some (comm, ppid) \<and> take 4 comm = bs ''sshd'')"
proof -
  have four: "take 4 comm = bs ''sshd'' \<longleftrightarrow> (\<exists>r. comm = bs ''sshd'' @ r)" for comm
    using take_prefix [of "bs ''sshd''" comm] by (simp add: bs_def numeral_eq_Suc)
  show ?thesis unfolding is_sshd_def four by blast
qed

lemma parent_fun: "parent ps x y \<Longrightarrow> parent ps x z \<Longrightarrow> y = z"
  by (auto simp: parent_simp)

lemma ancestry_self:
  assumes "parent ps pid pid" and "(parent ps ^^ n) pid p"
  shows "p = pid"
  using assms(2)
proof (induction n arbitrary: p)
  case (Suc n)
  then obtain q where "(parent ps ^^ n) pid q" "parent ps q p" by auto
  then show ?case using Suc.IH [of q] parent_fun [OF assms(1)] by auto
qed simp

lemma ancestry_up:
  "(\<exists>n < Suc hops. \<exists>p. (parent ps ^^ n) pid p \<and> is_sshd ps p) \<longleftrightarrow>
     is_sshd ps pid \<or> (\<exists>q. parent ps pid q \<and> (\<exists>n < hops. \<exists>p. (parent ps ^^ n) q p \<and> is_sshd ps p))"
  (is "?l \<longleftrightarrow> ?r")
proof
  assume ?l
  then obtain n p where n: "n < Suc hops" "(parent ps ^^ n) pid p" "is_sshd ps p" by blast
  show ?r
  proof (cases n)
    case (Suc k)
    then show ?thesis using n relpowp_Suc_D2 [of k "parent ps" pid p] by auto
  qed (use n in simp)
next
  assume ?r
  then consider "is_sshd ps pid" | q n p where "parent ps pid q" "n < hops" "(parent ps ^^ n) q p" "is_sshd ps p" by blast
  then show ?l
  proof cases
    case 2
    then show ?thesis using relpowp_Suc_I2 [of "parent ps" pid q n p] by (intro exI [of _ "Suc n"]) auto
  next
    case 1
    then show ?thesis by (intro exI [of _ 0] conjI exI [of _ pid]) auto
  qed
qed

lemma ancestry_loop_iff:
  "ancestry_loop ps hops pid \<longleftrightarrow> (\<exists>n < hops. \<exists>p. (parent ps ^^ n) pid p \<and> is_sshd ps p)"
proof (induction hops arbitrary: pid)
  case (Suc hops)
  have self: "is_sshd ps pid" if "1 < pid" "process_info ps pid = Some (comm, pid)" "ancestry_loop ps hops pid" for comm
    using that ancestry_self [of ps pid] unfolding Suc.IH parent_simp by blast
  have up: "(\<exists>q. parent ps pid q \<and> ancestry_loop ps hops q) \<longleftrightarrow>
      1 < pid \<and> (\<exists>comm q. process_info ps pid = Some (comm, q) \<and> ancestry_loop ps hops q)"
    by (auto simp: parent_simp)
  have "ancestry_loop ps (Suc hops) pid \<longleftrightarrow> is_sshd ps pid \<or> (\<exists>q. parent ps pid q \<and> ancestry_loop ps hops q)"
    using self unfolding up is_sshd_take by (cases "process_info ps pid") auto
  then show ?case unfolding ancestry_up Suc.IH .
qed simp

text \<open>
  C37: a session is taken to come over SSH exactly when one of the three variables of sshd is set and
  not empty, or a process whose name begins with sshd is this one or fewer than 64 steps above it in
  the process tree: the walk of the code is bounded, stops early at nothing else, and misses no one.
\<close>

theorem ssh_session_iff:
  "ssoossh_ssh_session getenv proc_stat pid \<longleftrightarrow>
     (\<exists>name v. (name = bs ''SSH_CONNECTION'' \<or> name = bs ''SSH_CLIENT'' \<or> name = bs ''SSH_TTY'') \<and>
        getenv name = Some v \<and> c_str v \<noteq> []) \<or>
     (\<exists>n < 64. \<exists>p. (parent proc_stat ^^ n) pid p \<and> is_sshd proc_stat p)"
proof -
  have "ssoossh_ssh_session_env getenv \<longleftrightarrow>
      (\<exists>name v. (name = bs ''SSH_CONNECTION'' \<or> name = bs ''SSH_CLIENT'' \<or> name = bs ''SSH_TTY'') \<and>
        getenv name = Some v \<and> c_str v \<noteq> [])"
    by (auto simp: ssoossh_ssh_session_env_def split: option.splits)
  then show ?thesis
    by (simp add: ssoossh_ssh_session_def ssoossh_ssh_session_ancestry_def ancestry_loop_iff)
qed

section \<open>The address list\<close>

definition reported :: "(sockaddr \<Rightarrow> bytes option) \<Rightarrow> ifaddr list \<Rightarrow> bytes set" where
  "reported inet_ntop ifas = {t. \<exists>ifa a. ifa \<in> set ifas \<and> ifa_addr ifa = Some a \<and> iff_up ifa \<and>
     \<not> iff_loopback ifa \<and> \<not> unusable a \<and> inet_ntop a = Some t}"

lemma reported_Nil [simp]: "reported inet_ntop [] = {}"
  by (simp add: reported_def)

lemma reported_Cons [simp]:
  "reported inet_ntop (ifa # ifas) = (case address_text inet_ntop ifa of None \<Rightarrow> {} | Some t \<Rightarrow> {t}) \<union> reported inet_ntop ifas"
  by (auto simp: reported_def address_text_def split: option.splits)

lemma local_addresses_loop_spec:
  assumes "distinct out" and "length out \<le> mx"
  shows "distinct (local_addresses_loop inet_ntop mx ifas out) \<and>
    length (local_addresses_loop inet_ntop mx ifas out) \<le> mx \<and>
    set (local_addresses_loop inet_ntop mx ifas out) \<subseteq> set out \<union> reported inet_ntop ifas \<and>
    (length (local_addresses_loop inet_ntop mx ifas out) < mx \<longrightarrow>
      set out \<union> reported inet_ntop ifas \<subseteq> set (local_addresses_loop inet_ntop mx ifas out))"
  using assms
proof (induction ifas arbitrary: out)
  case (Cons ifa ifas)
  show ?case
  proof (cases "length out < mx \<and> (\<exists>t. address_text inet_ntop ifa = Some t \<and> t \<notin> set out)")
    case True
    then obtain t where "address_text inet_ntop ifa = Some t" "t \<notin> set out" by blast
    then show ?thesis using True Cons.prems Cons.IH [of "out @ [t]"] by auto
  next
    case False
    then show ?thesis using Cons.prems Cons.IH [of out] by (auto split: option.splits)
  qed
qed simp

text \<open>
  C38: the addresses reported are at most as many as asked for, no two alike, each the text of an
  address of an interface that is up and not a loopback, and none of them loopback or link-local;
  and unless the list is full, every such address is in it.
\<close>

theorem local_addresses_exact:
  "let as = ssoossh_local_addresses inet_ntop (Some ifas) mx in
     distinct as \<and> length as \<le> mx \<and> set as \<subseteq> reported inet_ntop ifas \<and>
     (length as = mx \<or> set as = reported inet_ntop ifas)"
  using local_addresses_loop_spec [of "[]" mx inet_ntop ifas]
  by (auto simp: ssoossh_local_addresses_def Let_def)

section \<open>The host facts fit their buffers\<close>

lemma trim_end_length: "length (trim_end s) \<le> length s"
  unfolding trim_end_def using length_dropWhile_le [of _ "rev s"] by simp

lemma cat_capped_length: "length out < cap \<Longrightarrow> length (cat_capped cap out s) < cap"
  by (simp add: cat_capped_def)

lemma read_first_line_length:
  assumes "0 < cap"
  shows "length (read_first_line file cap) < cap"
proof -
  have "length line < cap" if "fgets cap content = Some (line, rest)" for content line rest
    using that assms by (auto simp: fgets_def Let_def split: if_splits)
  then show ?thesis using assms le_less_trans [OF trim_end_length] le_less_trans [OF length_c_str]
    by (auto simp: read_first_line_def split: option.splits)
qed

lemma pretty_name_length: "0 < cap \<Longrightarrow> length (pretty_name_loop cap file) < cap"
proof (induction cap "file" rule: pretty_name_loop.induct)
  case (1 cap f)
  then show ?case
    by (subst pretty_name_loop.simps) (auto simp: Let_def cat_capped_length split: option.splits)
qed

lemma host_info_fits:
  "length (hi_process (ssoossh_host_info_read env)) \<le> SSOOSSH_HOSTINFO_CAP"
  "length (hi_machine_id (ssoossh_host_info_read env)) \<le> SSOOSSH_HOSTINFO_CAP"
  "length (hi_os (ssoossh_host_info_read env)) \<le> SSOOSSH_HOSTINFO_CAP"
proof -
  let ?cap = "SSOOSSH_HOSTINFO_CAP + 1"
  have "length (read_process file ?cap) \<le> SSOOSSH_HOSTINFO_CAP" for "file"
    using order_trans [OF trim_end_length] by (auto simp: read_process_def join_args_def split: option.splits)
  moreover have "length (read_machine_id file ?cap) \<le> SSOOSSH_HOSTINFO_CAP" for "file"
    using read_first_line_length [of ?cap "file"] by (simp add: read_machine_id_def)
  moreover have "length (read_os file u ?cap) \<le> SSOOSSH_HOSTINFO_CAP" for "file" u
    using le_less_trans [OF trim_end_length] pretty_name_length [of ?cap]
    by (simp add: read_os_def Let_def cat_capped_length read_pretty_name_def less_Suc_eq_le [symmetric]
        split: option.splits prod.splits)
  ultimately show
    "length (hi_process (ssoossh_host_info_read env)) \<le> SSOOSSH_HOSTINFO_CAP"
    "length (hi_machine_id (ssoossh_host_info_read env)) \<le> SSOOSSH_HOSTINFO_CAP"
    "length (hi_os (ssoossh_host_info_read env)) \<le> SSOOSSH_HOSTINFO_CAP"
    by (simp_all add: ssoossh_host_info_read_def)
qed

end
