(* ===== verification/Cancel.thy ===== *)
theory Cancel
  imports Prelude
begin

text \<open>
  Ctrl-C during the wait: src/cancel.c, as a state machine of the process's SIGINT.  What POSIX keeps of
  the signal is a record: the disposition, whether the waiting thread blocks it, whether one is held
  pending.  Arming and disarming are sequences of system calls, and a signal may arrive between any two
  of them, so beside the two operations there is a step relation that interleaves their calls with
  arriving signals.  The host's own disposition is a value of a type parameter; how often it took a
  signal is counted.  Signals held pending are kept when the disposition changes.
\<close>

section \<open>The signal\<close>

datatype 'h disposition = Handler_on_sigint | Host_disposition 'h

record 'h signals =
  sig_action :: "'h disposition"
  sig_blocked :: bool
  sig_pending :: bool
  interrupted :: bool
  host_took :: nat

definition on_sigint :: "'h signals \<Rightarrow> 'h signals" where
  "on_sigint s = s\<lparr>interrupted := True\<rparr>"

text \<open>The kernel runs the disposition for a pending signal as soon as the thread does not block it.\<close>

definition sig_deliver :: "'h signals \<Rightarrow> 'h signals" where
  "sig_deliver s =
     (if sig_pending s \<and> \<not> sig_blocked s then
        (case sig_action s of
           Handler_on_sigint \<Rightarrow> on_sigint (s\<lparr>sig_pending := False\<rparr>)
         | Host_disposition h \<Rightarrow> s\<lparr>sig_pending := False, host_took := host_took s + 1\<rparr>)
      else s)"

definition arrive :: "'h signals \<Rightarrow> 'h signals" where
  "arrive s = sig_deliver (s\<lparr>sig_pending := True\<rparr>)"

section \<open>Arming and disarming\<close>

record 'h ssoossh_cancel =
  cc_previous :: "'h disposition"
  cc_installed :: bool
  cc_was_blocked :: bool

type_synonym 'h cancel_state = "'h signals \<times> 'h ssoossh_cancel"

definition arm_clear :: "'h cancel_state \<Rightarrow> 'h cancel_state" where
  "arm_clear = (\<lambda>(s, c). (s\<lparr>interrupted := False\<rparr>, c\<lparr>cc_installed := False, cc_was_blocked := False\<rparr>))"

definition arm_install :: "bool \<Rightarrow> 'h cancel_state \<Rightarrow> 'h cancel_state" where
  "arm_install sigaction_ok = (\<lambda>(s, c).
     if sigaction_ok
     then (s\<lparr>sig_action := Handler_on_sigint\<rparr>, c\<lparr>cc_previous := sig_action s, cc_installed := True\<rparr>)
     else (s, c))"

definition arm_unblock :: "bool \<Rightarrow> 'h cancel_state \<Rightarrow> 'h cancel_state" where
  "arm_unblock sigmask_ok = (\<lambda>(s, c).
     if cc_installed c \<and> sigmask_ok
     then (sig_deliver (s\<lparr>sig_blocked := False\<rparr>), c\<lparr>cc_was_blocked := sig_blocked s\<rparr>)
     else (s, c))"

definition ssoossh_cancel_arm :: "bool \<Rightarrow> bool \<Rightarrow> 'h cancel_state \<Rightarrow> 'h cancel_state" where
  "ssoossh_cancel_arm sigaction_ok sigmask_ok = arm_unblock sigmask_ok \<circ> arm_install sigaction_ok \<circ> arm_clear"

definition disarm_block :: "'h cancel_state \<Rightarrow> 'h cancel_state" where
  "disarm_block = (\<lambda>(s, c).
     if cc_installed c \<and> cc_was_blocked c then (s\<lparr>sig_blocked := True\<rparr>, c\<lparr>cc_was_blocked := False\<rparr>) else (s, c))"

definition disarm_restore :: "'h cancel_state \<Rightarrow> 'h cancel_state" where
  "disarm_restore = (\<lambda>(s, c).
     if cc_installed c then (s\<lparr>sig_action := cc_previous c\<rparr>, c\<lparr>cc_installed := False\<rparr>) else (s, c))"

definition ssoossh_cancel_disarm :: "'h cancel_state \<Rightarrow> 'h cancel_state" where
  "ssoossh_cancel_disarm = disarm_restore \<circ> disarm_block"

definition ssoossh_cancel_fired :: "'h signals \<Rightarrow> bool" where
  "ssoossh_cancel_fired s = interrupted s"

lemma disarm_idempotent:
  "ssoossh_cancel_disarm (ssoossh_cancel_disarm sc) = ssoossh_cancel_disarm sc"
  by (auto simp: ssoossh_cancel_disarm_def disarm_restore_def disarm_block_def split: prod.splits)

section \<open>Interleaved with signals\<close>

datatype phase = Before | Cleared | Installed | Waiting | Blocked_again | After

inductive cancel_step :: "phase \<times> 'h cancel_state \<Rightarrow> phase \<times> 'h cancel_state \<Rightarrow> bool" where
  sigint: "cancel_step (p, s, c) (p, arrive s, c)"
| clear: "cancel_step (Before, sc) (Cleared, arm_clear sc)"
| install: "cancel_step (Cleared, sc) (Installed, arm_install ok sc)"
| unblock: "cancel_step (Installed, sc) (Waiting, arm_unblock ok sc)"
| block: "cancel_step (Waiting, sc) (Blocked_again, disarm_block sc)"
| restore: "cancel_step (Blocked_again, sc) (After, disarm_restore sc)"

inductive_cases cancel_stepE: "cancel_step (p, s, c) (p', s', c')"

text \<open>
  The invariant: the host's disposition and mask, as they were, are either in place or in the two
  fields that restore them, and a host that blocked the signal has not been given one.
\<close>

definition cancel_inv :: "'h signals \<Rightarrow> phase \<times> 'h cancel_state \<Rightarrow> bool" where
  "cancel_inv s0 = (\<lambda>(p, s, c).
     (sig_pending s \<longrightarrow> sig_blocked s) \<and>
     (sig_blocked s0 \<longrightarrow> host_took s = host_took s0) \<and>
     (p \<in> {Before, Cleared, After} \<longrightarrow> sig_action s = sig_action s0 \<and> sig_blocked s = sig_blocked s0) \<and>
     (p = Cleared \<longrightarrow> \<not> cc_installed c \<and> \<not> cc_was_blocked c) \<and>
     (p \<in> {Installed, Waiting, Blocked_again} \<longrightarrow>
        (if cc_installed c then sig_action s = Handler_on_sigint \<and> cc_previous c = sig_action s0
         else sig_action s = sig_action s0 \<and> sig_blocked s = sig_blocked s0)) \<and>
     (p = Installed \<longrightarrow> sig_blocked s = sig_blocked s0 \<and> \<not> cc_was_blocked c) \<and>
     (p = Waiting \<longrightarrow> cc_installed c \<longrightarrow>
        sig_blocked s = sig_blocked s0 \<and> \<not> cc_was_blocked c \<or> \<not> sig_blocked s \<and> cc_was_blocked c = sig_blocked s0) \<and>
     (p = Blocked_again \<longrightarrow> cc_installed c \<longrightarrow> sig_blocked s = sig_blocked s0))"

lemma sig_deliver_simps [simp]:
  "sig_action (sig_deliver s) = sig_action s"
  "sig_blocked (sig_deliver s) = sig_blocked s"
  "sig_pending (sig_deliver s) \<longleftrightarrow> sig_pending s \<and> sig_blocked s"
  "sig_blocked s \<or> sig_action s = Handler_on_sigint \<Longrightarrow> host_took (sig_deliver s) = host_took s"
  by (auto simp: sig_deliver_def on_sigint_def split: disposition.splits)

lemma cancel_step_inv:
  assumes "cancel_step x y" and "cancel_inv s0 x"
  shows "cancel_inv s0 y"
  using assms
proof (induction rule: cancel_step.induct)
  case (sigint p s c)
  have "sig_blocked s0 \<Longrightarrow> sig_blocked s \<or> sig_action s = Handler_on_sigint"
    using sigint by (cases p; cases "cc_installed c") (auto simp: cancel_inv_def)
  then show ?case using sigint by (cases p) (simp_all add: cancel_inv_def arrive_def)
next
  case (clear sc)
  then show ?case by (cases sc) (auto simp: cancel_inv_def arm_clear_def)
next
  case (install sc ok)
  then show ?case by (cases sc; cases ok) (simp_all add: cancel_inv_def arm_install_def)
next
  case (unblock sc ok)
  then show ?case by (cases sc; cases "cc_installed (snd sc) \<and> ok") (simp_all add: cancel_inv_def arm_unblock_def)
next
  case (block sc)
  then show ?case by (cases sc; cases "cc_installed (snd sc)"; cases "cc_was_blocked (snd sc)")
      (auto simp: cancel_inv_def disarm_block_def)
next
  case (restore sc)
  then show ?case by (cases sc; cases "cc_installed (snd sc)") (auto simp: cancel_inv_def disarm_restore_def)
qed

lemma cancel_reach_inv:
  assumes "cancel_step\<^sup>*\<^sup>* x y" and "cancel_inv s0 x"
  shows "cancel_inv s0 y"
  using assms by (induction rule: rtranclp_induct) (auto intro: cancel_step_inv)

text \<open>
  The module leaves the host's SIGINT as it found it.  Whenever the signal arrives, however often,
  and whichever of the two system calls of arming fails, when disarming is over the disposition and
  the signal mask are the host's own; and a host that blocks the signal, as sudo does, is given none
  of them in between.
\<close>

theorem cancel_restores_host:
  assumes "cancel_step\<^sup>*\<^sup>* (Before, s0, c0) (After, s, c)" and "sig_pending s0 \<Longrightarrow> sig_blocked s0"
  shows "sig_action s = sig_action s0 \<and> sig_blocked s = sig_blocked s0 \<and>
    (sig_blocked s0 \<longrightarrow> host_took s = host_took s0)"
proof -
  have "cancel_inv s0 (Before, s0, c0)" using assms(2) by (simp add: cancel_inv_def)
  from cancel_reach_inv [OF assms(1) this] show ?thesis by (simp add: cancel_inv_def)
qed

text \<open>Armed with both calls, a signal that arrives or was held pending is seen, and stays seen.\<close>

lemma fired_mono: "cancel_step (p, s, c) (p', s', c') \<Longrightarrow> p \<noteq> Before \<Longrightarrow> interrupted s \<Longrightarrow> interrupted s'"
  by (erule cancel_stepE)
    (auto simp: arrive_def sig_deliver_def on_sigint_def arm_install_def arm_unblock_def disarm_block_def
      disarm_restore_def split: if_splits disposition.splits)

lemma armed_sees_pending:
  "sig_pending s \<Longrightarrow> ssoossh_cancel_fired (fst (ssoossh_cancel_arm True True (s, c)))"
  by (simp add: ssoossh_cancel_arm_def arm_clear_def arm_install_def arm_unblock_def sig_deliver_def on_sigint_def
      ssoossh_cancel_fired_def)

lemma armed_sees_sigint:
  "ssoossh_cancel_fired (arrive (fst (ssoossh_cancel_arm True True (s, c))))"
  by (simp add: ssoossh_cancel_arm_def arm_clear_def arm_install_def arm_unblock_def sig_deliver_def on_sigint_def
      ssoossh_cancel_fired_def arrive_def)

theorem cancel_restores_host_witness:
  "\<exists>s c. cancel_step\<^sup>*\<^sup>* (Before, \<lparr>sig_action = Host_disposition (7 :: nat), sig_blocked = True, sig_pending = True,
        interrupted = False, host_took = 0\<rparr>,
      \<lparr>cc_previous = Host_disposition 0, cc_installed = False, cc_was_blocked = False\<rparr>) (After, s, c) \<and>
     interrupted s \<and> sig_blocked s \<and> sig_action s = Host_disposition 7 \<and> host_took s = 0"
proof -
  let ?s0 = "\<lparr>sig_action = Host_disposition (7 :: nat), sig_blocked = True, sig_pending = True,
        interrupted = False, host_took = 0\<rparr>"
  let ?c0 = "\<lparr>cc_previous = Host_disposition (0 :: nat), cc_installed = False, cc_was_blocked = False\<rparr>"
  let ?final = "disarm_restore (disarm_block (ssoossh_cancel_arm True True (?s0, ?c0)))"
  have run: "cancel_step\<^sup>*\<^sup>* (Before, ?s0, ?c0) (After, ?final)"
    unfolding ssoossh_cancel_arm_def comp_def
    by (rule rtranclp.rtrancl_into_rtrancl, rule rtranclp.rtrancl_into_rtrancl, rule rtranclp.rtrancl_into_rtrancl,
        rule rtranclp.rtrancl_into_rtrancl, rule r_into_rtranclp)
      (rule cancel_step.intros)+
  obtain s c where e: "?final = (s, c)" by fastforce
  have "interrupted s"
    using e by (auto simp: ssoossh_cancel_arm_def arm_clear_def arm_install_def arm_unblock_def sig_deliver_def
        on_sigint_def disarm_block_def disarm_restore_def)
  moreover have "cancel_step\<^sup>*\<^sup>* (Before, ?s0, ?c0) (After, s, c)" using run e by simp
  ultimately show ?thesis using cancel_restores_host [of ?s0 ?c0 s c] by auto
qed

end
