(* ===== verification/Httpc.thy ===== *)
theory Httpc
  imports Sse Log Cancel
begin

text \<open>
  src/httpc.c: the two exchanges with the server.  libcurl, the clock and the interrupt flag are the
  parameter \<open>net\<close>, operations on a world of type \<open>'w\<close> that the code can only use in the order it does;
  libcurl gets the module's callbacks as functions and gives back the state they left.  The options
  the code sets on a handle are a record.  The wait and the reconnecting are loops that may not end,
  so they are partial functions: not returning is the value \<open>None\<close>.

  The lemmas: the two loops return when the clock runs, whatever the server does; what a transfer may
  do is bounded by its buffer; and when a refusal ends the wait.
\<close>

section \<open>Parameters\<close>

datatype ssoossh_http_result =
  HTTP_OK | HTTP_TRANSPORT | HTTP_STATUS | HTTP_TIMEOUT | HTTP_CANCELLED | HTTP_TOO_LARGE | HTTP_INTERNAL

definition RECONNECT_DELAY_MS :: int where "RECONNECT_DELAY_MS = 250"
definition POLL_SLICE_MS :: int where "POLL_SLICE_MS = 200"

text \<open>The options of a handle, and what a POST carries.\<close>

record curl_request =
  opt_nosignal :: bool
  opt_followlocation :: bool
  opt_sslversion :: string
  opt_useragent :: bytes
  opt_connecttimeout_ms :: nat
  opt_tcp_nodelay :: bool
  opt_ssl_verifypeer :: bool
  opt_ssl_verifyhost :: bool
  opt_url :: bytes
  opt_postfields :: "bytes option"
  opt_httpheader :: "bytes list"

record body_sink =
  sink_buf :: bytes
  sink_cap :: nat
  sink_too_large :: bool

record progress_ctx =
  prog_deadline_ms :: int
  prog_cancelled :: bool
  prog_timed_out :: bool

type_synonym post_state = "body_sink \<times> progress_ctx"

record stream_ctx =
  sc_status :: int
  sc_status_known :: bool
  sc_is_error_body :: bool
  sc_err :: bytes
  sc_err_cap :: nat
  sc_err_len :: nat

type_synonym 'c stream_state = "stream_ctx \<times> ssoossh_sse \<times> 'c"

text \<open>
  The write callback of a stream also gets the response code its handle has at the time of the call.
  \<open>net_sigint\<close> is what the process has of SIGINT in the world, with the flag of src/cancel.c, and
  \<open>net_set_sigint\<close> puts it back changed; a host's own disposition is the address of its handler.
  \<open>net_signals\<close> is what arrives between the calls on either side.
\<close>

record ('c, 'w) net =
  net_clock :: "'w \<Rightarrow> (int \<times> int) option \<times> 'w"
  net_sigint :: "'w \<Rightarrow> nat signals"
  net_set_sigint :: "nat signals \<Rightarrow> 'w \<Rightarrow> 'w"
  net_signals :: "'w \<Rightarrow> 'w"
  net_nanosleep :: "int \<Rightarrow> 'w \<Rightarrow> 'w"
  curl_global_ok :: bool
  curl_easy_init :: "'w \<Rightarrow> bool \<times> 'w"
  curl_multi_init :: "'w \<Rightarrow> bool \<times> 'w"
  curl_slist_append :: "'w \<Rightarrow> bool \<times> 'w"
  curl_easy_perform :: "curl_request \<Rightarrow> (bytes \<Rightarrow> post_state \<Rightarrow> nat \<times> post_state) \<Rightarrow>
     (post_state \<Rightarrow> 'w \<Rightarrow> nat \<times> post_state \<times> 'w) \<Rightarrow> post_state \<Rightarrow> 'w \<Rightarrow> nat \<times> post_state \<times> 'w"
  curl_multi_add_handle :: "curl_request \<Rightarrow> 'w \<Rightarrow> bool \<times> 'w"
  curl_multi_perform :: "(int \<Rightarrow> bytes \<Rightarrow> 'c stream_state \<Rightarrow> nat \<times> 'c stream_state) \<Rightarrow>
     'c stream_state \<Rightarrow> 'w \<Rightarrow> (bool \<times> nat) \<times> 'c stream_state \<times> 'w"
  curl_multi_timeout :: "'w \<Rightarrow> int \<times> 'w"
  curl_multi_wait :: "int \<Rightarrow> 'w \<Rightarrow> (bool \<times> nat) \<times> 'w"
  curl_multi_result :: "'w \<Rightarrow> nat option"
  curl_response_code :: "'w \<Rightarrow> int"
  curl_os_errno :: "'w \<Rightarrow> int"
  curl_errbuf :: "'w \<Rightarrow> bytes"
  curl_easy_strerror :: "nat \<Rightarrow> bytes"
  selinux_enforce :: "'w \<Rightarrow> bytes option"
  curl_easy_cleanup :: "'w \<Rightarrow> 'w"
  curl_multi_remove_handle :: "'w \<Rightarrow> 'w"
  curl_multi_cleanup :: "'w \<Rightarrow> 'w"
  curl_slist_free_all :: "'w \<Rightarrow> 'w"

text \<open>The flag as it is read, with the signals that have arrived by then.\<close>

definition net_fired :: "('c, 'w) net \<Rightarrow> 'w \<Rightarrow> bool \<times> 'w" where
  "net_fired net w = (let w = net_signals net w in (ssoossh_cancel_fired (net_sigint net w), w))"

section \<open>Versions, the clock and the TLS floor\<close>

text \<open>\<open>curl_version_info\<close> gives the version and the TLS library, each possibly null.\<close>

definition ssoossh_httpc_version :: "(bytes option \<times> bytes option) option \<Rightarrow> bytes" where
  "ssoossh_httpc_version info =
     take 127
       (case info of
          None \<Rightarrow> bs ''libcurl/(unknown)''
        | Some (None, _) \<Rightarrow> bs ''libcurl/(unknown)''
        | Some (Some v, None) \<Rightarrow> bs ''libcurl/'' @ v
        | Some (Some v, Some ssl) \<Rightarrow> bs ''libcurl/'' @ v @ bs '' '' @ ssl)"

definition ssoossh_monotonic_ms :: "('c, 'w) net \<Rightarrow> 'w \<Rightarrow> int \<times> 'w" where
  "ssoossh_monotonic_ms net w =
     (case net_clock net w of
        (None, w) \<Rightarrow> (0, w)
      | (Some (sec, nsec), w) \<Rightarrow> (sec * 1000 + nsec div 1000000, w))"

text \<open>
  The macOS build cannot pin the floor on the handle: it reads the negotiated version from curl's
  trace and checks it afterwards.  The probe is the version found, empty until one is.
\<close>

definition tls_needle :: bytes where "tls_needle = bs ''SSL connection using ''"

fun probe_word :: "nat \<Rightarrow> bytes \<Rightarrow> bytes" where
  "probe_word room [] = []"
| "probe_word room (c # cs) =
     (if room \<le> 1 \<or> c = 0x20 \<or> c = 0x0d \<or> c = 0x0a then [] else c # probe_word (room - 1) cs)"

fun find_needle :: "bytes \<Rightarrow> bytes \<Rightarrow> bytes option" where
  "find_needle needle [] = None"
| "find_needle needle (c # cs) =
     (if take (length needle) (c # cs) = needle then Some (drop (length needle) (c # cs))
      else find_needle needle cs)"

definition on_debug_text :: "bool \<Rightarrow> bytes \<Rightarrow> bytes \<Rightarrow> bytes" where
  "on_debug_text info_text data version =
     (if \<not> info_text \<or> version \<noteq> [] then version
      else
        (case find_needle tls_needle data of
           None \<Rightarrow> version
         | Some rest \<Rightarrow> c_str (probe_word 16 rest)))"

definition fold_ascii :: "byte \<Rightarrow> byte" where
  "fold_ascii c = (if 0x41 \<le> c \<and> c \<le> 0x5a then c + 0x20 else c)"

definition tls_floor_met :: "bytes \<Rightarrow> bytes \<Rightarrow> bool" where
  "tls_floor_met version url =
     (if map fold_ascii (take 8 url) \<noteq> bs ''https://'' then True else version = bs ''TLSv1.3'')"

text \<open>With the floor pinned there is nothing left to check.\<close>

definition tls_floor_ok :: bool where "tls_floor_ok = True"

section \<open>Transport failures\<close>

definition EPERM :: int where "EPERM = 1"
definition EACCES :: int where "EACCES = 13"

definition selinux_enforcing :: "bytes option \<Rightarrow> bool" where
  "selinux_enforcing enforce = (case enforce of None \<Rightarrow> False | Some c \<Rightarrow> c \<noteq> [] \<and> hd c = 0x31)"

definition log_transport_failure :: "('c, 'w) net \<Rightarrow> 'w \<Rightarrow> nat \<Rightarrow> bool \<Rightarrow> bytes \<Rightarrow> log_line list" where
  "log_transport_failure net w rc routine what =
     (let errbuf = c_str (curl_errbuf net w);
          detail = ssoossh_log_escape_str (if errbuf \<noteq> [] then errbuf else curl_easy_strerror net rc) 1024;
          oserrno = curl_os_errno net w in
      if oserrno = EACCES \<or> oserrno = EPERM then
        let name = (if oserrno = EACCES then bs ''EACCES'' else bs ''EPERM'') in
        if selinux_enforcing (selinux_enforce net w) then
          [ssoossh_errf
            ''%s: %s -- refused locally (%s), not by the network; SELinux is enforcing on this host, so check `ausearch -m avc -ts recent` for a denial from this service's domain, and local firewall rules if there is none: see pam_ssoossh(8) SELINUX''
            [AStr what, AStr detail, AStr name]]
        else
          [ssoossh_errf ''%s: %s -- refused locally (%s), not by the network; check local firewall rules''
            [AStr what, AStr detail, AStr name]]
      else if routine then [ssoossh_debugf ''%s: %s'' [AStr what, AStr detail]]
      else [ssoossh_errf ''%s: %s'' [AStr what, AStr detail]])"

section \<open>The create call\<close>

definition apply_common :: "bytes \<Rightarrow> bool \<Rightarrow> curl_request" where
  "apply_common version insecure =
     \<lparr> opt_nosignal = True, opt_followlocation = False, opt_sslversion = ''TLSv1_3'',
       opt_useragent = bs ''ssoossh-pam-c/'' @ version @ bs '' (https://github.com/mnestor/ssoossh)'',
       opt_connecttimeout_ms = 10000, opt_tcp_nodelay = True,
       opt_ssl_verifypeer = (\<not> insecure), opt_ssl_verifyhost = (\<not> insecure),
       opt_url = [], opt_postfields = None, opt_httpheader = [] \<rparr>"

definition write_body :: "bytes \<Rightarrow> body_sink \<Rightarrow> nat \<times> body_sink" where
  "write_body p s =
     (if length (sink_buf s) + length p + 1 > sink_cap s then (0, s\<lparr>sink_too_large := True\<rparr>)
      else (length p, s\<lparr>sink_buf := sink_buf s @ p\<rparr>))"

definition on_progress :: "('c, 'w) net \<Rightarrow> progress_ctx \<Rightarrow> 'w \<Rightarrow> nat \<times> progress_ctx \<times> 'w" where
  "on_progress net p w =
     (let (fired, w) = net_fired net w in
      if fired then (1, p\<lparr>prog_cancelled := True\<rparr>, w)
      else
        let (now, w) = ssoossh_monotonic_ms net w in
        if now \<ge> prog_deadline_ms p then (1, p\<lparr>prog_timed_out := True\<rparr>, w)
        else (0, p, w))"

text \<open>Two headers appended: the list is lost when the second append fails.\<close>

definition two_headers :: "('c, 'w) net \<Rightarrow> bytes \<Rightarrow> bytes \<Rightarrow> 'w \<Rightarrow> bytes list option \<times> 'w" where
  "two_headers net h1 h2 w =
     (let (ok1, w) = curl_slist_append net w; (ok2, w) = curl_slist_append net w
      in (if ok2 then Some ((if ok1 then [h1] else []) @ [h2]) else None, w))"

text \<open>The result, the response, the status, the lines logged and the world.\<close>

definition ssoossh_httpc_post_json ::
    "('c, 'w) net \<Rightarrow> bytes \<Rightarrow> bytes \<Rightarrow> bytes \<Rightarrow> bool \<Rightarrow> int \<Rightarrow> nat \<Rightarrow> 'w \<Rightarrow>
       ssoossh_http_result \<times> bytes \<times> int \<times> log_line list \<times> 'w" where
  "ssoossh_httpc_post_json net version url body insecure deadline_ms resp_cap w =
     (if \<not> curl_global_ok net then (HTTP_INTERNAL, [], 0, [], w)
      else
        let (h, w) = curl_easy_init net w in
        if \<not> h then (HTTP_INTERNAL, [], 0, [], w)
        else
          (case two_headers net (bs ''Content-Type: application/json'') (bs ''Accept: application/json'') w of
             (None, w) \<Rightarrow> (HTTP_INTERNAL, [], 0, [], curl_easy_cleanup net w)
           | (Some headers, w) \<Rightarrow>
               let sink = \<lparr>sink_buf = [], sink_cap = resp_cap, sink_too_large = False\<rparr>;
                   prog = \<lparr>prog_deadline_ms = deadline_ms, prog_cancelled = False, prog_timed_out = False\<rparr>;
                   req = (apply_common version insecure)
                     \<lparr>opt_url := url, opt_postfields := Some body, opt_httpheader := headers\<rparr>;
                   (rc, (sink, prog), w) =
                     curl_easy_perform net req
                       (\<lambda>p (sink, prog). let (n, sink) = write_body p sink in (n, sink, prog))
                       (\<lambda>(sink, prog) w. let (n, prog, w) = on_progress net prog w in (n, (sink, prog), w))
                       (sink, prog) w;
                   status = curl_response_code net w;
                   (result, logs) =
                     (if rc = 0 then
                        (if \<not> tls_floor_ok then HTTP_TRANSPORT
                         else if 200 \<le> status \<and> status < 300 then HTTP_OK else HTTP_STATUS, [])
                      else if prog_cancelled prog then (HTTP_CANCELLED, [])
                      else if prog_timed_out prog then (HTTP_TIMEOUT, [])
                      else if sink_too_large sink then (HTTP_TOO_LARGE, [])
                      else (HTTP_TRANSPORT, log_transport_failure net w rc False (bs ''create call failed'')))
               in (result, sink_buf sink, status, logs, curl_easy_cleanup net (curl_slist_free_all net w))))"

section \<open>One events connection\<close>

definition write_stream ::
    "'c sse_cb \<Rightarrow> int \<Rightarrow> bytes \<Rightarrow> 'c stream_state \<Rightarrow> nat \<times> 'c stream_state" where
  "write_stream cb response_code p = (\<lambda>(s, sse, ctx).
     let s = (if \<not> sc_status_known s
              then s\<lparr>sc_status := response_code, sc_status_known := True, sc_is_error_body := response_code \<ge> 300\<rparr>
              else s) in
     if sc_is_error_body s then
       let room = (if sc_err_cap s > 0 then sc_err_cap s - 1 - sc_err_len s else 0);
           n = (if length p < room then length p else room) in
       (length p,
        (if n > 0
         then s\<lparr>sc_err := take (sc_err_len s) (sc_err s) @ take n p, sc_err_len := sc_err_len s + n\<rparr>
         else s), sse, ctx)
     else
       (case ssoossh_sse_feed cb p sse ctx of
          (ok, sse, ctx) \<Rightarrow> (if ok then length p else 0, s, sse, ctx)))"

definition retryable_status :: "int \<Rightarrow> bool" where
  "retryable_status status \<longleftrightarrow> status = 429 \<or> status \<ge> 500"

text \<open>One turn of the poll loop: it returns with a result, the transfer is over, or it goes round again.\<close>

datatype poll_exit = Poll_result ssoossh_http_result | Poll_finished | Poll_again

definition poll_turn ::
    "('c, 'w) net \<Rightarrow> 'c sse_cb \<Rightarrow> int \<Rightarrow> 'c stream_state \<Rightarrow> 'w \<Rightarrow> poll_exit \<times> 'c stream_state \<times> 'w" where
  "poll_turn net cb deadline_ms st w =
     (let (now, w) = ssoossh_monotonic_ms net w;
          remaining = deadline_ms - now;
          (fired, w) = net_fired net w in
      if fired then (Poll_result HTTP_CANCELLED, st, w)
      else if remaining \<le> 0 then (Poll_result HTTP_TIMEOUT, st, w)
      else
        let ((ok, running), st, w) = curl_multi_perform net (write_stream cb) st w in
        if \<not> ok then (Poll_result HTTP_TRANSPORT, st, w)
        else if running = 0 then (Poll_finished, st, w)
        else
          let (curl_timeout, w) = curl_multi_timeout net w;
              slice = POLL_SLICE_MS;
              slice = (if curl_timeout \<ge> 0 \<and> curl_timeout < slice then curl_timeout else slice);
              slice = (if remaining < slice then remaining else slice);
              slice = (if slice < 1 then 1 else slice);
              (before, w) = ssoossh_monotonic_ms net w;
              ((ok, numfds), w) = curl_multi_wait net slice w in
          if \<not> ok then (Poll_result HTTP_TRANSPORT, st, w)
          else if numfds = 0 then
            let (now, w) = ssoossh_monotonic_ms net w;
                left = slice - (now - before)
            in (Poll_again, st, if left > 0 then net_nanosleep net (left * 1000000) w else w)
          else (Poll_again, st, w))"

partial_function (option) poll_loop ::
    "('c, 'w) net \<Rightarrow> 'c sse_cb \<Rightarrow> int \<Rightarrow> 'c stream_state \<Rightarrow> 'w \<Rightarrow>
       (ssoossh_http_result option \<times> 'c stream_state \<times> 'w) option" where
  "poll_loop net cb deadline_ms st w =
     (case poll_turn net cb deadline_ms st w of
        (e, st, w) \<Rightarrow>
          (case e of
             Poll_result r \<Rightarrow> Some (Some r, st, w)
           | Poll_finished \<Rightarrow> Some (None, st, w)
           | Poll_again \<Rightarrow> poll_loop net cb deadline_ms st w))"

declare poll_loop.simps [code]

text \<open>
  What a connection leaves: its result, the parser, the callback's state, the status and the error
  body (as they were when the connection did not get far enough to set them), and whether the
  callback has what it wanted.
\<close>

record 'c stream_end =
  se_result :: ssoossh_http_result
  se_sse :: ssoossh_sse
  se_ctx :: 'c
  se_status :: int
  se_err :: bytes
  se_delivered :: bool
  se_logs :: "log_line list"

definition stream_finish ::
    "('c, 'w) net \<Rightarrow> 'c stream_state \<Rightarrow> 'w \<Rightarrow> 'c stream_end" where
  "stream_finish net st w =
     (case st of (sc, sse, ctx) \<Rightarrow>
        let rc = (case curl_multi_result net w of None \<Rightarrow> 0 | Some rc \<Rightarrow> rc);
            status = curl_response_code net w;
            e = \<lparr>se_result = HTTP_TRANSPORT, se_sse = sse, se_ctx = ctx, se_status = status, se_err = sc_err sc,
                 se_delivered = False, se_logs = []\<rparr> in
        if \<not> tls_floor_ok then e
        else if sse_stopped sse then e\<lparr>se_result := HTTP_OK, se_delivered := True\<rparr>
        else if sse_overflow sse then e\<lparr>se_result := HTTP_TOO_LARGE\<rparr>
        else if sc_status_known sc \<and> sc_status sc \<ge> 300 then e\<lparr>se_result := HTTP_STATUS, se_status := sc_status sc\<rparr>
        else e\<lparr>se_logs := (if rc \<noteq> 0 then log_transport_failure net w rc True (bs ''events stream ended'') else [])\<rparr>)"

text \<open>The way out of a connection, with what there is of it by then: its handle, its multi handle, its headers.\<close>

definition stream_cleanup :: "('c, 'w) net \<Rightarrow> bool \<Rightarrow> bool \<Rightarrow> bool \<Rightarrow> 'w \<Rightarrow> 'w" where
  "stream_cleanup net h multi headers w =
     (let w = (if multi then curl_multi_cleanup net (if h then curl_multi_remove_handle net w else w) else w);
          w = (if headers then curl_slist_free_all net w else w)
      in if h then curl_easy_cleanup net w else w)"

definition run_stream ::
    "('c, 'w) net \<Rightarrow> bytes \<Rightarrow> bytes \<Rightarrow> bool \<Rightarrow> int \<Rightarrow> ssoossh_sse \<Rightarrow> 'c sse_cb \<Rightarrow> 'c \<Rightarrow> int \<Rightarrow> bytes \<Rightarrow> nat \<Rightarrow> 'w \<Rightarrow>
       ('c stream_end \<times> 'w) option" where
  "run_stream net version url insecure deadline_ms sse cb ctx status err err_cap w =
     (let sc = \<lparr>sc_status = 0, sc_status_known = False, sc_is_error_body = False, sc_err = err, sc_err_cap = err_cap,
                sc_err_len = 0\<rparr>;
          failed = (\<lambda>r. \<lparr>se_result = r, se_sse = sse, se_ctx = ctx, se_status = status, se_err = err,
                         se_delivered = False, se_logs = []\<rparr>);
          (h, w) = curl_easy_init net w;
          (multi, w) = curl_multi_init net w in
      if \<not> h \<or> \<not> multi then Some (failed HTTP_INTERNAL, stream_cleanup net h multi False w)
      else
        (case two_headers net (bs ''Accept: text/event-stream'') (bs ''Cache-Control: no-cache'') w of
           (None, w) \<Rightarrow> Some (failed HTTP_INTERNAL, stream_cleanup net True True False w)
         | (Some headers, w) \<Rightarrow>
             let (added, w) = curl_multi_add_handle net
                   ((apply_common version insecure)\<lparr>opt_url := url, opt_httpheader := headers\<rparr>) w in
             if \<not> added then Some (failed HTTP_INTERNAL, stream_cleanup net True True True w)
             else
               (case poll_loop net cb deadline_ms (sc, sse, ctx) w of
                  None \<Rightarrow> None
                | Some (Some r, (sc, sse, ctx), w) \<Rightarrow>
                    Some (\<lparr>se_result = r, se_sse = sse, se_ctx = ctx, se_status = status, se_err = sc_err sc,
                           se_delivered = False, se_logs = []\<rparr>, stream_cleanup net True True True w)
                | Some (None, st, w) \<Rightarrow> Some (stream_finish net st w, stream_cleanup net True True True w))))"

section \<open>Reconnecting\<close>

definition wait_to_reconnect :: "('c, 'w) net \<Rightarrow> int \<Rightarrow> 'w \<Rightarrow> bool \<times> 'w" where
  "wait_to_reconnect net deadline_ms w =
     (let (now, w) = ssoossh_monotonic_ms net w;
          left = deadline_ms - now;
          (fired, w) = net_fired net w in
      if fired \<or> left \<le> 0 then (False, w)
      else
        let left = (if left > RECONNECT_DELAY_MS then RECONNECT_DELAY_MS else left);
            w = net_nanosleep net (left * 1000000) w;
            (fired, w) = net_fired net w in
        if fired then (False, w)
        else let (now, w) = ssoossh_monotonic_ms net w in (now < deadline_ms, w))"

text \<open>Whether the wait goes on after a connection, and the line logged when it does.\<close>

definition reconnects :: "'c stream_end \<Rightarrow> log_line list option" where
  "reconnects e =
     (if se_result e = HTTP_OK \<and> se_delivered e then None
      else if se_result e = HTTP_CANCELLED \<or> se_result e = HTTP_TIMEOUT \<or> se_result e = HTTP_TOO_LARGE then None
      else if se_result e = HTTP_STATUS then
        (if \<not> retryable_status (se_status e) then None
         else Some [ssoossh_debugf ''events stream refused with %ld; reconnecting'' [ANum (se_status e)]])
      else if se_status e \<noteq> 0 then Some [ssoossh_debugf ''events stream dropped; reconnecting'' []]
      else None)"

text \<open>
  The lines of the callback and those of the loop go to one log, which the callback's state carries:
  \<open>emit\<close> appends to it.
\<close>

partial_function (option) events_loop ::
    "('c, 'w) net \<Rightarrow> bytes \<Rightarrow> bytes \<Rightarrow> bool \<Rightarrow> int \<Rightarrow> 'c sse_cb \<Rightarrow> (log_line list \<Rightarrow> 'c \<Rightarrow> 'c) \<Rightarrow> 'c \<Rightarrow> int \<Rightarrow> bytes \<Rightarrow> nat \<Rightarrow>
       'w \<Rightarrow> ('c stream_end \<times> 'w) option" where
  "events_loop net version url insecure deadline_ms cb emit ctx status err err_cap w =
     (case run_stream net version url insecure deadline_ms ssoossh_sse_init cb ctx status err err_cap w of
        None \<Rightarrow> None
      | Some (e, w) \<Rightarrow>
          (case reconnects e of
             None \<Rightarrow> Some (e\<lparr>se_ctx := emit (se_logs e) (se_ctx e)\<rparr>, w)
           | Some line \<Rightarrow>
               (case wait_to_reconnect net deadline_ms w of
                  (again, w) \<Rightarrow>
                    if again then
                      events_loop net version url insecure deadline_ms cb emit (emit (se_logs e @ line) (se_ctx e))
                        (se_status e) (se_err e) err_cap w
                    else
                      (case net_fired net w of
                         (fired, w) \<Rightarrow>
                           Some (e\<lparr>se_result := (if fired then HTTP_CANCELLED else HTTP_TIMEOUT),
                                   se_ctx := emit (se_logs e @ line) (se_ctx e)\<rparr>, w)))))"

declare events_loop.simps [code]

text \<open>The result, the callback's state with the lines logged, the status, the error body and the world.\<close>

definition ssoossh_httpc_events ::
    "('c, 'w) net \<Rightarrow> bool \<Rightarrow> bytes \<Rightarrow> bytes \<Rightarrow> bool \<Rightarrow> int \<Rightarrow> 'c sse_cb \<Rightarrow> (log_line list \<Rightarrow> 'c \<Rightarrow> 'c) \<Rightarrow> 'c \<Rightarrow> nat \<Rightarrow> 'w \<Rightarrow>
       (ssoossh_http_result \<times> 'c \<times> int \<times> bytes \<times> 'w) option" where
  "ssoossh_httpc_events net calloc_ok version url insecure deadline_ms cb emit ctx err_cap w =
     (if \<not> curl_global_ok net then Some (HTTP_INTERNAL, ctx, 0, [], w)
      else if \<not> calloc_ok then Some (HTTP_INTERNAL, ctx, 0, [], w)
      else
        (case events_loop net version url insecure deadline_ms cb emit ctx 0 [] err_cap w of
           None \<Rightarrow> None
         | Some (e, w) \<Rightarrow> Some (se_result e, se_ctx e, se_status e, se_err e, w)))"

section \<open>The loops return\<close>

text \<open>
  The hypothesis about the clock.  Every world has an age that no operation lowers and that waiting
  and sleeping raise, and the milliseconds the clock shows are never behind the age counted in some
  number of ticks a millisecond.
\<close>

definition clock_runs :: "('c, 'w) net \<Rightarrow> ('w \<Rightarrow> nat) \<Rightarrow> nat \<Rightarrow> bool" where
  "clock_runs net age q \<longleftrightarrow> q > 0 \<and>
     (\<forall>w. age w \<le> age (snd (net_clock net w)) \<and>
        (\<exists>sec nsec. fst (net_clock net w) = Some (sec, nsec) \<and> int (age w div q) \<le> sec * 1000 + nsec div 1000000)) \<and>
     (\<forall>w. age w \<le> age (snd (net_fired net w))) \<and>
     (\<forall>d w. 0 < d \<longrightarrow> age w < age (net_nanosleep net d w)) \<and>
     (\<forall>w. age w \<le> age (snd (curl_easy_init net w)) \<and> age w \<le> age (snd (curl_multi_init net w)) \<and>
        age w \<le> age (snd (curl_slist_append net w)) \<and> age w \<le> age (snd (curl_multi_timeout net w))) \<and>
     (\<forall>req w. age w \<le> age (snd (curl_multi_add_handle net req w))) \<and>
     (\<forall>cb st w. age w \<le> age (snd (snd (curl_multi_perform net cb st w)))) \<and>
     (\<forall>n w. age w < age (snd (curl_multi_wait net n w))) \<and>
     (\<forall>w. age w \<le> age (curl_easy_cleanup net w) \<and> age w \<le> age (curl_multi_remove_handle net w) \<and>
        age w \<le> age (curl_multi_cleanup net w) \<and> age w \<le> age (curl_slist_free_all net w))"

lemma clock_ages:
  assumes "clock_runs net age q"
  shows "net_clock net w = (t, w') \<Longrightarrow> age w \<le> age w'"
    and "net_fired net w = (b, w') \<Longrightarrow> age w \<le> age w'"
    and "0 < d \<Longrightarrow> age w < age (net_nanosleep net d w)"
    and "curl_easy_init net w = (b, w') \<Longrightarrow> age w \<le> age w'"
    and "curl_multi_init net w = (b, w') \<Longrightarrow> age w \<le> age w'"
    and "curl_slist_append net w = (b, w') \<Longrightarrow> age w \<le> age w'"
    and "curl_multi_timeout net w = (k, w') \<Longrightarrow> age w \<le> age w'"
    and "curl_multi_add_handle net req w = (b, w') \<Longrightarrow> age w \<le> age w'"
    and "curl_multi_perform net cb st w = (x, st', w') \<Longrightarrow> age w \<le> age w'"
    and "curl_multi_wait net n w = (y, w') \<Longrightarrow> age w < age w'"
  using assms unfolding clock_runs_def by (metis snd_conv)+

lemma monotonic_ages:
  assumes "clock_runs net age q" and "ssoossh_monotonic_ms net w = (now, w')"
  shows "age w \<le> age w'" and "int (age w div q) \<le> now"
proof -
  obtain sec nsec where c: "fst (net_clock net w) = Some (sec, nsec)" "int (age w div q) \<le> sec * 1000 + nsec div 1000000"
    using assms(1) unfolding clock_runs_def by blast
  then have "net_clock net w = (Some (sec, nsec), snd (net_clock net w))" by (metis prod.collapse)
  with assms(2) have e: "now = sec * 1000 + nsec div 1000000" "w' = snd (net_clock net w)"
    by (auto simp: ssoossh_monotonic_ms_def split: prod.splits)
  then show "age w \<le> age w'" using clock_ages(1) [OF assms(1)] by (metis prod.collapse)
  show "int (age w div q) \<le> now" using c e by simp
qed

lemma poll_turn_ages:
  assumes "clock_runs net age q" and "poll_turn net cb deadline st w = (e, st', w')"
  shows "age w \<le> age w' \<and> (e = Poll_again \<longrightarrow> age w < age w' \<and> int (age w div q) < deadline)"
proof -
  note ages = monotonic_ages [OF assms(1)] clock_ages [OF assms(1)]
  obtain now w1 where 1: "ssoossh_monotonic_ms net w = (now, w1)" by fastforce
  obtain fired w2 where 2: "net_fired net w1 = (fired, w2)" by fastforce
  obtain ok running st3 w3 where 3: "curl_multi_perform net (write_stream cb) st w2 = ((ok, running), st3, w3)"
    by (metis surj_pair)
  obtain k w4 where 4: "curl_multi_timeout net w3 = (k, w4)" by fastforce
  obtain before w5 where 5: "ssoossh_monotonic_ms net w4 = (before, w5)" by fastforce
  define slice where "slice = (let s = POLL_SLICE_MS; s = (if k \<ge> 0 \<and> k < s then k else s);
    s = (if deadline - now < s then deadline - now else s) in if s < 1 then 1 else s)"
  obtain ok6 numfds w6 where 6: "curl_multi_wait net slice w5 = ((ok6, numfds), w6)" by (metis surj_pair)
  obtain now7 w7 where 7: "ssoossh_monotonic_ms net w6 = (now7, w7)" by fastforce
  have a: "age w \<le> age w1" "age w1 \<le> age w2" "age w2 \<le> age w3" "age w3 \<le> age w4" "age w4 \<le> age w5" "age w5 < age w6"
      "age w6 \<le> age w7" "int (age w div q) \<le> now"
    using ages(1) [OF 1] ages(4) [OF 2] ages(11) [OF 3] ages(9) [OF 4] ages(1) [OF 5] ages(12) [OF 6] ages(1) [OF 7]
      ages(2) [OF 1] by simp_all
  have slept: "0 < d \<Longrightarrow> age w7 < age (net_nanosleep net d w7)" for d by (rule ages(5))
  have "poll_turn net cb deadline st w =
    (if fired then (Poll_result HTTP_CANCELLED, st, w2)
     else if deadline - now \<le> 0 then (Poll_result HTTP_TIMEOUT, st, w2)
     else if \<not> ok then (Poll_result HTTP_TRANSPORT, st3, w3)
     else if running = 0 then (Poll_finished, st3, w3)
     else if \<not> ok6 then (Poll_result HTTP_TRANSPORT, st3, w6)
     else if numfds = 0 then
       (Poll_again, st3, if slice - (now7 - before) > 0 then net_nanosleep net ((slice - (now7 - before)) * 1000000) w7 else w7)
     else (Poll_again, st3, w6))"
    unfolding poll_turn_def Let_def 1 2 3 4 5 prod.case slice_def [unfolded Let_def, symmetric] 6 7 by simp
  with assms(2) a slept [of "(slice - (now7 - before)) * 1000000"] show ?thesis
    by (auto split: if_splits)
qed

lemma fuel_left:
  assumes "int (a div q) < deadline" and "0 < q"
  shows "a < nat deadline * q"
proof -
  have "a div q < nat deadline" using assms(1) by linarith
  then show ?thesis using assms(2) by (simp add: div_less_iff_less_mult)
qed

lemma poll_loop_returns:
  assumes "clock_runs net age q"
  shows "\<exists>r st' w'. poll_loop net cb deadline st w = Some (r, st', w') \<and> age w \<le> age w'"
proof (induction "nat deadline * q - age w" arbitrary: st w rule: less_induct)
  case less
  obtain e st' w' where t: "poll_turn net cb deadline st w = (e, st', w')" by (metis surj_pair)
  note a = poll_turn_ages [OF assms t]
  show ?case
  proof (cases e)
    case Poll_again
    have "0 < q" using assms by (simp add: clock_runs_def)
    then have "nat deadline * q - age w' < nat deadline * q - age w"
      using a Poll_again fuel_left [of "age w" q deadline] by auto
    from less [OF this, of st'] show ?thesis using a t Poll_again
      by (auto simp: poll_loop.simps [of net cb deadline st w])
  qed (use a t in \<open>cases st', simp add: poll_loop.simps [of net cb deadline st w]\<close>)+
qed

lemma two_headers_ages:
  assumes "clock_runs net age q" and "two_headers net h1 h2 w = (hs, w')"
  shows "age w \<le> age w'"
  using assms(2) clock_ages(6) [OF assms(1)] unfolding two_headers_def Let_def
  by (auto split: prod.splits) (metis order_trans)

lemma cleanup_ages:
  assumes "clock_runs net age q"
  shows "age w \<le> age (stream_cleanup net h multi headers w)"
proof -
  have c: "age v \<le> age (curl_easy_cleanup net v)" "age v \<le> age (curl_multi_remove_handle net v)"
    "age v \<le> age (curl_multi_cleanup net v)" "age v \<le> age (curl_slist_free_all net v)" for v
    using assms by (simp_all add: clock_runs_def)
  let ?w1 = "if multi then curl_multi_cleanup net (if h then curl_multi_remove_handle net w else w) else w"
  have "age w \<le> age ?w1" using c(2) [of w] c(3) by (auto intro: order_trans)
  also have "\<dots> \<le> age (if headers then curl_slist_free_all net ?w1 else ?w1)" using c(4) by simp
  also have "\<dots> \<le> age (stream_cleanup net h multi headers w)"
    unfolding stream_cleanup_def Let_def using c(1) by simp
  finally show ?thesis .
qed

lemma run_stream_returns:
  assumes "clock_runs net age q"
  shows "\<exists>e w'. run_stream net version url insecure deadline sse cb ctx status err err_cap w = Some (e, w') \<and> age w \<le> age w'"
proof -
  obtain h w1 where 1: "curl_easy_init net w = (h, w1)" by fastforce
  obtain m w2 where 2: "curl_multi_init net w1 = (m, w2)" by fastforce
  obtain hs w3 where 3: "two_headers net (bs ''Accept: text/event-stream'') (bs ''Cache-Control: no-cache'') w2 = (hs, w3)"
    by fastforce
  have a: "age w \<le> age w1" "age w1 \<le> age w2" "age w2 \<le> age w3"
    using clock_ages(4) [OF assms 1] clock_ages(5) [OF assms 2] two_headers_ages [OF assms 3] by simp_all
  show ?thesis
  proof (cases "h \<and> m \<and> hs \<noteq> None")
    case False
    have b: "age w \<le> age (stream_cleanup net g k l v)" if "age w \<le> age v" for g k l v
      using cleanup_ages [OF assms, of v g k l] that by simp
    show ?thesis using False a unfolding run_stream_def Let_def 1 2 prod.case 3 by (cases hs) (auto intro: b)
  next
    case True
    then obtain headers where hs: "hs = Some headers" by blast
    obtain ok w4 where 4: "curl_multi_add_handle net
        ((apply_common version insecure)\<lparr>opt_url := url, opt_httpheader := headers\<rparr>) w3 = (ok, w4)" by fastforce
    obtain r sc sse' ctx' w5 where 5: "poll_loop net cb deadline (\<lparr>sc_status = 0, sc_status_known = False,
        sc_is_error_body = False, sc_err = err, sc_err_cap = err_cap, sc_err_len = 0\<rparr>, sse, ctx) w4 =
          Some (r, (sc, sse', ctx'), w5)" "age w4 \<le> age w5"
      using poll_loop_returns [OF assms] by (metis surj_pair)
    have "age w5 \<le> age (stream_cleanup net True True True w5)" "age w4 \<le> age (stream_cleanup net True True True w4)"
      by (rule cleanup_ages [OF assms])+
    then show ?thesis using True a clock_ages(8) [OF assms 4] 5(2)
      unfolding run_stream_def Let_def 1 2 prod.case 3 hs option.case 4 5(1) by (cases r; cases ok) simp_all
  qed
qed

lemma reconnect_ages:
  assumes "clock_runs net age q" and "wait_to_reconnect net deadline w = (again, w')"
  shows "age w \<le> age w' \<and> (again \<longrightarrow> age w < age w' \<and> int (age w div q) < deadline)"
proof -
  note ages = monotonic_ages [OF assms(1)] clock_ages [OF assms(1)]
  obtain now w1 where 1: "ssoossh_monotonic_ms net w = (now, w1)" by fastforce
  obtain fired w2 where 2: "net_fired net w1 = (fired, w2)" by fastforce
  define d where "d = (if deadline - now > RECONNECT_DELAY_MS then RECONNECT_DELAY_MS else deadline - now) * 1000000"
  obtain fired3 w3 where 3: "net_fired net (net_nanosleep net d w2) = (fired3, w3)" by fastforce
  obtain now4 w4 where 4: "ssoossh_monotonic_ms net w3 = (now4, w4)" by fastforce
  have "wait_to_reconnect net deadline w =
    (if fired \<or> deadline - now \<le> 0 then (False, w2) else if fired3 then (False, w3) else (now4 < deadline, w4))"
    unfolding wait_to_reconnect_def Let_def 1 2 prod.case d_def [symmetric] 3 4 by simp
  moreover have "0 < d" if "\<not> deadline - now \<le> 0" using that by (simp add: d_def RECONNECT_DELAY_MS_def)
  moreover have "age w \<le> age w1" "age w1 \<le> age w2" "0 < d \<Longrightarrow> age w2 < age (net_nanosleep net d w2)"
      "age (net_nanosleep net d w2) \<le> age w3" "age w3 \<le> age w4" "int (age w div q) \<le> now"
    using ages(1) [OF 1] ages(4) [OF 2] ages(5) ages(4) [OF 3] ages(1) [OF 4] ages(2) [OF 1] by simp_all
  ultimately show ?thesis using assms(2) by (auto split: if_splits)
qed

lemma events_loop_returns:
  assumes "clock_runs net age q"
  shows "\<exists>r. events_loop net version url insecure deadline cb emit ctx status err err_cap w = Some r"
proof (induction "nat deadline * q - age w" arbitrary: ctx status err w rule: less_induct)
  case less
  obtain e w1 where 1: "run_stream net version url insecure deadline ssoossh_sse_init cb ctx status err err_cap w = Some (e, w1)"
      "age w \<le> age w1"
    using run_stream_returns [OF assms] by blast
  obtain again w2 where 2: "wait_to_reconnect net deadline w1 = (again, w2)" by fastforce
  note a = reconnect_ages [OF assms 2]
  have "0 < q" using assms by (simp add: clock_runs_def)
  then have "nat deadline * q - age w2 < nat deadline * q - age w" if again
    using a 1(2) that fuel_left [of "age w1" q deadline] by auto
  then have "\<exists>r. events_loop net version url insecure deadline cb emit c s x err_cap w2 = Some r" if again for c s x
    using that less by blast
  then show ?case by (subst events_loop.simps) (auto simp: 1(1) 2 split: option.split prod.split)
qed

lemma events_returns:
  assumes "clock_runs net age q"
  shows "\<exists>r. ssoossh_httpc_events net calloc_ok version url insecure deadline cb emit ctx err_cap w = Some r"
  using events_loop_returns [OF assms, of version url insecure deadline cb emit ctx 0 "[]" err_cap w]
  by (auto simp: ssoossh_httpc_events_def split: prod.splits)

text \<open>
  A world that is its clock, what the process has of SIGINT, and the private keys it holds; in it a
  server accepts everything and never answers, and nobody presses Ctrl-C.
\<close>

record 'k host_world =
  hw_ticks :: nat
  hw_sigint :: "nat signals"
  hw_keys :: "'k list"

definition demo_net :: "('c, 'k host_world) net" where
  "demo_net =
     \<lparr> net_clock = (\<lambda>w. (Some (0, int (hw_ticks w) * 1000000), w)), net_sigint = hw_sigint,
       net_set_sigint = (\<lambda>s w. w\<lparr>hw_sigint := s\<rparr>), net_signals = (\<lambda>w. w),
       net_nanosleep = (\<lambda>d w. w\<lparr>hw_ticks := hw_ticks w + 1\<rparr>), curl_global_ok = True, curl_easy_init = (\<lambda>w. (True, w)),
       curl_multi_init = (\<lambda>w. (True, w)), curl_slist_append = (\<lambda>w. (True, w)),
       curl_easy_perform = (\<lambda>req wr pr st w. let (n, st) = wr (bs ''{}'') st in (if n = 2 then 0 else 23, st, w)),
       curl_multi_add_handle = (\<lambda>req w. (True, w)), curl_multi_perform = (\<lambda>cb st w. ((True, 1), st, w)),
       curl_multi_timeout = (\<lambda>w. (- 1, w)), curl_multi_wait = (\<lambda>n w. ((True, 0), w\<lparr>hw_ticks := hw_ticks w + 1\<rparr>)),
       curl_multi_result = (\<lambda>w. None), curl_response_code = (\<lambda>w. 200), curl_os_errno = (\<lambda>w. 0),
       curl_errbuf = (\<lambda>w. []), curl_easy_strerror = (\<lambda>rc. bs ''error''), selinux_enforce = (\<lambda>w. None),
       curl_easy_cleanup = (\<lambda>w. w), curl_multi_remove_handle = (\<lambda>w. w), curl_multi_cleanup = (\<lambda>w. w),
       curl_slist_free_all = (\<lambda>w. w) \<rparr>"

text \<open>A process with the default action for SIGINT (the null address), not blocked.\<close>

definition quiet_sigint :: "nat signals" where
  "quiet_sigint =
     \<lparr>sig_action = Host_disposition 0, sig_blocked = False, sig_pending = False, interrupted = False, host_took = 0\<rparr>"

definition world_at :: "nat \<Rightarrow> 'k host_world" where
  "world_at t = \<lparr>hw_ticks = t, hw_sigint = quiet_sigint, hw_keys = []\<rparr>"

lemma demo_clock_runs: "clock_runs demo_net hw_ticks 1"
  by (simp add: clock_runs_def demo_net_def net_fired_def Let_def)

text \<open>
  C20: the wait for an approval ends.  If only the clock runs, the call returns, whatever the server
  sends, drops or refuses and however often the module reconnects.
\<close>

theorem events_wait_returns:
  assumes "clock_runs net age q"
  shows "\<exists>r. ssoossh_httpc_events net calloc_ok version url insecure deadline cb emit ctx err_cap w = Some r"
  using assms by (rule events_returns)

theorem events_wait_returns_witness:
  "\<exists>r. ssoossh_httpc_events demo_net True [] (bs ''https://x/e'') False 60000 (\<lambda>name data n. (True, n + 1 :: nat)) (\<lambda>ls n. n) 0 512 (world_at 0 :: unit host_world) = Some r"
  using events_wait_returns [OF demo_clock_runs] .

section \<open>Refusals\<close>

definition fresh_stream :: "bytes \<Rightarrow> nat \<Rightarrow> stream_ctx" where
  "fresh_stream err err_cap =
     \<lparr>sc_status = 0, sc_status_known = False, sc_is_error_body = False, sc_err = err, sc_err_cap = err_cap, sc_err_len = 0\<rparr>"

lemma write_stream_refused:
  assumes "300 \<le> code"
  shows "\<exists>sc. write_stream cb code p (fresh_stream err cap, sse, ctx) = (length p, sc, sse, ctx) \<and>
    sc_status_known sc \<and> sc_status sc = code"
  using assms by (auto simp: write_stream_def fresh_stream_def Let_def)

text \<open>
  C39: a refusal without a body does not end the wait.  A final status (300 to 499, not 429) ends it
  when the body had a byte, which is when the module looks at the status; when it had none, the same
  status is taken for a dropped connection, and the module reconnects until its deadline.
\<close>

theorem empty_refusal_retried:
  assumes "300 \<le> code" and "code < 500" and "code \<noteq> 429" and "curl_response_code net w = code"
    and "\<not> sse_stopped sse" and "\<not> sse_overflow sse"
  shows "reconnects (stream_finish net (snd (write_stream cb code p (fresh_stream err cap, sse, ctx))) w) = None \<and>
    reconnects (stream_finish net (fresh_stream err cap, sse, ctx) w) \<noteq> None"
proof -
  obtain sc where "write_stream cb code p (fresh_stream err cap, sse, ctx) = (length p, sc, sse, ctx)"
      "sc_status_known sc" "sc_status sc = code"
    using write_stream_refused [OF assms(1), of cb p err cap sse ctx] by blast
  then show ?thesis using assms
    by (simp add: stream_finish_def reconnects_def retryable_status_def tls_floor_ok_def fresh_stream_def Let_def)
qed

theorem empty_refusal_retried_witness:
  "reconnects (stream_finish (demo_net\<lparr>curl_response_code := \<lambda>w. 404\<rparr>) (fresh_stream [] 512, ssoossh_sse_init, ()) (world_at 0 :: unit host_world)) \<noteq> None"
  using empty_refusal_retried [of 404 "demo_net\<lparr>curl_response_code := \<lambda>w. 404\<rparr>" "world_at 0 :: unit host_world" ssoossh_sse_init "\<lambda>name data c. (True, c)" "[0x78]" "[]" 512 "()"]
  by (simp add: ssoossh_sse_init_def)

section \<open>The create call\<close>

text \<open>What is relied on of libcurl: it changes the module's state only through the module's callbacks.\<close>

definition uses_callbacks :: "('c, 'w) net \<Rightarrow> bool" where
  "uses_callbacks net \<longleftrightarrow>
     (\<forall>req wr pr st w P. P st \<longrightarrow> (\<forall>p s. P s \<longrightarrow> P (snd (wr p s))) \<longrightarrow> (\<forall>s v. P s \<longrightarrow> P (fst (snd (pr s v)))) \<longrightarrow>
        P (fst (snd (curl_easy_perform net req wr pr st w))))"

lemma uses_callbacksD:
  assumes "uses_callbacks net" and "P st" and "\<And>p s. P s \<Longrightarrow> P (snd (wr p s))"
    and "\<And>s v. P s \<Longrightarrow> P (fst (snd (pr s v)))"
  shows "P (fst (snd (curl_easy_perform net req wr pr st w)))"
  by (rule assms(1) [unfolded uses_callbacks_def, rule_format, of P st wr pr req w]) (use assms in auto)

lemma write_body_fits:
  "length (sink_buf s) < sink_cap s \<Longrightarrow>
    length (sink_buf (snd (write_body p s))) < sink_cap (snd (write_body p s)) \<and> sink_cap (snd (write_body p s)) = sink_cap s"
  by (auto simp: write_body_def)

text \<open>
  The response of the create call, with its terminator, fits the buffer, however the server cuts
  or sizes it; and the call succeeds only with a status of the 200s.
\<close>

theorem response_fits:
  assumes "uses_callbacks net" and "0 < resp_cap"
    and "ssoossh_httpc_post_json net version url body insecure deadline resp_cap w = (result, resp, status, logs, w')"
  shows "length resp < resp_cap \<and> (result = HTTP_OK \<longrightarrow> 200 \<le> status \<and> status < 300)"
proof -
  let ?P = "\<lambda>(s :: post_state). length (sink_buf (fst s)) < sink_cap (fst s) \<and> sink_cap (fst s) = resp_cap"
  let ?wr = "\<lambda>p (sink, prog). let (n, sink) = write_body p sink in (n, sink, prog)"
  let ?pr = "\<lambda>(sink, prog) w. let (n, prog, w) = on_progress net prog w in (n, (sink, prog), w)"
  let ?st = "(\<lparr>sink_buf = [], sink_cap = resp_cap, sink_too_large = False\<rparr>,
    \<lparr>prog_deadline_ms = deadline, prog_cancelled = False, prog_timed_out = False\<rparr>)"
  have wr: "?P (snd (?wr p s))" if "?P s" for p s
    using write_body_fits [of "fst s" p] that by (auto split: prod.splits)
  have pr: "?P (fst (snd (?pr s v)))" if "?P s" for s v
    using that by (auto split: prod.splits)
  have "?P ?st" using assms(2) by simp
  then have "?P (fst (snd (curl_easy_perform net req ?wr ?pr ?st v)))" for req v
    by (rule uses_callbacksD [where P = ?P, OF assms(1) _ wr pr])
  then have fits: "length (sink_buf sink) < resp_cap"
    if "curl_easy_perform net req ?wr ?pr ?st v = (rc, (sink, prog), v')" for req v rc sink prog v'
    using that by (metis fst_conv snd_conv)
  show ?thesis using assms(2,3) fits unfolding ssoossh_httpc_post_json_def Let_def
    by (auto split: if_splits prod.splits option.splits)
qed

theorem response_fits_witness:
  "length (fst (snd (ssoossh_httpc_post_json (demo_net :: (unit, unit host_world) net) [] (bs ''https://x'') (bs ''{}'') False 60000 3 (world_at 0)))) < 3"
proof -
  have "uses_callbacks (demo_net :: (unit, unit host_world) net)"
    by (auto simp: uses_callbacks_def demo_net_def split: prod.split) (metis snd_conv)
  from response_fits [OF this, of 3] show ?thesis
    by (cases "ssoossh_httpc_post_json (demo_net :: (unit, unit host_world) net) [] (bs ''https://x'') (bs ''{}'') False 60000 3 (world_at 0)") auto
qed

end
