(* ===== verification/Crypto_Darwin.thy ===== *)
theory Crypto_Darwin
  imports Crypto
begin

text \<open>
  src/crypto_darwin.c: the macOS backend of the same interface.  Security.framework, CoreFoundation and
  the dynamic linker are the record \<open>security\<close>: the variable of an exported symbol or null, whether the
  containers a call needs can be allocated, the key object for a type, a size and raw key material, and
  the verification.  The two Ed25519 constants are private to Apple's framework: they are looked up by
  name and used only after a known-answer test, and what came of it is the record \<open>ed25519_spi\<close>.

  The lemmas: what the backend accepts, in the terms of the OpenSSL backend, and that a certificate
  means the same on both.
\<close>

section \<open>The framework\<close>

datatype 'c sec_key_type = SecKeyTypeRSA | SecKeyTypeECSECPrimeRandom | SecKeyTypeSPI 'c

datatype 'c sec_algorithm =
    RSASignatureMessagePKCS1v15SHA256 | RSASignatureMessagePKCS1v15SHA512
  | ECDSASignatureMessageX962SHA256 | ECDSASignatureMessageX962SHA384 | ECDSASignatureMessageX962SHA512
  | AlgorithmSPI "'c option"

record ('k, 'c) security =
  dlsym :: "bytes \<Rightarrow> 'c option option"
  CFDictionaryCreateMutable :: bool
  CFNumberCreate :: bool
  CFDataCreateWithBytesNoCopy :: "bytes \<Rightarrow> bool"
  SecKeyCreateWithData :: "bytes \<Rightarrow> 'c sec_key_type \<Rightarrow> nat option \<Rightarrow> 'k option"
  SecKeyVerifySignature :: "'k \<Rightarrow> 'c sec_algorithm \<Rightarrow> bytes \<Rightarrow> bytes \<Rightarrow> bool"
  CC_SHA256 :: "bytes \<Rightarrow> bytes"

definition data_view :: "('k, 'c) security \<Rightarrow> bytes \<Rightarrow> bytes option" where
  "data_view sec p = (if CFDataCreateWithBytesNoCopy sec p then Some p else None)"

definition verify_with ::
    "('k, 'c) security \<Rightarrow> 'k \<Rightarrow> 'c sec_algorithm \<Rightarrow> bytes \<Rightarrow> bytes \<Rightarrow> ssoossh_verify_result" where
  "verify_with sec key algorithm msg sig =
     (case data_view sec msg of
        None \<Rightarrow> VERIFY_ERROR
      | Some signed_data \<Rightarrow>
          (case data_view sec sig of
             None \<Rightarrow> VERIFY_ERROR
           | Some signature \<Rightarrow>
               if SecKeyVerifySignature sec key algorithm signed_data signature then VERIFY_OK else VERIFY_BAD))"

section \<open>Ed25519\<close>

definition ED25519_KEY_TYPE_SYM :: bytes where
  "ED25519_KEY_TYPE_SYM = bs ''kSecAttrKeyTypeEd25519''"

definition ED25519_ALGORITHM_SYM :: bytes where
  "ED25519_ALGORITHM_SYM = bs ''kSecKeyAlgorithmEdDSASignatureMessageCurve25519SHA512''"

record 'c ed25519_spi =
  ed25519_key_type :: "'c option"
  ed25519_algorithm :: "'c option"
  ed25519_ok :: bool
  ed25519_version :: bytes

definition no_ed25519 :: "'c ed25519_spi" where
  "no_ed25519 =
     \<lparr>ed25519_key_type = None, ed25519_algorithm = None, ed25519_ok = False,
      ed25519_version = bs ''Security.framework (no Ed25519 SPI)''\<rparr>"

definition ed25519_key :: "('k, 'c) security \<Rightarrow> 'c ed25519_spi \<Rightarrow> bytes \<Rightarrow> 'k option" where
  "ed25519_key sec spi pk =
     (case ed25519_key_type spi of
        None \<Rightarrow> None
      | Some t \<Rightarrow>
          if length pk \<noteq> 32 then None
          else if \<not> CFDictionaryCreateMutable sec then None
          else
            (case data_view sec pk of
               None \<Rightarrow> None
             | Some material \<Rightarrow> SecKeyCreateWithData sec material (SecKeyTypeSPI t) None))"

definition ed25519_verify_raw ::
    "('k, 'c) security \<Rightarrow> 'c ed25519_spi \<Rightarrow> bytes \<Rightarrow> bytes \<Rightarrow> bytes \<Rightarrow> ssoossh_verify_result" where
  "ed25519_verify_raw sec spi pk msg sig =
     (case ed25519_key sec spi pk of
        None \<Rightarrow> VERIFY_ERROR
      | Some key \<Rightarrow> verify_with sec key (AlgorithmSPI (ed25519_algorithm spi)) msg (take 64 sig))"

text \<open>A symbol has the address of a variable; null at either level is absent.\<close>

definition resolve_constant :: "('k, 'c) security \<Rightarrow> bytes \<Rightarrow> 'c option" where
  "resolve_constant sec name = (case dlsym sec name of None \<Rightarrow> None | Some slot \<Rightarrow> slot)"

text \<open>\<open>None\<close> is success, otherwise the check that failed.\<close>

definition ed25519_selftest :: "('k, 'c) security \<Rightarrow> 'c ed25519_spi \<Rightarrow> bytes option" where
  "ed25519_selftest sec spi =
     (let kat = ED25519_KAT; flipped = (v_sig kat)[10 := v_sig kat ! 10 XOR 0x01] in
      if ed25519_verify_raw sec spi (v_pk kat) (v_msg kat) (v_sig kat) \<noteq> VERIFY_OK then
        Some (bs ''RFC 8032 vector did not verify'')
      else if ed25519_verify_raw sec spi (v_pk kat) (v_msg kat) flipped \<noteq> VERIFY_BAD then
        Some (bs ''corrupted signature was not refused'')
      else if ed25519_verify_raw sec spi (v_pk ED25519_BIG_S) (v_msg ED25519_BIG_S) (v_sig ED25519_BIG_S) \<noteq> VERIFY_BAD then
        Some (bs ''signature with S >= L was not refused'')
      else None)"

definition ed25519_init_darwin :: "('k, 'c) security \<Rightarrow> 'c ed25519_spi \<times> log_line list" where
  "ed25519_init_darwin sec =
     (let missing = (\<lambda>name. (no_ed25519,
            [ssoossh_warnf ''Ed25519: Security.framework on this macOS does not export %s; ssh-ed25519 CAs cannot be used here''
               [AStr name]])) in
      case resolve_constant sec ED25519_KEY_TYPE_SYM of
        None \<Rightarrow> missing ED25519_KEY_TYPE_SYM
      | Some key_type \<Rightarrow>
          (case resolve_constant sec ED25519_ALGORITHM_SYM of
             None \<Rightarrow> missing ED25519_ALGORITHM_SYM
           | Some algorithm \<Rightarrow>
               let spi = no_ed25519\<lparr>ed25519_key_type := Some key_type, ed25519_algorithm := Some algorithm\<rparr> in
               (case ed25519_selftest sec spi of
                  Some failed \<Rightarrow>
                    (no_ed25519\<lparr>ed25519_version := bs ''Security.framework (Ed25519 SPI FAILED self-test)''\<rparr>,
                     [ssoossh_errf ''Ed25519: Security.framework SPI failed its self-test (%s); refusing to use it, ssh-ed25519 CAs cannot be used here''
                        [AStr failed]])
                | None \<Rightarrow>
                    (spi\<lparr>ed25519_ok := True, ed25519_version := bs ''Security.framework (Ed25519 SPI ok)''\<rparr>,
                     [ssoossh_debugf ''Ed25519: Security.framework SPI resolved and self-tested'' []]))))"

definition ed25519_of :: "('k, 'c) security \<Rightarrow> 'c ed25519_spi" where
  "ed25519_of sec = fst (ed25519_init_darwin sec)"

definition ssoossh_crypto_ed25519_usable_darwin :: "('k, 'c) security \<Rightarrow> bool" where
  "ssoossh_crypto_ed25519_usable_darwin sec = ed25519_ok (ed25519_of sec)"

section \<open>Keys\<close>

definition ec_size :: "bytes \<Rightarrow> (bytes \<times> nat) option" where
  "ec_size suffix =
     (if suffix = bs ''256'' then Some (bs ''nistp256'', 256)
      else if suffix = bs ''384'' then Some (bs ''nistp384'', 384)
      else if suffix = bs ''521'' then Some (bs ''nistp521'', 521)
      else None)"

definition key_of_type :: "('k, 'c) security \<Rightarrow> bytes \<Rightarrow> ssh_rd \<Rightarrow> nat \<Rightarrow> 'k option" where
  "key_of_type sec type r scratch_cap =
     (if type = bs ''ssh-ed25519'' then
        (case one_field r of
           None \<Rightarrow> None
         | Some a \<Rightarrow>
             if length a \<noteq> 32 \<or> \<not> ssoossh_crypto_ed25519_usable_darwin sec then None
             else ed25519_key sec (ed25519_of sec) a)
      else if \<not> CFDictionaryCreateMutable sec then None
      else if type = bs ''ssh-rsa'' then
        (case two_fields r of
           None \<Rightarrow> None
         | Some (a, b) \<Rightarrow>
             (case ssoossh_der_rsa_pkcs1 a b scratch_cap of
                None \<Rightarrow> None
              | Some der \<Rightarrow>
                  (case data_view sec der of
                     None \<Rightarrow> None
                   | Some material \<Rightarrow> SecKeyCreateWithData sec material SecKeyTypeRSA None)))
      else if take 16 type = bs ''ecdsa-sha2-nistp'' then
        (case ec_size (drop 16 type) of
           None \<Rightarrow> None
         | Some (want_curve, bits) \<Rightarrow>
             (case two_fields r of
                None \<Rightarrow> None
              | Some (a, b) \<Rightarrow>
                  if a \<noteq> want_curve then None
                  else if length b < 1 \<or> b ! 0 \<noteq> 0x04 then None
                  else
                    (case data_view sec b of
                       None \<Rightarrow> None
                     | Some material \<Rightarrow>
                         SecKeyCreateWithData sec material SecKeyTypeECSECPrimeRandom
                           (if CFNumberCreate sec then Some bits else None))))
      else None)"

definition key_from_ssh_blob :: "('k, 'c) security \<Rightarrow> bytes \<Rightarrow> nat \<Rightarrow> nat \<Rightarrow> ('k \<times> bytes) option" where
  "key_from_ssh_blob sec blob type_cap scratch_cap =
     (case ssh_rd_cstr (ssh_rd_init blob) type_cap of
        (None, r) \<Rightarrow> None
      | (Some type, r) \<Rightarrow> map_option (\<lambda>key. (key, type)) (key_of_type sec type r scratch_cap))"

section \<open>Verification\<close>

definition sig_algo_info_darwin :: "('k, 'c) security \<Rightarrow> bytes \<Rightarrow> (bytes \<times> 'c sec_algorithm) option" where
  "sig_algo_info_darwin sec sig_algo =
     (case ssoossh_sig_algo_key_type (ssoossh_crypto_ed25519_usable_darwin sec) sig_algo of
        None \<Rightarrow> None
      | Some key_type \<Rightarrow>
          Some (key_type,
            if sig_algo = bs ''ssh-ed25519'' then AlgorithmSPI (ed25519_algorithm (ed25519_of sec))
            else if sig_algo = bs ''rsa-sha2-256'' then RSASignatureMessagePKCS1v15SHA256
            else if sig_algo = bs ''rsa-sha2-512'' then RSASignatureMessagePKCS1v15SHA512
            else if sig_algo = bs ''ecdsa-sha2-nistp256'' then ECDSASignatureMessageX962SHA256
            else if sig_algo = bs ''ecdsa-sha2-nistp384'' then ECDSASignatureMessageX962SHA384
            else ECDSASignatureMessageX962SHA512))"

definition ssoossh_crypto_verify_darwin ::
    "('k, 'c) security \<Rightarrow> bytes \<Rightarrow> bytes \<Rightarrow> bytes \<Rightarrow> bytes \<Rightarrow> ssoossh_verify_result" where
  "ssoossh_crypto_verify_darwin sec sig_algo ca_key msg sig =
     (case sig_algo_info_darwin sec sig_algo of
        None \<Rightarrow> VERIFY_UNSUPPORTED
      | Some (want_key_type, algorithm) \<Rightarrow>
          (case key_from_ssh_blob sec ca_key 64 2048 of
             None \<Rightarrow> VERIFY_ERROR
           | Some (key, key_type) \<Rightarrow>
               if key_type \<noteq> want_key_type then VERIFY_ERROR
               else
                 (case (if take 6 sig_algo = bs ''ecdsa-'' then ssoossh_ecdsa_sig_to_der sig 256
                        else if sig_algo = bs ''ssh-ed25519'' \<and> length sig \<noteq> 64 then None
                        else Some sig) of
                    None \<Rightarrow> VERIFY_ERROR
                  | Some sig \<Rightarrow> verify_with sec key algorithm msg sig)))"

definition ssoossh_crypto_sha256_darwin :: "('k, 'c) security \<Rightarrow> bytes \<Rightarrow> bytes option" where
  "ssoossh_crypto_sha256_darwin sec inp = Some (CC_SHA256 sec inp)"

definition ssoossh_crypto_fips_state_darwin :: ssoossh_fips_state where
  "ssoossh_crypto_fips_state_darwin = FIPS_UNSWITCHED"

definition ssoossh_crypto_version_darwin :: "('k, 'c) security \<Rightarrow> bytes" where
  "ssoossh_crypto_version_darwin sec = ed25519_version (ed25519_of sec)"


section \<open>What a verification amounts to\<close>

text \<open>The raw material of a key, as the framework takes it, with its size in bits.\<close>

fun material_of :: "key_material \<Rightarrow> bytes option" where
  "material_of (EcKey c p) = (if length p < 1 \<or> p ! 0 \<noteq> 0x04 then None else Some p)"
| "material_of (RsaKey e n) = ssoossh_der_rsa_pkcs1 e n 2048"
| "material_of (EdKey k) = (if length k \<noteq> 32 then None else Some k)"

definition curve_bits :: "ssoossh_curve \<Rightarrow> nat" where
  "curve_bits c = (case c of CURVE_P256 \<Rightarrow> 256 | CURVE_P384 \<Rightarrow> 384 | CURVE_P521 \<Rightarrow> 521)"

fun create_key :: "('k, 'c) security \<Rightarrow> key_material \<Rightarrow> bytes \<Rightarrow> 'k option" where
  "create_key sec (EcKey c p) m =
     SecKeyCreateWithData sec m SecKeyTypeECSECPrimeRandom (if CFNumberCreate sec then Some (curve_bits c) else None)"
| "create_key sec (RsaKey e n) m = SecKeyCreateWithData sec m SecKeyTypeRSA None"
| "create_key sec (EdKey k) m =
     (case ed25519_key_type (ed25519_of sec) of None \<Rightarrow> None | Some t \<Rightarrow> SecKeyCreateWithData sec m (SecKeyTypeSPI t) None)"

definition key_usable_darwin :: "('k, 'c) security \<Rightarrow> key_material \<Rightarrow> bool" where
  "key_usable_darwin sec k \<longleftrightarrow> (case k of EdKey p \<Rightarrow> ssoossh_crypto_ed25519_usable_darwin sec | _ \<Rightarrow> True)"

definition sec_key :: "('k, 'c) security \<Rightarrow> key_material \<Rightarrow> 'k option" where
  "sec_key sec k =
     (case material_of k of
        None \<Rightarrow> None
      | Some m \<Rightarrow>
          if key_usable_darwin sec k \<and> CFDictionaryCreateMutable sec \<and> CFDataCreateWithBytesNoCopy sec m then create_key sec k m
          else None)"

fun algorithm_of :: "('k, 'c) security \<Rightarrow> key_material \<Rightarrow> evp_md option \<Rightarrow> 'c sec_algorithm" where
  "algorithm_of sec (EcKey c p) md =
     (case c of CURVE_P256 \<Rightarrow> ECDSASignatureMessageX962SHA256 | CURVE_P384 \<Rightarrow> ECDSASignatureMessageX962SHA384
      | CURVE_P521 \<Rightarrow> ECDSASignatureMessageX962SHA512)"
| "algorithm_of sec (RsaKey e n) md =
     (if md = Some EVP_sha256 then RSASignatureMessagePKCS1v15SHA256 else RSASignatureMessagePKCS1v15SHA512)"
| "algorithm_of sec (EdKey k) md = AlgorithmSPI (ed25519_algorithm (ed25519_of sec))"

lemma key_of_type_ec:
  "key_of_type sec (bs ''ecdsa-sha2-'' @ curve_name c) r 2048 =
    (case two_fields r of None \<Rightarrow> None
     | Some (a, b) \<Rightarrow> if a \<noteq> curve_name c then None else sec_key sec (EcKey c b))"
  by (cases c)
    (auto simp: key_of_type_def curve_names ec_size_def sec_key_def data_view_def key_usable_darwin_def curve_bits_def
      split: option.split)

lemma key_of_type_other:
  assumes "type \<noteq> bs ''ssh-ed25519''" "type \<noteq> bs ''ssh-rsa''" "\<And>c. type \<noteq> bs ''ecdsa-sha2-'' @ curve_name c"
  shows "key_of_type sec type r cap = None"
proof (cases "take 16 type = bs ''ecdsa-sha2-nistp''")
  case True
  from ec_type_cases [OF this] assms(3) [of CURVE_P256] assms(3) [of CURVE_P384] assms(3) [of CURVE_P521]
  have "ec_size (drop 16 type) = None" by (simp add: ec_size_def)
  then show ?thesis using assms(1,2) unfolding key_of_type_def by (simp only: if_False if_cancel option.case)
next
  case False
  then show ?thesis using assms(1,2) unfolding key_of_type_def by (simp only: if_False if_cancel)
qed

lemma key_of_type_Some:
  "key_of_type sec type (cur pre x) 2048 = Some key \<longleftrightarrow>
    (\<exists>k. type = key_type_of k \<and> key_body k x \<and> sec_key sec k = Some key)"
proof (rule key_shapes_Some [where g = "\<lambda>type r. key_of_type sec type r 2048"])
  show "key_of_type sec (bs ''ssh-ed25519'') r 2048 = (case one_field r of None \<Rightarrow> None | Some a \<Rightarrow> sec_key sec (EdKey a))" for r
    by (auto simp: key_of_type_def sec_key_def data_view_def key_usable_darwin_def ed25519_key_def split: option.split)
  show "key_of_type sec (bs ''ssh-rsa'') r 2048 =
      (case two_fields r of None \<Rightarrow> None | Some (a, b) \<Rightarrow> sec_key sec (RsaKey a b))" for r
    by (auto simp: key_of_type_def sec_key_def data_view_def key_usable_darwin_def split: option.split)
qed (rule key_of_type_ec key_of_type_other; assumption?)+

lemma key_from_ssh_blob_Some:
  "key_from_ssh_blob sec blob tcap 2048 = Some (key, type) \<longleftrightarrow>
    (\<exists>k t x. blob = put_str t @ x \<and> t \<noteq> [] \<and> length t < tcap \<and> length t < 2 ^ 32 \<and>
      c_str t = type \<and> type = key_type_of k \<and> key_body k x \<and> sec_key sec k = Some key)"
proof -
  have "key_from_ssh_blob sec blob tcap 2048 = Some (key, type) \<longleftrightarrow>
    (\<exists>r. ssh_rd_cstr (ssh_rd_init blob) tcap = (Some type, r) \<and> key_of_type sec type r 2048 = Some key)"
    by (cases "ssh_rd_cstr (ssh_rd_init blob) tcap") (auto simp: key_from_ssh_blob_def split: option.splits)
  then show ?thesis
    by (simp only: key_blob_Some [where g = "\<lambda>type r. key_of_type sec type r 2048" and h = "sec_key sec", OF key_of_type_Some])
qed

lemma sig_algo_info_darwin_key:
  "sig_algo_info_darwin sec algo = Some (key_type_of k, a) \<longleftrightarrow>
    (\<exists>md. sig_digest algo k = Some md \<and> a = algorithm_of sec k md) \<and> key_usable_darwin sec k"
proof -
  consider "algo = bs ''ssh-ed25519''" | "algo = bs ''rsa-sha2-256''" | "algo = bs ''rsa-sha2-512''"
    | c p where "algo = key_type_of (EcKey c p)"
    | "algo \<noteq> bs ''ssh-ed25519''" "algo \<noteq> bs ''rsa-sha2-256''" "algo \<noteq> bs ''rsa-sha2-512''" "\<And>c p. algo \<noteq> key_type_of (EcKey c p)"
    by blast
  then show ?thesis
  proof cases
    case 4
    then show ?thesis
      by (cases c; cases k)
        (auto simp: sig_algo_info_darwin_def ssoossh_sig_algo_key_type_def key_usable_darwin_def curve_name_def
          split: ssoossh_curve.splits)
  next
    case 5
    then have "ssoossh_sig_algo_key_type u algo = None" for u
      using 5(4) [of CURVE_P256] 5(4) [of CURVE_P384] 5(4) [of CURVE_P521]
      by (simp add: ssoossh_sig_algo_key_type_def curve_names)
    moreover have "sig_digest algo k = None" using 5 by (cases k) (simp_all del: bs_simps)
    ultimately show ?thesis by (simp add: sig_algo_info_darwin_def)
  qed (cases k; auto simp: sig_algo_info_darwin_def ssoossh_sig_algo_key_type_def key_usable_darwin_def curve_name_def
      split: ssoossh_curve.splits)+
qed

lemma verify_with_ok:
  "verify_with sec key a msg sig = VERIFY_OK \<longleftrightarrow>
    CFDataCreateWithBytesNoCopy sec msg \<and> CFDataCreateWithBytesNoCopy sec sig \<and> SecKeyVerifySignature sec key a msg sig"
  by (simp add: verify_with_def data_view_def)

section \<open>One meaning on both platforms\<close>

text \<open>
  The contract of a backend: which keys, digests, signatures and messages its library accepts decides
  every verification, in one way.
\<close>

definition signed_by_key :: "bytes \<Rightarrow> bytes \<Rightarrow> bytes \<Rightarrow> (key_material \<Rightarrow> evp_md option \<Rightarrow> bytes \<Rightarrow> bool) \<Rightarrow> bool" where
  "signed_by_key algo ca sig accepts \<longleftrightarrow>
     (\<exists>k t x md sg. ca = put_str t @ x \<and> key_body k x \<and> t \<noteq> [] \<and> length t < 64 \<and> c_str t = key_type_of k \<and>
        sig_digest algo k = Some md \<and> sig_to_check k sig = Some sg \<and> accepts k md sg)"

locale crypto_backend =
  fixes verify :: "bytes \<Rightarrow> bytes \<Rightarrow> bytes \<Rightarrow> bytes \<Rightarrow> ssoossh_verify_result"
    and accepts :: "bytes \<Rightarrow> key_material \<Rightarrow> evp_md option \<Rightarrow> bytes \<Rightarrow> bool"
  assumes verify_ok: "verify algo ca msg sig = VERIFY_OK \<longleftrightarrow> signed_by_key algo ca sig (accepts msg)"
begin

lemma no_sha1: "verify (bs ''ssh-rsa'') ca msg sig \<noteq> VERIFY_OK"
proof -
  have "sig_digest (bs ''ssh-rsa'') k = None" for k by (cases k) (auto simp: curve_names)
  then show ?thesis unfolding verify_ok signed_by_key_def by simp
qed

lemma accepted_same:
  assumes "\<And>k md sg. accepts msg k md sg \<longleftrightarrow> other k md sg"
  shows "verify algo ca msg sig = VERIFY_OK \<longleftrightarrow> signed_by_key algo ca sig other"
  unfolding verify_ok signed_by_key_def using assms by simp

end

definition openssl_accepts :: "'k openssl \<Rightarrow> bytes \<Rightarrow> key_material \<Rightarrow> evp_md option \<Rightarrow> bytes \<Rightarrow> bool" where
  "openssl_accepts ossl msg k md sg \<longleftrightarrow> key_usable ossl k \<and>
     (\<exists>d pkey. spki_of k 2048 = Some d \<and> d2i_PUBKEY ossl d = Inr pkey \<and> EVP_MD_CTX_new ossl \<and>
        EVP_DigestVerifyInit ossl pkey md = Inr () \<and> fst (EVP_DigestVerify ossl pkey md sg msg) = 1)"

definition darwin_accepts :: "('k, 'c) security \<Rightarrow> bytes \<Rightarrow> key_material \<Rightarrow> evp_md option \<Rightarrow> bytes \<Rightarrow> bool" where
  "darwin_accepts sec msg k md sg \<longleftrightarrow>
     (\<exists>key. sec_key sec k = Some key \<and> CFDataCreateWithBytesNoCopy sec msg \<and> CFDataCreateWithBytesNoCopy sec sg \<and>
        SecKeyVerifySignature sec key (algorithm_of sec k md) msg sg)"

interpretation openssl_backend: crypto_backend "\<lambda>algo ca msg sig. fst (ssoossh_crypto_verify ossl algo ca msg sig)"
  "openssl_accepts ossl" for ossl
  by unfold_locales (unfold crypto_verify_spec signed_by_key_def openssl_accepts_def, blast)

lemma darwin_verify_spec:
  "ssoossh_crypto_verify_darwin sec algo ca msg sig = VERIFY_OK \<longleftrightarrow> signed_by_key algo ca sig (darwin_accepts sec msg)"
  (is "?ok \<longleftrightarrow> ?spec")
proof
  assume ok: ?ok
  then obtain type a where info: "sig_algo_info_darwin sec algo = Some (type, a)"
    by (cases "sig_algo_info_darwin sec algo") (auto simp: ssoossh_crypto_verify_darwin_def)
  with ok obtain key where key: "key_from_ssh_blob sec ca 64 2048 = Some (key, type)"
    by (cases "key_from_ssh_blob sec ca 64 2048") (auto simp: ssoossh_crypto_verify_darwin_def split: if_splits)
  then obtain k t x where k: "ca = put_str t @ x" "t \<noteq> []" "length t < 64" "c_str t = type"
      "type = key_type_of k" "key_body k x" "sec_key sec k = Some key"
    unfolding key_from_ssh_blob_Some by blast
  obtain md where dig: "sig_digest algo k = Some md" "a = algorithm_of sec k md"
    using info k(5) by (auto simp: sig_algo_info_darwin_key)
  obtain sg where sg: "sig_to_check k sig = Some sg"
    using ok info key sig_prepared [OF dig(1), of sig]
    by (cases "sig_to_check k sig") (auto simp: ssoossh_crypto_verify_darwin_def)
  have "verify_with sec key a msg sg = VERIFY_OK"
    using ok info key sg sig_prepared [OF dig(1), of sig] by (simp add: ssoossh_crypto_verify_darwin_def)
  with k dig sg show ?spec unfolding verify_with_ok signed_by_key_def darwin_accepts_def by blast
next
  assume ?spec
  then obtain k t x md sg key where *:
      "ca = put_str t @ x" "key_body k x" "t \<noteq> []" "length t < 64" "c_str t = key_type_of k"
      "sig_digest algo k = Some md" "sig_to_check k sig = Some sg" "sec_key sec k = Some key"
      and ok: "verify_with sec key (algorithm_of sec k md) msg sg = VERIFY_OK"
    unfolding verify_with_ok signed_by_key_def darwin_accepts_def by blast
  have "key_usable_darwin sec k" using *(8) by (auto simp: sec_key_def split: option.splits if_splits)
  then have "sig_algo_info_darwin sec algo = Some (key_type_of k, algorithm_of sec k md)"
    using *(6) by (auto simp: sig_algo_info_darwin_key)
  moreover have "key_from_ssh_blob sec ca 64 2048 = Some (key, key_type_of k)"
    unfolding key_from_ssh_blob_Some using * by fastforce
  ultimately show ?ok
    using sig_prepared [OF *(6), of sig] *(7) ok by (simp add: ssoossh_crypto_verify_darwin_def)
qed

interpretation darwin_backend: crypto_backend "ssoossh_crypto_verify_darwin sec" "darwin_accepts sec" for sec
  by unfold_locales (rule darwin_verify_spec)


text \<open>
  What is relied on of the two libraries, beside their containers: both have Ed25519 or neither; a key
  too long for the OpenSSL backend's buffer is no key to the other either; and for a key both can be
  handed, they accept the same signatures.
\<close>

definition libraries_agree :: "'j openssl \<Rightarrow> ('k, 'c) security \<Rightarrow> bool" where
  "libraries_agree ossl sec \<longleftrightarrow>
     ssoossh_crypto_ed25519_usable ossl = ssoossh_crypto_ed25519_usable_darwin sec \<and>
     EVP_MD_CTX_new ossl \<and> CFDictionaryCreateMutable sec \<and> (\<forall>p. CFDataCreateWithBytesNoCopy sec p) \<and>
     (\<forall>k m. material_of k = Some m \<longrightarrow> spki_of k 2048 = None \<longrightarrow> create_key sec k m = None) \<and>
     (\<forall>k m d md sg msg. key_usable ossl k \<longrightarrow> material_of k = Some m \<longrightarrow> spki_of k 2048 = Some d \<longrightarrow>
        (\<exists>pkey. d2i_PUBKEY ossl d = Inr pkey \<and> EVP_DigestVerifyInit ossl pkey md = Inr () \<and>
           fst (EVP_DigestVerify ossl pkey md sg msg) = 1) =
        (\<exists>key. create_key sec k m = Some key \<and> SecKeyVerifySignature sec key (algorithm_of sec k md) msg sg))"

lemma spki_material: "spki_of k 2048 = Some d \<Longrightarrow> \<exists>m. material_of k = Some m"
  by (cases k)
    (auto simp: ssoossh_der_spki_ec_def ssoossh_der_spki_rsa_def ssoossh_der_spki_ed25519_def rsa_pkcs1_Some
      split: if_splits option.splits)

lemma accepts_agree:
  assumes "libraries_agree ossl sec"
  shows "openssl_accepts ossl msg k md sg \<longleftrightarrow> darwin_accepts sec msg k md sg"
proof -
  note a = assms [unfolded libraries_agree_def]
  have usable: "key_usable ossl k \<longleftrightarrow> key_usable_darwin sec k"
    using a by (cases k) (simp_all add: key_usable_def key_usable_darwin_def)
  consider (none) "material_of k = None" | (long) m where "material_of k = Some m" "spki_of k 2048 = None"
    | (both) m d where "material_of k = Some m" "spki_of k 2048 = Some d"
    by (cases "material_of k"; cases "spki_of k 2048") auto
  then show ?thesis
  proof cases
    case none
    then have "spki_of k 2048 = None" using spki_material [of k] by (cases "spki_of k 2048") auto
    then show ?thesis using none by (simp add: openssl_accepts_def darwin_accepts_def sec_key_def)
  next
    case long
    then have "create_key sec k m = None" using a by blast
    then show ?thesis using long by (simp add: openssl_accepts_def darwin_accepts_def sec_key_def)
  next
    case both
    have sec: "sec_key sec k = (if key_usable ossl k then create_key sec k m else None)"
      using both a usable by (simp add: sec_key_def)
    show ?thesis
    proof (cases "key_usable ossl k")
      case True
      with a both have "(\<exists>pkey. d2i_PUBKEY ossl d = Inr pkey \<and> EVP_DigestVerifyInit ossl pkey md = Inr () \<and>
           fst (EVP_DigestVerify ossl pkey md sg msg) = 1) \<longleftrightarrow>
        (\<exists>key. create_key sec k m = Some key \<and> SecKeyVerifySignature sec key (algorithm_of sec k md) msg sg)" by blast
      then show ?thesis using True both a unfolding openssl_accepts_def darwin_accepts_def sec by simp
    qed (simp add: openssl_accepts_def darwin_accepts_def sec)
  qed
qed


text \<open>Two small libraries: every key is a key, one signature is a signature, and there is no Ed25519.\<close>

definition small_openssl :: "bytes openssl" where
  "small_openssl =
     \<lparr> OpenSSL_version = [], proc_fips_enabled = None, EVP_default_properties_is_fips_enabled = 0,
       d2i_PUBKEY = Inr, EVP_MD_CTX_new = True, EVP_DigestVerifyInit = (\<lambda>key md. Inr ()),
       EVP_DigestVerify = (\<lambda>key md sig msg. (if sig = [9] then 1 else 0, None)), EVP_Digest_sha256 = (\<lambda>x. None) \<rparr>"

definition small_security :: "(bytes, unit) security" where
  "small_security =
     \<lparr> dlsym = (\<lambda>name. None), CFDictionaryCreateMutable = True, CFNumberCreate = True,
       CFDataCreateWithBytesNoCopy = (\<lambda>p. True),
       SecKeyCreateWithData = (\<lambda>m t size. case (t, size) of
           (SecKeyTypeECSECPrimeRandom, Some n) \<Rightarrow>
             ssoossh_der_spki_ec (if n = 256 then CURVE_P256 else if n = 384 then CURVE_P384 else CURVE_P521) m 2048
         | _ \<Rightarrow> Some m),
       SecKeyVerifySignature = (\<lambda>key a msg sig. sig = [9]), CC_SHA256 = (\<lambda>x. []) \<rparr>"

lemma small_libraries_agree: "libraries_agree small_openssl small_security"
proof -
  have darwin: "ed25519_of small_security = no_ed25519" "\<not> ssoossh_crypto_ed25519_usable_darwin small_security"
    by (simp_all add: ed25519_of_def ed25519_init_darwin_def resolve_constant_def ssoossh_crypto_ed25519_usable_darwin_def small_security_def
        no_ed25519_def)
  have ossl: "\<not> ssoossh_crypto_ed25519_usable small_openssl"
    by (auto simp: ssoossh_crypto_ed25519_usable_def ed25519_init_def probe_def verify_spki_def small_openssl_def
        ED25519_KAT_def Let_def split: option.split)
  have curve: "(if curve_bits c = 256 then CURVE_P256 else if curve_bits c = 384 then CURVE_P384 else CURVE_P521) = c" for c
    by (cases c) (simp_all add: curve_bits_def)
  have calls: "CFNumberCreate small_security" "SecKeyCreateWithData small_security m SecKeyTypeRSA size = Some m"
    "SecKeyCreateWithData small_security m SecKeyTypeECSECPrimeRandom (Some n) =
      ssoossh_der_spki_ec (if n = 256 then CURVE_P256 else if n = 384 then CURVE_P384 else CURVE_P521) m 2048" for m size n
    by (simp_all add: small_security_def)
  have create: "create_key small_security k m =
      (case k of EcKey c p \<Rightarrow> ssoossh_der_spki_ec c m 2048 | RsaKey e n \<Rightarrow> Some m | EdKey p \<Rightarrow> None)" for k m
    by (cases k) (simp_all add: calls curve darwin(1) no_ed25519_def)
  have long: "create_key small_security k m = None" if "material_of k = Some m" "spki_of k 2048 = None" for k m
    using that rsa_spki_fits by (cases k) (fastforce simp: create simp del: create_key.simps split: if_splits)+
  have both: "\<exists>key. create_key small_security k m = Some key"
    if "key_usable small_openssl k" "material_of k = Some m" "spki_of k 2048 = Some d" for k m d
    using that ossl by (cases k) (auto simp: create key_usable_def simp del: create_key.simps split: if_splits)
  show ?thesis
    unfolding libraries_agree_def using darwin ossl long both
    by (auto simp: small_openssl_def small_security_def)
qed


end
