(* ===== verification/Keypair.thy ===== *)
theory Keypair
  imports Crypto_Darwin "HOL-Library.Multiset"
begin

text \<open>
  The key pair of an attempt, on both backends: generated, its public point read, freed.  Key generation
  on macOS is calls of Security.framework and CoreFoundation, the record \<open>sec_keys\<close>; a key pair there is
  two objects, each counted by references.  The interface both backends provide is the locale
  \<open>keypair_backend\<close>: whatever fails half way, what was made is released, and freeing a pair releases all
  of it.  At the end, the clearing of memory.
\<close>

section \<open>macOS\<close>

text \<open>
  Creating a key takes its type, its size and whether it is kept in the keychain; each object made is
  released by the code, once.
\<close>

record ('p, 'q, 'c, 'w) sec_keys =
  CF_dictionary :: "'w \<Rightarrow> bool \<times> 'w"
  CF_number :: "nat \<Rightarrow> 'w \<Rightarrow> bool \<times> 'w"
  SecKeyCreateRandomKey :: "'c sec_key_type \<Rightarrow> nat \<Rightarrow> bool \<Rightarrow> 'w \<Rightarrow> 'p option \<times> 'w"
  SecKeyCopyPublicKey :: "'p \<Rightarrow> 'w \<Rightarrow> 'q option \<times> 'w"
  CF_calloc :: "'w \<Rightarrow> bool \<times> 'w"
  CFRelease_private :: "'p \<Rightarrow> 'w \<Rightarrow> 'w"
  CFRelease_public :: "'q \<Rightarrow> 'w \<Rightarrow> 'w"
  SecKeyCopyExternalRepresentation :: "'q \<Rightarrow> bytes option"

record ('p, 'q) darwin_keypair =
  dk_private :: 'p
  dk_public :: 'q

definition ssoossh_crypto_keygen_darwin ::
    "('p, 'q, 'c, 'w) sec_keys \<Rightarrow> 'w \<Rightarrow> ('p, 'q) darwin_keypair option \<times> 'w" where
  "ssoossh_crypto_keygen_darwin sec w =
     (let (attrs, w) = CF_dictionary sec w in
      if \<not> attrs then (None, w)
      else let (bits, w) = CF_number sec 384 w in
      if \<not> bits then (None, w)
      else let (priv_attrs, w) = CF_dictionary sec w in
      if \<not> priv_attrs then (None, w)
      else
        (case SecKeyCreateRandomKey sec SecKeyTypeECSECPrimeRandom 384 False w of
           (None, w) \<Rightarrow> (None, w)
         | (Some priv, w) \<Rightarrow>
             (case SecKeyCopyPublicKey sec priv w of
                (None, w) \<Rightarrow> (None, CFRelease_private sec priv w)
              | (Some pub, w) \<Rightarrow>
                  (case CF_calloc sec w of
                     (kp, w) \<Rightarrow>
                       if \<not> kp then (None, CFRelease_private sec priv (CFRelease_public sec pub w))
                       else (Some \<lparr>dk_private = priv, dk_public = pub\<rparr>, w)))))"

definition ssoossh_crypto_keypair_free_darwin ::
    "('p, 'q, 'c, 'w) sec_keys \<Rightarrow> ('p, 'q) darwin_keypair option \<Rightarrow> 'w \<Rightarrow> 'w" where
  "ssoossh_crypto_keypair_free_darwin sec kp w =
     (case kp of
        None \<Rightarrow> w
      | Some kp \<Rightarrow> CFRelease_private sec (dk_private kp) (CFRelease_public sec (dk_public kp) w))"

definition ssoossh_crypto_public_point_darwin ::
    "('p, 'q, 'c, 'w) sec_keys \<Rightarrow> ('p, 'q) darwin_keypair \<Rightarrow> nat \<Rightarrow> bytes option" where
  "ssoossh_crypto_public_point_darwin sec kp out_cap =
     (case SecKeyCopyExternalRepresentation sec (dk_public kp) of
        None \<Rightarrow> None
      | Some data \<Rightarrow> if length data = 0 \<or> length data > out_cap then None else Some data)"

lemma point_darwin_fits:
  "ssoossh_crypto_public_point_darwin sec kp cap = Some point \<Longrightarrow> 0 < length point \<and> length point \<le> cap"
  by (auto simp: ssoossh_crypto_public_point_darwin_def split: option.splits if_splits)

section \<open>OpenSSL 1.1.1\<close>

text \<open>Before OpenSSL 3 the public point is taken from the EC key inside the pair.\<close>

record ('p, 'e, 'q, 'g) ec_keys =
  EVP_PKEY_get0_EC_KEY :: "'p \<Rightarrow> 'e option"
  EC_KEY_get0_public_key :: "'e \<Rightarrow> 'q option"
  EC_KEY_get0_group :: "'e \<Rightarrow> 'g option"
  EC_POINT_point2oct_uncompressed :: "'g \<Rightarrow> 'q \<Rightarrow> nat \<Rightarrow> bytes"

definition ssoossh_crypto_public_point_111 :: "('p, 'e, 'q, 'g) ec_keys \<Rightarrow> 'p \<Rightarrow> nat \<Rightarrow> bytes option" where
  "ssoossh_crypto_public_point_111 ossl kp out_cap =
     (case EVP_PKEY_get0_EC_KEY ossl kp of
        None \<Rightarrow> None
      | Some ec \<Rightarrow>
          (case (EC_KEY_get0_public_key ossl ec, EC_KEY_get0_group ossl ec) of
             (Some point, Some grp) \<Rightarrow>
               let out = EC_POINT_point2oct_uncompressed ossl grp point out_cap in
               if length out = 0 then None else Some out
           | _ \<Rightarrow> None))"

definition ssoossh_crypto_version :: "'k openssl \<Rightarrow> bytes" where
  "ssoossh_crypto_version ossl = OpenSSL_version ossl"

section \<open>The interface\<close>

text \<open>
  \<open>held\<close> is what the process holds of private keys; \<open>lawful\<close> is what the library promises of its own
  calls about it.
\<close>

locale keypair_backend =
  fixes keygen :: "'lib \<Rightarrow> 'w \<Rightarrow> 'kp option \<times> 'w"
    and free :: "'lib \<Rightarrow> 'kp option \<Rightarrow> 'w \<Rightarrow> 'w"
    and lawful :: "'lib \<Rightarrow> ('w \<Rightarrow> 'm) \<Rightarrow> bool"
  assumes keygen_fails: "lawful lib held \<Longrightarrow> keygen lib w = (None, w') \<Longrightarrow> held w' = held w"
    and keygen_freed: "lawful lib held \<Longrightarrow> keygen lib w = (Some kp, w') \<Longrightarrow> held v = held w' \<Longrightarrow>
      held (free lib (Some kp) v) = held w"
    and free_null: "free lib None w = w"
begin

lemma nothing_left:
  assumes "lawful lib held" and "keygen lib w = (kp, w')" and "held v = held w'"
  shows "held (free lib kp v) = held w"
  using assms by (cases kp) (simp_all add: keygen_fails keygen_freed free_null)

end

section \<open>OpenSSL provides it\<close>

text \<open>
  The private keys in memory, a multiset of handles: a call that generates one adds it, one that fails
  does not, and freeing takes it out.
\<close>

definition evp_lawful :: "('p, 'w) evp_keys \<Rightarrow> ('w \<Rightarrow> 'p multiset) \<Rightarrow> bool" where
  "evp_lawful evp held \<longleftrightarrow>
     (\<forall>w. held (snd (EVP_PKEY_CTX_new_id evp w)) = held w \<and> held (snd (EVP_PKEY_keygen_init evp w)) = held w \<and>
        held (snd (EVP_PKEY_CTX_set_p384 evp w)) = held w \<and> held (snd (OPENSSL_zalloc evp w)) = held w) \<and>
     (\<forall>w. case EVP_PKEY_keygen evp w of
        ((rc, pkey), v) \<Rightarrow> held v = (if rc \<le> 0 then held w else add_mset pkey (held w))) \<and>
     (\<forall>pkey w. held (EVP_PKEY_free evp pkey w) = held w - {#pkey#})"

lemma keygen_held:
  assumes law: "evp_lawful evp held" and "ssoossh_crypto_keygen evp w = (kp, w')"
  shows "held w' = (case kp of None \<Rightarrow> held w | Some pkey \<Rightarrow> add_mset pkey (held w))"
proof -
  have calls: "held (snd (EVP_PKEY_CTX_new_id evp v)) = held v" "held (snd (EVP_PKEY_keygen_init evp v)) = held v"
    "held (snd (EVP_PKEY_CTX_set_p384 evp v)) = held v" "held (snd (OPENSSL_zalloc evp v)) = held v" for v
    using law by (simp_all add: evp_lawful_def)
  have new: "held (snd (EVP_PKEY_keygen evp v)) =
      (if fst (fst (EVP_PKEY_keygen evp v)) \<le> 0 then held v
       else add_mset (snd (fst (EVP_PKEY_keygen evp v))) (held v))" for v
    using law unfolding evp_lawful_def by (simp add: case_prod_beta)
  show ?thesis using assms(2) unfolding ssoossh_crypto_keygen_def Let_def case_prod_beta
    by (auto simp: calls new split: if_splits)
qed

interpretation openssl_keypair: keypair_backend ssoossh_crypto_keygen ssoossh_crypto_keypair_free evp_lawful
proof
  fix evp :: "('p, 'w) evp_keys" and held :: "'w \<Rightarrow> 'p multiset" and w w' v kp
  assume law: "evp_lawful evp held"
  show "ssoossh_crypto_keygen evp w = (None, w') \<Longrightarrow> held w' = held w"
    using keygen_held [OF law] by fastforce
  assume "ssoossh_crypto_keygen evp w = (Some kp, w')" and "held v = held w'"
  then show "held (ssoossh_crypto_keypair_free evp (Some kp) v) = held w"
    using keygen_held [OF law, of w "Some kp"] law by (simp add: ssoossh_crypto_keypair_free_def evp_lawful_def)
qed (simp add: ssoossh_crypto_keypair_free_def)

section \<open>macOS provides it\<close>

text \<open>The references held, to private keys and to public ones.\<close>

definition sec_lawful :: "('p, 'q, 'c, 'w) sec_keys \<Rightarrow> ('w \<Rightarrow> ('p + 'q) multiset) \<Rightarrow> bool" where
  "sec_lawful sec held \<longleftrightarrow>
     (\<forall>w. held (snd (CF_dictionary sec w)) = held w \<and> (\<forall>n. held (snd (CF_number sec n w)) = held w) \<and>
        held (snd (CF_calloc sec w)) = held w) \<and>
     (\<forall>t n k w. held (snd (SecKeyCreateRandomKey sec t n k w)) =
        (case fst (SecKeyCreateRandomKey sec t n k w) of None \<Rightarrow> held w | Some priv \<Rightarrow> add_mset (Inl priv) (held w))) \<and>
     (\<forall>priv w. held (snd (SecKeyCopyPublicKey sec priv w)) =
        (case fst (SecKeyCopyPublicKey sec priv w) of None \<Rightarrow> held w | Some pub \<Rightarrow> add_mset (Inr pub) (held w))) \<and>
     (\<forall>priv w. held (CFRelease_private sec priv w) = held w - {#Inl priv#}) \<and>
     (\<forall>pub w. held (CFRelease_public sec pub w) = held w - {#Inr pub#})"

lemma keygen_darwin_held:
  assumes law: "sec_lawful sec held" and gen: "ssoossh_crypto_keygen_darwin sec w = (kp, w')"
  shows "held w' = (case kp of None \<Rightarrow> held w
    | Some kp \<Rightarrow> add_mset (Inr (dk_public kp)) (add_mset (Inl (dk_private kp)) (held w)))"
proof -
  have calls: "held (snd (CF_dictionary sec v)) = held v" "held (snd (CF_number sec n v)) = held v"
    "held (snd (CF_calloc sec v)) = held v" "held (CFRelease_private sec p v) = held v - {#Inl p#}"
    "held (CFRelease_public sec q v) = held v - {#Inr q#}" for v n p q
    using law by (simp_all add: sec_lawful_def)
  have priv: "held v' = (case p of None \<Rightarrow> held v | Some p \<Rightarrow> add_mset (Inl p) (held v))"
    if "SecKeyCreateRandomKey sec t n k v = (p, v')" for t n k v p v'
    using law that unfolding sec_lawful_def by (metis fst_conv snd_conv)
  have pub: "held v' = (case q of None \<Rightarrow> held v | Some q \<Rightarrow> add_mset (Inr q) (held v))"
    if "SecKeyCopyPublicKey sec p v = (q, v')" for p v q v'
    using law that unfolding sec_lawful_def by (metis fst_conv snd_conv)
  define w3 where "w3 = snd (CF_dictionary sec (snd (CF_number sec 384 (snd (CF_dictionary sec w)))))"
  have 3: "held w3 = held w" by (simp add: w3_def calls)
  obtain a w4 where a: "SecKeyCreateRandomKey sec SecKeyTypeECSECPrimeRandom 384 False w3 = (a, w4)" by fastforce
  obtain b w5 where b: "SecKeyCopyPublicKey sec (the a) w4 = (b, w5)" by fastforce
  obtain ok w6 where c: "CF_calloc sec w5 = (ok, w6)" by fastforce
  have 6: "held w6 = held w5" using calls(3) [of w5] c by simp
  note run = gen [unfolded ssoossh_crypto_keygen_darwin_def Let_def case_prod_beta, folded w3_def, unfolded a fst_conv snd_conv]
  show ?thesis
  proof (cases "a = None \<or> b = None")
    case True
    then show ?thesis using run priv [OF a] pub [OF b] 3 b
      by (cases a) (auto simp: calls split: if_splits)
  next
    case False
    then obtain p q where pq: "a = Some p" "b = Some q" by auto
    then show ?thesis using run priv [OF a] pub [OF b] 3 6 b c
      by (cases ok) (auto simp: calls split: if_splits)
  qed
qed

interpretation darwin_keypair: keypair_backend ssoossh_crypto_keygen_darwin ssoossh_crypto_keypair_free_darwin sec_lawful
proof
  fix sec :: "('p, 'q, 'c, 'w) sec_keys" and held :: "'w \<Rightarrow> ('p + 'q) multiset" and w w' v kp
  assume law: "sec_lawful sec held"
  show "ssoossh_crypto_keygen_darwin sec w = (None, w') \<Longrightarrow> held w' = held w"
    using keygen_darwin_held [OF law] by fastforce
  assume "ssoossh_crypto_keygen_darwin sec w = (Some kp, w')" and "held v = held w'"
  then show "held (ssoossh_crypto_keypair_free_darwin sec (Some kp) v) = held w"
    using keygen_darwin_held [OF law, of w "Some kp"] law
    by (simp add: ssoossh_crypto_keypair_free_darwin_def sec_lawful_def)
qed (simp add: ssoossh_crypto_keypair_free_darwin_def)

section \<open>Clearing memory\<close>

text \<open>\<open>OPENSSL_cleanse\<close> and \<open>memset_s\<close> on the first bytes of an object; the portable loop of the macOS file.\<close>

definition ssoossh_crypto_wipe :: "bytes \<Rightarrow> nat \<Rightarrow> bytes" where
  "ssoossh_crypto_wipe p n = replicate (min n (length p)) 0 @ drop n p"

fun ssoossh_crypto_wipe_darwin :: "bytes \<Rightarrow> nat \<Rightarrow> bytes" where
  "ssoossh_crypto_wipe_darwin (b # q) (Suc n) = 0 # ssoossh_crypto_wipe_darwin q n"
| "ssoossh_crypto_wipe_darwin q n = q"

lemma wipe_same: "ssoossh_crypto_wipe_darwin p n = ssoossh_crypto_wipe p n"
  by (induction p n rule: ssoossh_crypto_wipe_darwin.induct) (simp_all add: ssoossh_crypto_wipe_def)

lemma wipe_clears: "ssoossh_crypto_wipe p (length p) = replicate (length p) 0"
  by (simp add: ssoossh_crypto_wipe_def)

end
