(* ===== verification/Auth.thy ===== *)
theory Auth
  imports Host Cancel Httpc Checks Qr Json Keypair
begin

text \<open>
  src/auth.c: one attempt, end to end.  What the attempt meets of its host is the record \<open>auth_env\<close>:
  libcurl and the clock (\<open>ae_net\<close>), OpenSSL, the conversation, the files, the key generator.  The
  attempt is cut into stages where the code has its blank lines; a stage returns the PAM code the code
  leaves with (\<open>Inl\<close>), or what the next stage needs (\<open>Inr\<close>), each with the lines logged and the world.
  The wait may not return, so neither may the attempt.

  The lemmas: success means the four checks, on the key of this attempt and a trusted CA of the file;
  a URL the server returns cannot leave the server; what reaches the terminal is clean; and the
  attempt returns when the clock runs.
\<close>

section \<open>The host\<close>

record wait_ctx =
  wc_response :: bytes
  wc_status :: bytes
  wc_have :: bool
  wc_logs :: "log_line list"

text \<open>
  \<open>ae_keys\<close> generates the key pair and frees it; \<open>ae_sigaction_ok\<close> and \<open>ae_sigmask_ok\<close> are whether the
  two system calls of arming succeed, and \<open>ae_cancel\<close> what the stack holds where the code keeps what it
  is to put back.
\<close>

record ('k, 'w) auth_env =
  ae_version :: bytes
  ae_calloc_ok :: bool
  ae_sse_calloc_ok :: bool
  ae_malloc_ok :: bool
  ae_ossl :: "'k openssl"
  ae_read_file :: "bytes \<Rightarrow> file_read"
  ae_getenv :: "bytes \<Rightarrow> bytes option"
  ae_proc_stat :: "int \<Rightarrow> bytes option"
  ae_uid :: int
  ae_pid :: int
  ae_ppid :: int
  ae_get_item :: "pam_item \<Rightarrow> pam_code \<times> bytes option"
  ae_hostname :: "bytes option"
  ae_conv :: "pam_code \<times> 'w pam_conv option"
  ae_keys :: "('k, 'w) evp_keys"
  ae_encodeText :: "bytes \<Rightarrow> qrcode option"
  ae_inet_ntop :: "sockaddr \<Rightarrow> bytes option"
  ae_getifaddrs :: "ifaddr list option"
  ae_host :: host_env
  ae_time :: "'w \<Rightarrow> int \<times> 'w"
  ae_sigaction_ok :: bool
  ae_sigmask_ok :: bool
  ae_cancel :: "nat ssoossh_cancel"
  ae_net :: "(wait_ctx, 'w) net"

section \<open>Events\<close>

definition terminal_status :: "(bytes \<times> bytes option) list" where
  "terminal_status =
     [(bs ''approved'', None),
      (bs ''denied'', Some (bs ''the request was denied'')),
      (bs ''expired'', Some (bs ''the request expired before anyone approved it'')),
      (bs ''enrolled'', Some (bs ''the request resolved as an enrollment, which carries no certificate for this login'')),
      (bs ''failed'', Some (bs ''ssoosshd could not issue the certificate''))]"

definition terminal_failure :: "bytes \<Rightarrow> bytes option" where
  "terminal_failure name = (case map_of terminal_status name of None \<Rightarrow> None | Some failure \<Rightarrow> failure)"

definition is_terminal :: "bytes \<Rightarrow> bool" where
  "is_terminal name \<longleftrightarrow> list_ex (\<lambda>(n, _). n = name) terminal_status"

definition on_event :: "wait_ctx sse_cb" where
  "on_event name data w =
     (let name = c_str name in
      if \<not> is_terminal name then
        (True, w\<lparr>wc_logs := wc_logs w @
           [ssoossh_debugf ''events: informational event %s'' [AStr (ssoossh_log_escape_str name 256)]]\<rparr>)
      else if length data \<ge> SSOOSSH_MAX_RESPONSE then (True, w)
      else (False, w\<lparr>wc_status := take 31 name, wc_response := data, wc_have := True\<rparr>))"

section \<open>The request body\<close>

definition mode_name :: "ssoossh_mode \<Rightarrow> bytes" where
  "mode_name mode = (case mode of MODE_CONSOLE \<Rightarrow> bs ''console'' | MODE_SUDO \<Rightarrow> bs ''sudo'' | MODE_AUTO \<Rightarrow> bs ''auto'')"

definition quoted :: "bytes \<Rightarrow> bytes" where
  "quoted s = 0x22 # s @ [0x22]"

definition append_opt :: "bytes \<Rightarrow> bytes \<Rightarrow> ssoossh_json_wr \<Rightarrow> ssoossh_json_wr" where
  "append_opt name v w =
     (if v = [] then w
      else
        let w = ssoossh_json_append w [0x2c, 0x22];
            w = ssoossh_json_append w name;
            w = ssoossh_json_append w [0x22, 0x3a]
        in ssoossh_json_append_string w v)"

definition append_int :: "bytes \<Rightarrow> int \<Rightarrow> ssoossh_json_wr \<Rightarrow> ssoossh_json_wr" where
  "append_int name v w = ssoossh_json_append w (take 63 (0x2c # quoted name @ 0x3a # dec_int v))"

text \<open>The elements of an array of strings; \<open>first\<close> is the one no comma goes before.\<close>

fun append_elements :: "bool \<Rightarrow> bytes list \<Rightarrow> ssoossh_json_wr \<Rightarrow> ssoossh_json_wr" where
  "append_elements first [] w = w"
| "append_elements first (x # xs) w =
     (let w = (if first then w else ssoossh_json_append w [0x2c])
      in append_elements False xs (ssoossh_json_append_string w x))"

text \<open>The writer behind the last piece of the body.\<close>

definition write_request ::
    "('k, 'w) auth_env \<Rightarrow> ca_list \<Rightarrow> bytes \<Rightarrow> bytes \<Rightarrow> ssoossh_request_context \<Rightarrow> ssoossh_config \<Rightarrow> ssoossh_json_wr" where
  "write_request env cas user public_key ctx cfg =
     (let addrs = ssoossh_local_addresses (ae_inet_ntop env) (ae_getifaddrs env) SSOOSSH_MAX_LOCAL_ADDRS;
          host = ssoossh_host_info_read (ae_host env);
          w = ssoossh_json_wr_init 8192;
          w = ssoossh_json_append w (0x7b # quoted (bs ''public_key'') @ [0x3a]);
          w = ssoossh_json_append_string w public_key;
          w = ssoossh_json_append w (0x2c # quoted (bs ''username'') @ [0x3a]);
          w = ssoossh_json_append_string w user;
          w = append_opt (bs ''hostname'') (ctx_hostname ctx) w;
          w = append_opt (bs ''pam_service'') (ctx_service ctx) w;
          w = append_opt (bs ''tty'') (ctx_tty ctx) w;
          w = append_opt (bs ''remote_host'') (ctx_rhost ctx) w;
          w = append_opt (bs ''requesting_user'') (ctx_ruser ctx) w;
          w = append_opt (bs ''process'') (hi_process host) w;
          w = append_int (bs ''caller_uid'') (ae_uid env) w;
          w = append_int (bs ''caller_pid'') (ae_pid env) w;
          w = append_int (bs ''caller_ppid'') (ae_ppid env) w;
          w = append_opt (bs ''machine_id'') (hi_machine_id host) w;
          w = append_opt (bs ''os'') (hi_os host) w;
          w = append_opt (bs ''client'') (bs ''pam_ssoossh-c/'' @ ae_version env) w;
          w = append_opt (bs ''mode'') (mode_name (cfg_mode cfg)) w;
          w = append_opt (bs ''client_time'') (hi_client_time host) w;
          w = ssoossh_json_append w (0x2c # quoted (bs ''trusted_ca_fingerprints'') @ [0x3a, 0x5b]);
          w = append_elements True
                (map (\<lambda>k. ssoossh_sshkey_fingerprint (ae_ossl env) (ca_blob k)) (take 8 (ca_keys cas))) w;
          w = ssoossh_json_append w [0x5d];
          w = ssoossh_json_append w (0x2c # quoted (bs ''requested_options'') @ [0x3a, 0x7b]);
          w = (if length addrs > 0 then
                 let w = ssoossh_json_append w (quoted (bs ''source_addresses'') @ [0x3a, 0x5b]);
                     w = append_elements True addrs w
                 in ssoossh_json_append w [0x5d]
               else w);
          w = ssoossh_json_append w [0x7d, 0x7d]
      in w)"

definition build_body ::
    "('k, 'w) auth_env \<Rightarrow> ca_list \<Rightarrow> bytes \<Rightarrow> bytes \<Rightarrow> ssoossh_request_context \<Rightarrow> ssoossh_config \<Rightarrow> bytes option" where
  "build_body env cas user public_key ctx cfg =
     (let w = write_request env cas user public_key ctx cfg in if ssoossh_json_wr_ok w then Some (jw_buf w) else None)"

section \<open>PAM codes and URLs\<close>

definition http_to_pam :: "ssoossh_http_result \<Rightarrow> int \<Rightarrow> bytes \<Rightarrow> bytes \<Rightarrow> pam_code \<times> log_line list" where
  "http_to_pam r status server_error what =
     (case r of
        HTTP_OK \<Rightarrow> (PAM_SUCCESS, [])
      | HTTP_CANCELLED \<Rightarrow> (PAM_IGNORE, [ssoossh_noticef ''authentication was interrupted by the user'' []])
      | HTTP_TIMEOUT \<Rightarrow> (PAM_AUTH_ERR, [ssoossh_errf ''timed out waiting for approval'' []])
      | HTTP_STATUS \<Rightarrow>
          let shown = ssoossh_log_escape_str server_error 1024 in
          (PAM_AUTHINFO_UNAVAIL,
           [ssoossh_errf ''ssoosshd returned status %ld for the %s%s%s''
              [ANum status, AStr what, AStr (if shown \<noteq> [] then bs '': '' else []), AStr shown]])
      | HTTP_TOO_LARGE \<Rightarrow>
          (PAM_AUTHINFO_UNAVAIL,
           [ssoossh_errf ''the %s response was larger than this module will read'' [AStr what]])
      | HTTP_TRANSPORT \<Rightarrow>
          (PAM_AUTHINFO_UNAVAIL, [ssoossh_errf ''could not reach the ssoossh server for the %s'' [AStr what]])
      | HTTP_INTERNAL \<Rightarrow> (PAM_ABORT, [ssoossh_errf ''the HTTP client could not be built'' []]))"

definition join_url :: "nat \<Rightarrow> bytes \<Rightarrow> bytes \<Rightarrow> bytes option" where
  "join_url dst_cap base rel =
     (if rel = [] \<or> rel ! 0 \<noteq> 0x2f \<or> length rel > 1 \<and> rel ! 1 = 0x2f then None
      else if length base + length rel + 1 > dst_cap then None
      else Some (base @ rel))"

section \<open>What is shown\<close>

definition conversation_defers_text :: "ssoossh_request_context \<Rightarrow> bool" where
  "conversation_defers_text ctx \<longleftrightarrow> ctx_service ctx = bs ''sshd''"

text \<open>The message is a C string in a buffer of 8192 bytes.\<close>

definition enter_prompt :: bytes where
  "enter_prompt = [0x0a, 0x0a] @ bs ''Press Enter once you have approved it: ''"

definition shown_message :: "ssoossh_request_context \<Rightarrow> bytes \<Rightarrow> bytes" where
  "shown_message ctx message =
     (if \<not> conversation_defers_text ctx then message else take 8191 (message @ enter_prompt))"

definition show_message ::
    "('k, 'w) auth_env \<Rightarrow> ssoossh_request_context \<Rightarrow> bytes \<Rightarrow> 'w \<Rightarrow> pam_code \<times> 'w" where
  "show_message env ctx message w =
     (case ssoossh_conv (ae_conv env)
             (if \<not> conversation_defers_text ctx then PAM_TEXT_INFO else PAM_PROMPT_ECHO_OFF)
             (shown_message ctx message) False w of
        (rc, _, w) \<Rightarrow> (rc, w))"

text \<open>A PAM code as the number a log line shows.\<close>

fun pam_number :: "pam_code \<Rightarrow> int" where
  "pam_number PAM_SUCCESS = 0"
| "pam_number PAM_AUTH_ERR = 7"
| "pam_number PAM_AUTHINFO_UNAVAIL = 9"
| "pam_number PAM_USER_UNKNOWN = 10"
| "pam_number PAM_NO_MODULE_DATA = 18"
| "pam_number PAM_CONV_ERR = 19"
| "pam_number PAM_IGNORE = 25"
| "pam_number PAM_ABORT = 26"
| "pam_number (PAM_OTHER n) = n"

definition browser_message :: "bytes \<Rightarrow> bytes" where
  "browser_message clean_url = take 8191 (bs ''Approve this request in your browser:'' @ 0x0a # clean_url)"

definition show_browser_prompt ::
    "('k, 'w) auth_env \<Rightarrow> ssoossh_request_context \<Rightarrow> bytes \<Rightarrow> 'w \<Rightarrow> log_line list \<times> 'w" where
  "show_browser_prompt env ctx approval_url w =
     (let (dropped, clean_url) = ssoossh_sanitize TEXT_URL approval_url 1024;
          (rc, w) = show_message env ctx (browser_message clean_url) w
      in ((if dropped > 0 then
             [ssoossh_warnf ''the approval URL contained %zu character(s) that are not valid in a URL; they were dropped before display''
                [ANum (int dropped)]] else []) @
          (if rc \<noteq> PAM_SUCCESS then
             [ssoossh_warnf ''could not display the approval URL via the PAM conversation: code %d'' [ANum (pam_number rc)]]
           else []) @
          [ssoossh_debugf ''approval URL: %s'' [AStr clean_url]], w))"

definition console_text :: "bytes \<Rightarrow> bytes \<Rightarrow> bytes" where
  "console_text clean_url clean_code =
     bs ''Approve this login from a device with a browser.'' @ [0x0a, 0x0a] @ bs ''  Go to:  '' @ clean_url @ 0x0a #
     bs ''  Code:   '' @ clean_code @ [0x0a]"

definition console_message :: "('k, 'w) auth_env \<Rightarrow> bytes \<Rightarrow> bytes \<Rightarrow> bytes \<Rightarrow> bytes \<Rightarrow> bytes" where
  "console_message env server clean_url clean_code verification_complete =
     (let full = console_text clean_url clean_code;
          message = take 8191 full in
      if verification_complete \<noteq> [] \<and> length full < 8192 then
        let qr = (case join_url 2048 server verification_complete of
                    None \<Rightarrow> []
                  | Some whole_url \<Rightarrow> ssoossh_qr_render (ae_encodeText env) whole_url SSOOSSH_QR_MAX_OUT) in
        if length qr > 0
        then take 8191 (message @ 0x0a # snd (ssoossh_sanitize TEXT_QR qr SSOOSSH_QR_MAX_OUT))
        else message
      else message)"

definition show_console_prompt ::
    "('k, 'w) auth_env \<Rightarrow> ssoossh_request_context \<Rightarrow> bytes \<Rightarrow> bytes \<Rightarrow> bytes \<Rightarrow> bytes \<Rightarrow> 'w \<Rightarrow> log_line list \<times> 'w" where
  "show_console_prompt env ctx server user_code verification_url verification_complete w =
     (let clean_code = snd (ssoossh_sanitize TEXT_CODE user_code 64);
          joined = (case join_url 2048 server verification_url of None \<Rightarrow> [] | Some u \<Rightarrow> u);
          clean_url = snd (ssoossh_sanitize TEXT_URL joined 1024);
          (rc, w) = show_message env ctx (console_message env server clean_url clean_code verification_complete) w
      in ((if rc \<noteq> PAM_SUCCESS then
             [ssoossh_warnf ''could not display the console code via the PAM conversation: code %d'' [ANum (pam_number rc)]]
           else []) @
          [ssoossh_debugf ''console verification URL: %s, code %s'' [AStr clean_url, AStr clean_code]], w))"

section \<open>The stages of an attempt\<close>

definition SSOOSSH_MAX_KEY_LINE :: nat where "SSOOSSH_MAX_KEY_LINE = 3072"
definition SSOOSSH_MAX_CERT_LINE :: nat where "SSOOSSH_MAX_CERT_LINE = SSOOSSH_MAX_CERT * 4 div 3 + 128"

definition args_line :: "ssoossh_config \<Rightarrow> log_line list" where
  "args_line cfg =
     (let yes_no = (\<lambda>b. AStr (if b then bs ''true'' else bs ''false'')) in
      [ssoossh_debugf ''args: server=%s trusted-ca-file=%s principals-map=%s skew-tolerance=%s timeout=%s insecure-skip-verify=%s ssh-only=%s mode=%s''
         [AStr (cfg_server cfg), AStr (cfg_trusted_ca_file cfg),
          AStr (if cfg_principals_map cfg \<noteq> [] then cfg_principals_map cfg else bs ''(unset)''),
          AStr (ssoossh_duration_string (cfg_skew_tolerance cfg)), AStr (ssoossh_duration_string (cfg_timeout cfg)),
          yes_no (cfg_insecure_skip_verify cfg), yes_no (cfg_ssh_only cfg), AStr (mode_name (cfg_mode cfg))]] @
      (if cfg_insecure_skip_verify cfg then
         [ssoossh_warnf ''insecure-skip-verify is set: the ssoossh server's TLS certificate is not being checked'' []]
       else []))"

text \<open>The trusted CAs.\<close>

definition auth_load ::
    "('k, 'w) auth_env \<Rightarrow> ssoossh_config \<Rightarrow> (pam_code \<times> log_line list) + (ca_list \<times> log_line list)" where
  "auth_load env cfg =
     (let path = cfg_trusted_ca_file cfg in
      case ssoossh_ca_load (ae_ossl env) path (ae_read_file env path) of
        (CA_OK, cas, logs) \<Rightarrow>
          Inr (cas, logs @ [ssoossh_debugf ''loaded %zu trusted CA key(s) from %s (%zu skipped)''
            [ANum (int (length (ca_keys cas))), AStr path, ANum (int (ca_skipped cas))]])
      | (CA_UNREADABLE, _, logs) \<Rightarrow>
          Inl (PAM_NO_MODULE_DATA, logs @ [ssoossh_errf ''trusted CA file %s could not be read'' [AStr path]])
      | (CA_MALFORMED, _, logs) \<Rightarrow> Inl (PAM_NO_MODULE_DATA, logs)
      | (CA_NONE_USABLE, _, logs) \<Rightarrow>
          Inl (PAM_NO_MODULE_DATA,
            logs @ [ssoossh_errf ''trusted CA file %s contains no key this build can verify with'' [AStr path]]))"

definition is_console_flow :: "ssoossh_config \<Rightarrow> ssoossh_request_context \<Rightarrow> bool" where
  "is_console_flow cfg ctx =
     (case cfg_mode cfg of
        MODE_CONSOLE \<Rightarrow> True
      | MODE_SUDO \<Rightarrow> False
      | MODE_AUTO \<Rightarrow> ssoossh_console_flow_supported \<and> ssoossh_context_is_console ctx)"

definition flow_line :: "bool \<Rightarrow> bytes \<Rightarrow> ssoossh_request_context \<Rightarrow> log_line" where
  "flow_line console who ctx =
     (let shown = (\<lambda>s. AStr (ssoossh_log_escape_str (if s \<noteq> [] then s else bs ''-'') 256)) in
      ssoossh_infof ''%s flow for %s (service=%s tty=%s rhost=%s)''
        [AStr (if console then bs ''console'' else bs ''browser''), AStr who, shown (ctx_service ctx),
         shown (ctx_tty ctx), shown (ctx_rhost ctx)])"

text \<open>The key of the attempt: the pair, as soon as there is one, and its blob and \<open>authorized_keys\<close> line.\<close>

definition attempt_key :: "('k, 'w) auth_env \<Rightarrow> 'w \<Rightarrow> 'k option \<times> (bytes \<times> bytes) option \<times> 'w" where
  "attempt_key env w =
     (case ssoossh_crypto_keygen (ae_keys env) w of
        (None, w) \<Rightarrow> (None, None, w)
      | (Some kp, w) \<Rightarrow>
          (Some kp,
           (case ssoossh_crypto_public_point (ae_keys env) kp 256 of
              None \<Rightarrow> None
            | Some point \<Rightarrow>
                (case ssoossh_sshkey_blob_p384 point SSOOSSH_MAX_KEY_BLOB of
                   None \<Rightarrow> None
                 | Some blob \<Rightarrow>
                     map_option (\<lambda>line. (blob, line)) (ssoossh_sshkey_authorized_line blob SSOOSSH_MAX_KEY_LINE))), w))"

text \<open>Up to the request: the flow, the key's blob and the body; in every case the key pair, if there is one.\<close>

definition auth_prepare ::
    "('k, 'w) auth_env \<Rightarrow> bytes \<Rightarrow> bytes \<Rightarrow> ssoossh_config \<Rightarrow> ca_list \<Rightarrow> 'w \<Rightarrow>
       'k option \<times>
       ((pam_code \<times> log_line list \<times> 'w) +
        (ssoossh_request_context \<times> bool \<times> bytes \<times> bytes \<times> log_line list \<times> 'w))" where
  "auth_prepare env user who cfg cas w =
     (if cfg_ssh_only cfg \<and> \<not> ssoossh_ssh_session (ae_getenv env) (ae_proc_stat env) (ae_pid env) then
        (None,
         Inl (PAM_IGNORE, [ssoossh_infof ''ssh-only is set and this session did not arrive over SSH; standing aside for %s''
           [AStr who]], w))
      else
        let ctx = ssoossh_context_read (ae_get_item env) (ae_hostname env);
            console = is_console_flow cfg ctx;
            logs = [flow_line console who ctx] in
        (case attempt_key env w of
           (kp, None, w) \<Rightarrow>
             (kp, Inl (PAM_ABORT, logs @ [ssoossh_errf ''could not generate the per-attempt keypair'' []], w))
         | (kp, Some (key_blob, key_line), w) \<Rightarrow>
             let logs = logs @ [ssoossh_debugf ''generated ephemeral P-384 keypair for %s: %s''
                   [AStr who, AStr (ssoossh_sshkey_fingerprint (ae_ossl env) key_blob)]] in
             (kp,
              case build_body env cas user key_line ctx cfg of
                None \<Rightarrow> Inl (PAM_ABORT, logs @ [ssoossh_errf ''the certificate request body could not be built'' []], w)
              | Some body \<Rightarrow> Inr (ctx, console, key_blob, body, logs, w))))"

text \<open>A field of the response as the C string its buffer holds, and whether it was read whole.\<close>

definition data_field :: "bytes \<Rightarrow> string \<Rightarrow> nat \<Rightarrow> bool \<times> bytes" where
  "data_field resp name cap = (case ssoossh_json_data_string resp (bs name) cap of (ok, s) \<Rightarrow> (ok, c_str s))"

definition error_field :: "bytes \<Rightarrow> nat \<Rightarrow> bool \<times> bytes" where
  "error_field resp cap = (case ssoossh_json_top_string resp (bs ''error'') cap of (ok, s) \<Rightarrow> (ok, c_str s))"

text \<open>C's division truncates towards zero.\<close>

definition timeout_ms :: "int \<Rightarrow> int" where
  "timeout_ms timeout =
     (if timeout < 0 then - ((- timeout) div SSOOSSH_MILLISECOND) else timeout div SSOOSSH_MILLISECOND)"

text \<open>The deadline, brought forward by the server's own.\<close>

definition server_bound ::
    "('k, 'w) auth_env \<Rightarrow> bytes \<Rightarrow> int \<Rightarrow> 'w \<Rightarrow> int \<times> log_line list \<times> 'w" where
  "server_bound env resp deadline_ms w =
     (case data_field resp ''expires_at'' 64 of
        (False, _) \<Rightarrow> (deadline_ms, [], w)
      | (True, expires_at) \<Rightarrow>
          let shown = AStr (ssoossh_log_escape_str expires_at 256) in
          (case ssoossh_parse_rfc3339 expires_at of
             None \<Rightarrow> (deadline_ms, [ssoossh_warnf ''could not parse expires_at %s; using timeout alone'' [shown]], w)
           | Some expires_unix \<Rightarrow>
               let (now, w) = ae_time env w;
                   remaining = (expires_unix - now) * 1000;
                   (now_ms, w) = ssoossh_monotonic_ms (ae_net env) w;
                   server_deadline = now_ms + remaining in
               if server_deadline < deadline_ms then
                 (server_deadline,
                  [ssoossh_debugf ''bounding the wait by the server's expires_at (%s), %lld ms earlier than timeout''
                     [shown, ANum (deadline_ms - server_deadline)]], w)
               else (deadline_ms, [], w)))"

text \<open>The prompt of the flow, or the code the attempt is over with.\<close>

definition auth_prompt ::
    "('k, 'w) auth_env \<Rightarrow> ssoossh_config \<Rightarrow> ssoossh_request_context \<Rightarrow> bool \<Rightarrow> bytes \<Rightarrow> 'w \<Rightarrow>
       (pam_code \<times> log_line list \<times> 'w) + (log_line list \<times> 'w)" where
  "auth_prompt env cfg ctx console resp w =
     (if console then
        let user_code = snd (data_field resp ''user_code'' 64);
            verification_url = snd (data_field resp ''verification_url'' 1024) in
        if user_code = [] \<or> verification_url = [] then
          Inl (PAM_AUTHINFO_UNAVAIL, [ssoossh_errf ''the console create response carried no code'' []], w)
        else
          Inr (show_console_prompt env ctx (cfg_server cfg) user_code verification_url
                 (snd (data_field resp ''verification_url_complete'' 1024)) w)
      else
        let approval_url = snd (data_field resp ''approval_url'' 1024) in
        if approval_url = [] then
          Inl (PAM_AUTHINFO_UNAVAIL, [ssoossh_errf ''the create response carried no approval URL'' []], w)
        else
          (case join_url 1024 (cfg_server cfg) approval_url of
             None \<Rightarrow>
               Inl (PAM_AUTHINFO_UNAVAIL, [ssoossh_errf ''the approval URL the server returned is not a usable path'' []], w)
           | Some approval_url \<Rightarrow> Inr (show_browser_prompt env ctx approval_url w)))"

text \<open>The create call and its answer: the events URL and the deadline.\<close>

definition create_url :: "ssoossh_config \<Rightarrow> bool \<Rightarrow> bytes" where
  "create_url cfg console =
     take 1023 (cfg_server cfg @ bs ''/api/certs/'' @ (if console then bs ''console'' else bs ''pam''))"

definition auth_create ::
    "('k, 'w) auth_env \<Rightarrow> ssoossh_config \<Rightarrow> ssoossh_request_context \<Rightarrow> bool \<Rightarrow> bytes \<Rightarrow> int \<Rightarrow> 'w \<Rightarrow>
       (pam_code \<times> log_line list \<times> 'w) + (bytes \<times> int \<times> log_line list \<times> 'w)" where
  "auth_create env cfg ctx console body deadline_ms w =
     (case ssoossh_httpc_post_json (ae_net env) (ae_version env) (create_url cfg console) body
             (cfg_insecure_skip_verify cfg) deadline_ms SSOOSSH_MAX_RESPONSE w of
        (r, resp, status, logs, w) \<Rightarrow>
          if r \<noteq> HTTP_OK then
            (case http_to_pam r status (snd (error_field resp 512)) (bs ''certificate request'') of
               (rc, l) \<Rightarrow> Inl (rc, logs @ l, w))
          else
            (case data_field resp ''events_url'' 1024 of
               (ok, events_url) \<Rightarrow>
                 if \<not> ok \<or> events_url = [] then
                   Inl (PAM_AUTHINFO_UNAVAIL, logs @ [ssoossh_errf ''the create response carried no events URL'' []], w)
                 else
                   (case server_bound env resp deadline_ms w of
                      (deadline_ms, l, w) \<Rightarrow>
                        (case auth_prompt env cfg ctx console resp w of
                           Inl (rc, l', w) \<Rightarrow> Inl (rc, logs @ l @ l', w)
                         | Inr (l', w) \<Rightarrow>
                             (case join_url 1024 (cfg_server cfg) events_url of
                                None \<Rightarrow>
                                  Inl (PAM_AUTHINFO_UNAVAIL,
                                    logs @ l @ l' @ [ssoossh_errf ''the events URL the server returned is not a usable path'' []], w)
                              | Some events_url \<Rightarrow> Inr (events_url, deadline_ms, logs @ l @ l', w))))))"

text \<open>The outcome of the wait: the line of an issued certificate, or the code for none.\<close>

definition auth_outcome :: "wait_ctx \<Rightarrow> (pam_code \<times> log_line list) + bytes" where
  "auth_outcome wait =
     (let (failed, server_error) = error_field (wc_response wait) 512 in
      if failed \<and> server_error \<noteq> [] then
        Inl (PAM_AUTHINFO_UNAVAIL, [ssoossh_errf ''certificate request %s: %s''
          [AStr (wc_status wait), AStr (ssoossh_log_escape_str server_error 1024)]])
      else if wc_status wait \<noteq> bs ''approved'' then
        (case terminal_failure (wc_status wait) of
           Some failure \<Rightarrow> Inl (PAM_AUTH_ERR, [ssoossh_errf ''%s'' [AStr failure]])
         | None \<Rightarrow> Inl (PAM_AUTH_ERR, [ssoossh_errf ''the server reported an unrecognized outcome \"%s\"''
             [AStr (wc_status wait)]]))
      else
        (case data_field (wc_response wait) ''certificate'' SSOOSSH_MAX_CERT_LINE of
           (ok, cert_line) \<Rightarrow>
             if \<not> ok \<or> cert_line = [] then
               Inl (PAM_AUTH_ERR, [ssoossh_errf ''the request was approved but no certificate was delivered'' []])
             else Inr cert_line))"

definition wait_init :: wait_ctx where
  "wait_init = \<lparr>wc_response = [], wc_status = [], wc_have = False, wc_logs = []\<rparr>"

definition wait_note :: "log_line list \<Rightarrow> wait_ctx \<Rightarrow> wait_ctx" where
  "wait_note ls w = w\<lparr>wc_logs := wc_logs w @ ls\<rparr>"

definition auth_wait ::
    "('k, 'w) auth_env \<Rightarrow> ssoossh_config \<Rightarrow> bytes \<Rightarrow> int \<Rightarrow> 'w \<Rightarrow>
       ((pam_code \<times> log_line list \<times> 'w) + (bytes \<times> log_line list \<times> 'w)) option" where
  "auth_wait env cfg events_url deadline_ms w =
     (case ssoossh_httpc_events (ae_net env) (ae_sse_calloc_ok env) (ae_version env) events_url
             (cfg_insecure_skip_verify cfg) deadline_ms on_event wait_note wait_init 512 w of
        None \<Rightarrow> None
      | Some (r, wait, status, server_error, w) \<Rightarrow>
          let logs = wc_logs wait in
          if r \<noteq> HTTP_OK \<or> \<not> wc_have wait then
            (case http_to_pam (if r = HTTP_OK then HTTP_TRANSPORT else r) status (c_str server_error) (bs ''events stream'') of
               (rc, l) \<Rightarrow> Some (Inl (rc, logs @ l, w)))
          else
            (case auth_outcome wait of
               Inl (rc, l) \<Rightarrow> Some (Inl (rc, logs @ l, w))
             | Inr cert_line \<Rightarrow> Some (Inr (cert_line, logs, w))))"

text \<open>The four checks, in order, the first that fails ending the attempt.\<close>

definition cert_line_debug :: "('k, 'w) auth_env \<Rightarrow> bytes \<Rightarrow> ssoossh_cert \<Rightarrow> log_line" where
  "cert_line_debug env who cert =
     ssoossh_debugf ''issued certificate for %s: serial %llu, %zu principal(s), key %s, signature key %s (%s)''
       [AStr who, ANum (uint (cert_serial cert)), ANum (int (length (cert_principals cert))),
        AStr (ssoossh_sshkey_fingerprint (ae_ossl env) (cert_key_blob cert)),
        AStr (ssoossh_sshkey_fingerprint (ae_ossl env) (cert_signature_key cert)),
        AStr (ssoossh_log_escape_str (cert_signature_algo cert) 256)]"

definition success_line :: "('k, 'w) auth_env \<Rightarrow> bytes \<Rightarrow> ssoossh_cert \<Rightarrow> ca_key \<Rightarrow> log_line" where
  "success_line env who cert signer =
     (let (whole, id) = ssoossh_log_escape (cert_key_id cert) 256 in
      ssoossh_infof ''successful authentication: %s, certificate ID \"%s\"%s (serial %llu) CA %s %s''
        [AStr who, AStr id, AStr (if whole then [] else bs ''...''), ANum (uint (cert_serial cert)),
         AStr (ca_algo signer), AStr (ssoossh_sshkey_fingerprint (ae_ossl env) (ca_blob signer))])"

definition auth_checks ::
    "('k, 'w) auth_env \<Rightarrow> bytes \<Rightarrow> bytes \<Rightarrow> ssoossh_config \<Rightarrow> ca_list \<Rightarrow> bytes \<Rightarrow> ssoossh_cert \<Rightarrow> 'w \<Rightarrow>
       pam_code \<times> log_line list \<times> 'w" where
  "auth_checks env user who cfg cas key_blob cert w =
     (case ssoossh_check_ca_signature (ae_ossl env) cert cas of
        (None, l1) \<Rightarrow> (PAM_AUTH_ERR, l1, w)
      | (Some signer, l1) \<Rightarrow>
          (case ssoossh_check_key_binding (ae_ossl env) cert key_blob of
             (ok2, l2) \<Rightarrow>
               if \<not> ok2 then (PAM_AUTH_ERR, l1 @ l2, w)
               else
                 (case ssoossh_check_principal (ae_malloc_ok env) (ae_read_file env) cert user (cfg_principals_map cfg) of
                    (ok3, l3) \<Rightarrow>
                      if \<not> ok3 then (PAM_AUTH_ERR, l1 @ l2 @ l3, w)
                      else
                        (case ae_time env w of
                           (now, w) \<Rightarrow>
                             (case ssoossh_check_validity cert now (cfg_skew_tolerance cfg) of
                                (ok4, l4) \<Rightarrow>
                                  if \<not> ok4 then (PAM_AUTH_ERR, l1 @ l2 @ l3 @ l4, w)
                                  else (PAM_SUCCESS, l1 @ l2 @ l3 @ l4 @ [success_line env who cert signer], w))))))"

definition auth_certificate ::
    "('k, 'w) auth_env \<Rightarrow> bytes \<Rightarrow> bytes \<Rightarrow> ssoossh_config \<Rightarrow> ca_list \<Rightarrow> bytes \<Rightarrow> bytes \<Rightarrow> 'w \<Rightarrow>
       pam_code \<times> log_line list \<times> 'w" where
  "auth_certificate env user who cfg cas key_blob cert_line w =
     (case ssoossh_cert_parse_line cert_line SSOOSSH_MAX_CERT of
        Inl CERT_NOT_USER \<Rightarrow>
          (PAM_AUTH_ERR,
           [ssoossh_errf ''the issued certificate is not a user certificate, so it does not authenticate anyone'' []], w)
      | Inl _ \<Rightarrow> (PAM_AUTH_ERR, [ssoossh_errf ''the issued certificate could not be parsed'' []], w)
      | Inr cert \<Rightarrow>
          (case auth_checks env user who cfg cas key_blob cert w of
             (rc, l, w) \<Rightarrow> (rc, cert_line_debug env who cert # l, w)))"

text \<open>
  Interrupts, on what the process has of SIGINT in the world: arming gives what disarming puts back.
  The record starts as what the stack holds; arming clears both its flags.
\<close>

definition auth_arm :: "('k, 'w) auth_env \<Rightarrow> nat ssoossh_cancel \<Rightarrow> 'w \<Rightarrow> nat ssoossh_cancel \<times> 'w" where
  "auth_arm env c w =
     (case ssoossh_cancel_arm (ae_sigaction_ok env) (ae_sigmask_ok env) (net_sigint (ae_net env) w, c) of
        (s, c) \<Rightarrow> (c, net_set_sigint (ae_net env) s w))"

definition auth_disarm ::
    "('k, 'w) auth_env \<Rightarrow> nat ssoossh_cancel \<Rightarrow> pam_code \<times> log_line list \<times> 'w \<Rightarrow> pam_code \<times> log_line list \<times> 'w" where
  "auth_disarm env c = (\<lambda>(rc, logs, w).
     let w = net_set_sigint (ae_net env) (fst (ssoossh_cancel_disarm (net_sigint (ae_net env) w, c))) w in
     if rc \<noteq> PAM_SUCCESS then
       let (fired, w) = net_fired (ae_net env) w in
       if fired then (PAM_IGNORE, logs @ [ssoossh_noticef ''authentication was interrupted by the user'' []], w)
       else (rc, logs, w)
     else (rc, logs, w))"

text \<open>The one way out: \<open>done\<close>, with the handler armed or not and a key pair or none.\<close>

definition auth_done ::
    "('k, 'w) auth_env \<Rightarrow> nat ssoossh_cancel option \<Rightarrow> 'k option \<Rightarrow> pam_code \<times> log_line list \<times> 'w \<Rightarrow>
       pam_code \<times> log_line list \<times> 'w" where
  "auth_done env armed kp out =
     (case (case armed of None \<Rightarrow> out | Some c \<Rightarrow> auth_disarm env c out) of
        (rc, logs, w) \<Rightarrow> (rc, logs, ssoossh_crypto_keypair_free (ae_keys env) kp w))"

definition auth_exchange ::
    "('k, 'w) auth_env \<Rightarrow> bytes \<Rightarrow> bytes \<Rightarrow> ssoossh_config \<Rightarrow> ca_list \<Rightarrow> ssoossh_request_context \<Rightarrow> bool \<Rightarrow> bytes \<Rightarrow>
       bytes \<Rightarrow> int \<Rightarrow> 'w \<Rightarrow> (pam_code \<times> log_line list \<times> 'w) option" where
  "auth_exchange env user who cfg cas ctx console key_blob body deadline_ms w =
     (case auth_create env cfg ctx console body deadline_ms w of
        Inl out \<Rightarrow> Some out
      | Inr (events_url, deadline_ms, l1, w) \<Rightarrow>
          (case auth_wait env cfg events_url deadline_ms w of
             None \<Rightarrow> None
           | Some (Inl (rc, l2, w)) \<Rightarrow> Some (rc, l1 @ l2, w)
           | Some (Inr (cert_line, l2, w)) \<Rightarrow>
               (case auth_certificate env user who cfg cas key_blob cert_line w of
                  (rc, l3, w) \<Rightarrow> Some (rc, l1 @ l2 @ l3, w))))"

definition ssoossh_authenticate ::
    "('k, 'w) auth_env \<Rightarrow> bytes \<Rightarrow> ssoossh_config \<Rightarrow> 'w \<Rightarrow> (pam_code \<times> log_line list \<times> 'w) option" where
  "ssoossh_authenticate env user cfg w =
     (if cfg_server cfg = [] then
        Some (PAM_USER_UNKNOWN, [ssoossh_errf ''not configured correctly in pam.d: server is required'' []], w)
      else if cfg_trusted_ca_file cfg = [] then
        Some (PAM_NO_MODULE_DATA,
          [ssoossh_errf ''not configured correctly in pam.d: trusted-ca-file is required'' []], w)
      else if \<not> ae_calloc_ok env then Some (PAM_ABORT, [ssoossh_errf ''out of memory'' []], w)
      else
        let who = ssoossh_log_escape_str user 256; l0 = args_line cfg in
        (case auth_load env cfg of
           Inl (rc, l) \<Rightarrow> Some (auth_done env None None (rc, l0 @ l, w))
         | Inr (cas, l1) \<Rightarrow>
             (case auth_prepare env user who cfg cas w of
                (kp, Inl (rc, l, w)) \<Rightarrow> Some (auth_done env None kp (rc, l0 @ l1 @ l, w))
              | (kp, Inr (ctx, console, key_blob, body, l2, w)) \<Rightarrow>
                  (case ssoossh_monotonic_ms (ae_net env) w of
                     (start_ms, w) \<Rightarrow>
                       (case auth_arm env (ae_cancel env) w of
                          (cancel, w) \<Rightarrow>
                            (case auth_exchange env user who cfg cas ctx console key_blob body
                                    (start_ms + timeout_ms (cfg_timeout cfg)) w of
                               None \<Rightarrow> None
                             | Some (rc, l, w) \<Rightarrow> Some (auth_done env (Some cancel) kp (rc, l0 @ l1 @ l2 @ l, w))))))))"

section \<open>Success\<close>

text \<open>
  What a certificate must be for the account, as the operator configured it: signed, by a usable key of
  the trusted CA file, over exactly its signed part; for the key given; for the account or a principal
  the map gives it; and valid at the time given.
\<close>

definition entitled :: "('k, 'w) auth_env \<Rightarrow> ssoossh_config \<Rightarrow> bytes \<Rightarrow> bytes \<Rightarrow> int \<Rightarrow> ssoossh_cert \<Rightarrow> bool" where
  "entitled env cfg user key now cert \<longleftrightarrow>
     (\<exists>content ca. ae_read_file env (cfg_trusted_ca_file cfg) = FileData content \<and>
        ca \<in> set (usable_keys (ae_ossl env) (map ca_entry (split_lines content))) \<and>
        fst (ssoossh_crypto_verify (ae_ossl env) (cert_signature_algo cert) (ca_blob ca)
               (take (cert_signed_len cert) (cert_blob cert)) (cert_signature cert)) = VERIFY_OK) \<and>
     cert_key_blob cert = key \<and> key \<noteq> [] \<and>
     (user \<in> set (cert_principals cert) \<or>
      cfg_principals_map cfg \<noteq> [] \<and>
      map_grants (ae_read_file env (cfg_principals_map cfg)) user (cert_principals cert)) \<and>
     fst (ssoossh_check_validity cert now (cfg_skew_tolerance cfg))"

lemma auth_load_trusted:
  assumes "auth_load env cfg = Inr (cas, l)" and "k \<in> set (ca_keys cas)"
  shows "\<exists>content. ae_read_file env (cfg_trusted_ca_file cfg) = FileData content \<and>
    k \<in> set (usable_keys (ae_ossl env) (map ca_entry (split_lines content)))"
proof -
  let ?path = "cfg_trusted_ca_file cfg"
  obtain logs where load: "ssoossh_ca_load (ae_ossl env) ?path (ae_read_file env ?path) = (CA_OK, cas, logs)"
    using assms(1) by (auto simp: auth_load_def Let_def split: prod.splits ssoossh_ca_status.splits)
  have *: "case (CA_OK, cas, logs) of (status, out, logs) \<Rightarrow>
     (case ae_read_file env ?path of
        FileData content \<Rightarrow>
          (let entries = map ca_entry (split_lines content) in
           if MAX_CA_FILE \<le> length content then status = CA_MALFORMED \<and> ca_keys out = []
           else if bad_line_reached (ae_ossl env) 0 entries then status = CA_MALFORMED
           else ca_keys out = take SSOOSSH_MAX_CAS (usable_keys (ae_ossl env) entries) \<and>
             status = (if usable_keys (ae_ossl env) entries = [] then CA_NONE_USABLE else CA_OK))
      | _ \<Rightarrow> status = CA_UNREADABLE \<and> ca_keys out = [])"
    using ca_load_described [where ossl = "ae_ossl env" and path = ?path and source = "ae_read_file env ?path"]
    unfolding load .
  show ?thesis
    using * assms(2) by (auto simp: Let_def split: file_read.splits if_splits dest: in_set_takeD)
qed

lemma auth_checks_success:
  assumes "auth_load env cfg = Inr (cas, l)"
    and "auth_checks env user who cfg cas key cert w = (PAM_SUCCESS, logs, w')"
  shows "\<exists>now u. ae_time env w = (now, u) \<and> entitled env cfg user key now cert"
proof -
  let ?ossl = "ae_ossl env"
  obtain signer where s: "fst (ssoossh_check_ca_signature ?ossl cert cas) = Some signer"
    using assms(2) by (auto simp: auth_checks_def split: prod.splits option.splits)
  then have ca: "signer \<in> set (ca_keys cas)" "fst (ssoossh_cert_verify ?ossl cert (ca_blob signer)) = VERIFY_OK"
    unfolding check_ca_signature_find by (auto simp: find_Some_iff)
  have key: "fst (ssoossh_check_key_binding ?ossl cert key)"
    and pr: "fst (ssoossh_check_principal (ae_malloc_ok env) (ae_read_file env) cert user (cfg_principals_map cfg))"
    and v: "fst (ssoossh_check_validity cert (fst (ae_time env w)) (cfg_skew_tolerance cfg))"
    using assms(2) by (auto simp: auth_checks_def split: prod.splits option.splits if_splits)
  obtain content where "ae_read_file env (cfg_trusted_ca_file cfg) = FileData content"
      "signer \<in> set (usable_keys ?ossl (map ca_entry (split_lines content)))"
    using auth_load_trusted [OF assms(1) ca(1)] by blast
  then have "entitled env cfg user key (fst (ae_time env w)) cert"
    using ca(2) key pr v unfolding entitled_def check_key_binding_iff check_principal_spec ssoossh_cert_verify_def
    by blast
  then show ?thesis by (metis prod.collapse)
qed

lemma auth_certificate_success:
  assumes "auth_load env cfg = Inr (cas, l)"
    and "auth_certificate env user who cfg cas key line w = (PAM_SUCCESS, logs, w')"
  shows "\<exists>cert now u. ssoossh_cert_parse_line line SSOOSSH_MAX_CERT = Inr cert \<and> ae_time env w = (now, u) \<and>
    entitled env cfg user key now cert"
  using assms(2) auth_checks_success [OF assms(1)]
  by (auto simp: auth_certificate_def split: sum.splits ssoossh_cert_status.splits prod.splits)

lemma http_to_pam_success: "http_to_pam r status e what = (PAM_SUCCESS, l) \<Longrightarrow> r = HTTP_OK"
  by (simp add: http_to_pam_def Let_def split: ssoossh_http_result.splits)

lemma auth_prompt_fails: "auth_prompt env cfg ctx console resp w = Inl (rc, l, w') \<Longrightarrow> rc = PAM_AUTHINFO_UNAVAIL"
  by (auto simp: auth_prompt_def Let_def split: if_splits option.splits)

lemma auth_create_fails:
  assumes "auth_create env cfg ctx console body deadline w = Inl (rc, l, w')"
  shows "rc \<noteq> PAM_SUCCESS"
  using assms unfolding auth_create_def
  by (auto split: prod.splits if_splits sum.splits option.splits dest: http_to_pam_success auth_prompt_fails)

lemma auth_wait_fails:
  assumes "auth_wait env cfg url deadline w = Some (Inl (rc, l, w'))"
  shows "rc \<noteq> PAM_SUCCESS"
proof -
  have "rc \<noteq> PAM_SUCCESS" if "auth_outcome wait = Inl (rc, l)" for wait rc l
    using that by (auto simp: auth_outcome_def Let_def split: prod.splits if_splits option.splits)
  then show ?thesis using assms unfolding auth_wait_def Let_def
    by (auto split: prod.splits if_splits sum.splits option.splits dest: http_to_pam_success)
qed

lemma auth_exchange_success:
  assumes "auth_load env cfg = Inr (cas, l)"
    and "auth_exchange env user who cfg cas ctx console key body deadline w = Some (PAM_SUCCESS, logs, w')"
  obtains url dl l1 w1 line l2 w2 cert now u where
    "auth_create env cfg ctx console body deadline w = Inr (url, dl, l1, w1)"
    "auth_wait env cfg url dl w1 = Some (Inr (line, l2, w2))"
    "ssoossh_cert_parse_line line SSOOSSH_MAX_CERT = Inr cert" "ae_time env w2 = (now, u)"
    "entitled env cfg user key now cert"
proof (cases "auth_create env cfg ctx console body deadline w")
  case (Inl out)
  then show thesis using assms(2) by (cases out) (auto simp: auth_exchange_def dest: auth_create_fails)
next
  case (Inr x)
  then obtain url dl l1 w1 where c: "auth_create env cfg ctx console body deadline w = Inr (url, dl, l1, w1)"
    by (metis surj_pair)
  have "\<exists>line l2 w2. auth_wait env cfg url dl w1 = Some (Inr (line, l2, w2))"
    using assms(2) unfolding auth_exchange_def c
    by (auto split: option.splits sum.splits prod.splits dest: auth_wait_fails)
  then obtain line l2 w2 where w: "auth_wait env cfg url dl w1 = Some (Inr (line, l2, w2))" by blast
  obtain l3 where "auth_certificate env user who cfg cas key line w2 = (PAM_SUCCESS, l3, w')"
    using assms(2) unfolding auth_exchange_def c by (auto simp: w split: prod.splits)
  from auth_certificate_success [OF assms(1) this] show thesis using that [OF c w] by blast
qed

lemma auth_prepare_key:
  assumes "auth_prepare env user who cfg cas w = (kp, Inr (ctx, console, key, body, l, w'))"
  shows "\<exists>pair point. kp = Some pair \<and> ssoossh_crypto_keygen (ae_keys env) w = (Some pair, w') \<and>
    ssoossh_crypto_public_point (ae_keys env) pair 256 = Some point \<and>
    ssoossh_sshkey_blob_p384 point SSOOSSH_MAX_KEY_BLOB = Some key"
  using assms unfolding auth_prepare_def attempt_key_def
  by (auto simp: Let_def split: if_splits prod.splits option.splits)

lemma auth_disarm_success:
  "auth_disarm env c (rc, l, w) = (PAM_SUCCESS, l', w') \<Longrightarrow> rc = PAM_SUCCESS"
  by (auto simp: auth_disarm_def Let_def split: if_splits prod.splits)

lemma auth_done_success:
  "auth_done env armed kp (rc, l, w) = (PAM_SUCCESS, l', w') \<Longrightarrow> rc = PAM_SUCCESS"
  by (auto simp: auth_done_def dest!: auth_disarm_success split: option.splits prod.splits)

lemma auth_done_idle [simp]: "auth_done env None None out = out"
  by (cases out) (simp add: auth_done_def ssoossh_crypto_keypair_free_def)

lemma authenticate_success_stages:
  assumes "ssoossh_authenticate env user cfg w = Some (PAM_SUCCESS, logs, w')"
  obtains cas l1 kp ctx console key body l2 w1 t w2 c w3 dl l3 w4 where
    "auth_load env cfg = Inr (cas, l1)"
    "auth_prepare env user (ssoossh_log_escape_str user 256) cfg cas w = (kp, Inr (ctx, console, key, body, l2, w1))"
    "ssoossh_monotonic_ms (ae_net env) w1 = (t, w2)" "auth_arm env (ae_cancel env) w2 = (c, w3)"
    "auth_exchange env user (ssoossh_log_escape_str user 256) cfg cas ctx console key body dl w3 = Some (PAM_SUCCESS, l3, w4)"
proof -
  let ?who = "ssoossh_log_escape_str user 256"
  have load: "auth_load env cfg = Inl (PAM_SUCCESS, l) \<Longrightarrow> False" for l
    by (auto simp: auth_load_def Let_def split: prod.splits ssoossh_ca_status.splits)
  have prep: "auth_prepare env user ?who cfg cas w = (kp, Inl (PAM_SUCCESS, l, v)) \<Longrightarrow> False" for cas kp l v
    by (auto simp: auth_prepare_def Let_def split: if_splits prod.splits option.splits)
  show thesis using assms load prep that unfolding ssoossh_authenticate_def Let_def
    by (auto split: if_splits sum.splits prod.splits option.splits dest!: auth_done_success)
qed

section \<open>The attempt returns\<close>

lemma auth_wait_returns:
  "clock_runs (ae_net env) age q \<Longrightarrow> \<exists>r. auth_wait env cfg url deadline w = Some r"
  using events_returns [of "ae_net env" age q "ae_sse_calloc_ok env" "ae_version env" url "cfg_insecure_skip_verify cfg"
      deadline on_event wait_note wait_init 512 w]
  by (auto simp: auth_wait_def Let_def split: prod.splits sum.splits)

lemma authenticate_returns:
  assumes "clock_runs (ae_net env) age q"
  shows "\<exists>r. ssoossh_authenticate env user cfg w = Some r"
proof -
  have ne: "auth_exchange env user who cfg cas ctx console key body dl v \<noteq> None" for who cas ctx console key body dl v
  proof (cases "auth_create env cfg ctx console body dl v")
    case (Inr x)
    obtain url d l u where x: "x = (url, d, l, u)" by (metis surj_pair)
    obtain r where "auth_wait env cfg url d u = Some r" using auth_wait_returns [OF assms] by blast
    then show ?thesis by (auto simp: auth_exchange_def Inr x split: sum.splits prod.splits)
  next
    case (Inl out)
    then show ?thesis by (cases out) (simp add: auth_exchange_def)
  qed
  have ex: "\<exists>a b c. auth_done env armed kp out = (a, b, c)" for armed kp out by (metis surj_pair)
  have "ssoossh_authenticate env user cfg w \<noteq> None"
    unfolding ssoossh_authenticate_def Let_def
    by (simp add: ne ex split: sum.split prod.split option.split)
  then show ?thesis by blast
qed

section \<open>Early answers\<close>

text \<open>
  C19: a configuration that cannot work costs nothing.  With no server, no CA file or no usable key in
  it the attempt is over at once with the code for that mistake, and a login that is not over SSH
  stands aside with \<open>ssh-only\<close>: no key is generated, nothing is sent or shown, the world is as it was.
\<close>

theorem refused_before_network:
  assumes "ae_calloc_ok env"
    and "cfg_server cfg = [] \<or> cfg_trusted_ca_file cfg = [] \<or> (\<exists>e. auth_load env cfg = Inl e) \<or>
      cfg_ssh_only cfg \<and> \<not> ssoossh_ssh_session (ae_getenv env) (ae_proc_stat env) (ae_pid env)"
  shows "\<exists>rc logs. ssoossh_authenticate env user cfg w = Some (rc, logs, w) \<and>
    rc = (if cfg_server cfg = [] then PAM_USER_UNKNOWN
          else if cfg_trusted_ca_file cfg = [] \<or> (\<exists>e. auth_load env cfg = Inl e) then PAM_NO_MODULE_DATA
          else PAM_IGNORE)"
proof -
  have "auth_load env cfg = Inl (rc, l) \<Longrightarrow> rc = PAM_NO_MODULE_DATA" for rc l
    by (auto simp: auth_load_def Let_def split: prod.splits ssoossh_ca_status.splits)
  then show ?thesis using assms unfolding ssoossh_authenticate_def Let_def
    by (cases "auth_load env cfg") (auto simp: auth_prepare_def split: prod.splits)
qed

section \<open>URLs\<close>

text \<open>Where a browser or libcurl takes the authority of an http URL to end.\<close>

definition url_authority :: "bytes \<Rightarrow> bytes" where
  "url_authority s =
     takeWhile (\<lambda>c. c \<noteq> 0x2f \<and> c \<noteq> 0x3f \<and> c \<noteq> 0x23 \<and> c \<noteq> 0x5c)
       (drop (if has_prefix_fold s (bs ''https://'') then 8 else 7) s)"

lemma has_prefix_fold_iff:
  "has_prefix_fold s p \<longleftrightarrow> length p \<le> length s \<and> map fold_byte (take (length p) s) = map fold_byte p"
  by (induction s p rule: has_prefix_fold.induct) auto

lemma has_prefix_fold_app:
  "length p \<le> length s \<Longrightarrow> has_prefix_fold (s @ t) p = has_prefix_fold s p"
  by (simp add: has_prefix_fold_iff)

lemma has_prefix_fold_Cons:
  "has_prefix_fold s (p # ps) \<longleftrightarrow> (\<exists>c s'. s = c # s' \<and> fold_byte c = fold_byte p \<and> has_prefix_fold s' ps)"
  by (cases s) auto

lemma http_not_https:
  assumes "has_prefix_fold s (bs ''http://'')"
  shows "\<not> has_prefix_fold (s @ t) (bs ''https://'')"
  using assms by (auto simp: bs_def has_prefix_fold_Cons) (auto simp: fold_byte_def)

lemma scheme_lengths:
  "has_prefix_fold s (bs ''http://'') \<Longrightarrow> 7 \<le> length s"
  "has_prefix_fold s (bs ''https://'') \<Longrightarrow> 8 \<le> length s"
  by (auto simp: bs_def has_prefix_fold_Cons)

lemma join_url_authority:
  assumes "has_scheme base" and "join_url cap base rel = Some u"
  shows "u = base @ rel \<and> url_authority u = url_authority base \<and> length u < cap"
proof -
  define n :: nat where "n = (if has_prefix_fold base (bs ''https://'') then 8 else 7)"
  have u: "u = base @ rel" "length u < cap" and rel: "rel \<noteq> []" "hd rel = 0x2f"
    using assms(2) by (auto simp: join_url_def hd_conv_nth split: if_splits)
  have https: "has_prefix_fold u (bs ''https://'') = has_prefix_fold base (bs ''https://'')"
  proof (cases "has_prefix_fold base (bs ''https://'')")
    case True
    then show ?thesis using has_prefix_fold_app scheme_lengths(2) [OF True] unfolding u(1) by (simp add: bs_def)
  next
    case False
    then show ?thesis using http_not_https assms(1) unfolding has_scheme_def u(1) by blast
  qed
  have "n \<le> length base"
    using assms(1) scheme_lengths [of base] by (auto simp: n_def has_scheme_def split: if_splits)
  then have "drop n u = drop n base @ rel" by (simp add: u(1))
  moreover have "takeWhile P (xs @ rel) = takeWhile P xs" if "\<not> P 0x2f" for P xs
    using rel that by (induction xs) (cases rel; auto)+
  ultimately show ?thesis using u unfolding url_authority_def https n_def by simp
qed

text \<open>
  C10: no URL the server returns leaves the server.  A path is joined to the configured server only
  behind it, whole and within the buffer, and the authority of the result, where the browser and
  libcurl will go, is the authority of the configured server: no user info, longer host name or
  second authority can be put in its place.
\<close>

theorem join_url_same_authority:
  assumes "has_scheme base" and "join_url cap base rel = Some u"
  shows "u = base @ rel \<and> url_authority u = url_authority base \<and> length u < cap"
  using assms by (rule join_url_authority)

theorem join_url_same_authority_witness:
  "join_url 1024 (bs ''https://sso.example.com'') (bs ''/c/x@evil'') = Some (bs ''https://sso.example.com/c/x@evil'') \<and>
   url_authority (bs ''https://sso.example.com/c/x@evil'') = url_authority (bs ''https://sso.example.com'')"
proof -
  have s: "has_scheme (bs ''https://sso.example.com'')" by (simp add: has_scheme_def fold_byte_def)
  have j: "join_url 1024 (bs ''https://sso.example.com'') (bs ''/c/x@evil'') = Some (bs ''https://sso.example.com/c/x@evil'')"
    by (simp add: join_url_def)
  from join_url_same_authority [OF s j] j show ?thesis by blast
qed

section \<open>The terminal\<close>

definition terminal_safe :: "byte \<Rightarrow> bool" where
  "terminal_safe b \<longleftrightarrow> b = 0x0a \<or> 0x20 \<le> b \<and> b \<noteq> 0x7f"

abbreviation safe_text :: "bytes \<Rightarrow> bool" where
  "safe_text s \<equiv> list_all terminal_safe s"

lemma safe_take: "safe_text s \<Longrightarrow> safe_text (take n s)"
  by (auto simp: list_all_iff dest: in_set_takeD)

lemma safe_sanitized: "safe_text (snd (ssoossh_sanitize cls s cap))"
  using sanitizer.run_alphabet class_byte_safe unfolding list_all_iff terminal_safe_def by blast

lemma browser_message_safe: "safe_text url \<Longrightarrow> safe_text (browser_message url)"
  unfolding browser_message_def by (rule safe_take) (simp add: terminal_safe_def)

lemma console_text_safe: "safe_text url \<Longrightarrow> safe_text code \<Longrightarrow> safe_text (console_text url code)"
  by (simp add: console_text_def terminal_safe_def)

lemma console_message_safe:
  assumes "safe_text url" and "safe_text code"
  shows "safe_text (console_message env server url code complete_url)"
proof -
  have m: "safe_text (take 8191 (console_text url code))"
    using console_text_safe [OF assms] by (rule safe_take)
  have nl: "terminal_safe 0x0a" by (simp add: terminal_safe_def)
  have q: "safe_text (take 8191 (take 8191 (console_text url code) @ 0x0a # snd (ssoossh_sanitize TEXT_QR qr cap)))" for qr cap
    by (rule safe_take) (simp add: m nl safe_sanitized)
  show ?thesis unfolding console_message_def Let_def by (simp only: m q simp_thms split: if_split)
qed

lemma shown_message_safe: "safe_text m \<Longrightarrow> safe_text (shown_message ctx m)"
  unfolding shown_message_def by (auto intro!: safe_take simp: enter_prompt_def terminal_safe_def)

text \<open>A change of the conversation is no change to the other stages.\<close>

lemma conv_update_fields:
  "ae_version (env\<lparr>ae_conv := c\<rparr>) = ae_version env"
  "ae_calloc_ok (env\<lparr>ae_conv := c\<rparr>) = ae_calloc_ok env"
  "ae_sse_calloc_ok (env\<lparr>ae_conv := c\<rparr>) = ae_sse_calloc_ok env"
  "ae_malloc_ok (env\<lparr>ae_conv := c\<rparr>) = ae_malloc_ok env"
  "ae_ossl (env\<lparr>ae_conv := c\<rparr>) = ae_ossl env"
  "ae_read_file (env\<lparr>ae_conv := c\<rparr>) = ae_read_file env"
  "ae_getenv (env\<lparr>ae_conv := c\<rparr>) = ae_getenv env"
  "ae_proc_stat (env\<lparr>ae_conv := c\<rparr>) = ae_proc_stat env"
  "ae_uid (env\<lparr>ae_conv := c\<rparr>) = ae_uid env"
  "ae_pid (env\<lparr>ae_conv := c\<rparr>) = ae_pid env"
  "ae_ppid (env\<lparr>ae_conv := c\<rparr>) = ae_ppid env"
  "ae_get_item (env\<lparr>ae_conv := c\<rparr>) = ae_get_item env"
  "ae_hostname (env\<lparr>ae_conv := c\<rparr>) = ae_hostname env"
  "ae_keys (env\<lparr>ae_conv := c\<rparr>) = ae_keys env"
  "ae_encodeText (env\<lparr>ae_conv := c\<rparr>) = ae_encodeText env"
  "ae_inet_ntop (env\<lparr>ae_conv := c\<rparr>) = ae_inet_ntop env"
  "ae_getifaddrs (env\<lparr>ae_conv := c\<rparr>) = ae_getifaddrs env"
  "ae_host (env\<lparr>ae_conv := c\<rparr>) = ae_host env"
  "ae_time (env\<lparr>ae_conv := c\<rparr>) = ae_time env"
  "ae_sigaction_ok (env\<lparr>ae_conv := c\<rparr>) = ae_sigaction_ok env"
  "ae_sigmask_ok (env\<lparr>ae_conv := c\<rparr>) = ae_sigmask_ok env"
  "ae_cancel (env\<lparr>ae_conv := c\<rparr>) = ae_cancel env"
  "ae_net (env\<lparr>ae_conv := c\<rparr>) = ae_net env"
  by simp_all

lemma conv_update_stages:
  "auth_load (env\<lparr>ae_conv := c\<rparr>) cfg = auth_load env cfg"
  "auth_prepare (env\<lparr>ae_conv := c\<rparr>) user who cfg cas w = auth_prepare env user who cfg cas w"
  "auth_wait (env\<lparr>ae_conv := c\<rparr>) cfg url deadline w = auth_wait env cfg url deadline w"
  "auth_certificate (env\<lparr>ae_conv := c\<rparr>) user who cfg cas key line w = auth_certificate env user who cfg cas key line w"
  "auth_arm (env\<lparr>ae_conv := c\<rparr>) = auth_arm env"
  "auth_done (env\<lparr>ae_conv := c\<rparr>) = auth_done env"
  "server_bound (env\<lparr>ae_conv := c\<rparr>) resp deadline w = server_bound env resp deadline w"
  "console_message (env\<lparr>ae_conv := c\<rparr>) server url code complete_url = console_message env server url code complete_url"
  unfolding auth_load_def auth_prepare_def attempt_key_def build_body_def write_request_def auth_wait_def auth_certificate_def
    auth_checks_def cert_line_debug_def success_line_def auth_arm_def auth_done_def auth_disarm_def server_bound_def console_message_def
    conv_update_fields
  by (simp_all add: fun_eq_iff auth_arm_def auth_done_def auth_disarm_def)

lemma show_message_same:
  assumes "\<forall>style text w. safe_text text \<longrightarrow> conv1 style text w = conv2 style text w" and "safe_text m"
  shows "show_message (env\<lparr>ae_conv := (PAM_SUCCESS, Some conv1)\<rparr>) ctx m w =
    show_message (env\<lparr>ae_conv := (PAM_SUCCESS, Some conv2)\<rparr>) ctx m w"
  using assms(1) shown_message_safe [OF assms(2)] by (simp add: show_message_def ssoossh_conv_def)

lemma auth_prompt_same:
  assumes "\<forall>style text w. safe_text text \<longrightarrow> conv1 style text w = conv2 style text w"
  shows "auth_prompt (env\<lparr>ae_conv := (PAM_SUCCESS, Some conv1)\<rparr>) cfg ctx console resp w =
    auth_prompt (env\<lparr>ae_conv := (PAM_SUCCESS, Some conv2)\<rparr>) cfg ctx console resp w"
proof -
  have browser: "show_browser_prompt (env\<lparr>ae_conv := (PAM_SUCCESS, Some conv1)\<rparr>) ctx url w =
      show_browser_prompt (env\<lparr>ae_conv := (PAM_SUCCESS, Some conv2)\<rparr>) ctx url w" for url
    unfolding show_browser_prompt_def Let_def case_prod_beta
      show_message_same [OF assms browser_message_safe [OF safe_sanitized]] ..
  have console: "show_console_prompt (env\<lparr>ae_conv := (PAM_SUCCESS, Some conv1)\<rparr>) ctx server code url complete_url w =
      show_console_prompt (env\<lparr>ae_conv := (PAM_SUCCESS, Some conv2)\<rparr>) ctx server code url complete_url w"
    for server code url complete_url
    unfolding show_console_prompt_def Let_def conv_update_stages
      show_message_same [OF assms console_message_safe [OF safe_sanitized safe_sanitized]] ..
  show ?thesis unfolding auth_prompt_def browser console by simp
qed

text \<open>
  C9: no control byte reaches the terminal.  Two applications whose conversations agree on texts made of
  newlines and bytes from the space up, without DEL, cannot tell the module apart, whatever the server
  sends as URL, code or QR payload: the module never hands the conversation any other text, so no
  escape sequence of the server's choosing is ever written.
\<close>

theorem terminal_gets_safe_text:
  assumes "\<forall>style text w. safe_text text \<longrightarrow> conv1 style text w = conv2 style text w"
  shows "ssoossh_authenticate (env\<lparr>ae_conv := (PAM_SUCCESS, Some conv1)\<rparr>) user cfg w =
    ssoossh_authenticate (env\<lparr>ae_conv := (PAM_SUCCESS, Some conv2)\<rparr>) user cfg w"
proof -
  have "auth_create (env\<lparr>ae_conv := (PAM_SUCCESS, Some conv1)\<rparr>) cfg ctx console body dl v =
      auth_create (env\<lparr>ae_conv := (PAM_SUCCESS, Some conv2)\<rparr>) cfg ctx console body dl v" for ctx console body dl v
    unfolding auth_create_def auth_prompt_same [OF assms] conv_update_stages conv_update_fields by simp
  then have same: "auth_exchange (env\<lparr>ae_conv := (PAM_SUCCESS, Some conv1)\<rparr>) user who cfg cas ctx console key body dl v =
      auth_exchange (env\<lparr>ae_conv := (PAM_SUCCESS, Some conv2)\<rparr>) user who cfg cas ctx console key body dl v"
    for who cas ctx console key body dl v
    unfolding auth_exchange_def conv_update_stages by simp
  show ?thesis unfolding ssoossh_authenticate_def conv_update_stages conv_update_fields same by simp
qed

end
