(* ===== verification/Pam_Ssoossh.thy ===== *)
theory Pam_Ssoossh
  imports Auth
begin

text \<open>
  src/pam_ssoossh.c: the two functions libpam calls.  The arguments are null (\<open>None\<close>) or the vector;
  \<open>get_user\<close> is what \<open>pam_get_user\<close> gives, which may itself hold a conversation; the version of the
  server this build was made for and what libcurl says of itself are parameters of the version line.
  The result has the lines that reach syslog: the debug flag is the one of the arguments.
\<close>

definition pam_sm_authenticate ::
    "('k, 'w) auth_env \<Rightarrow> bytes \<Rightarrow> (bytes option \<times> bytes option) option \<Rightarrow> ('w \<Rightarrow> (pam_code \<times> bytes option) \<times> 'w) \<Rightarrow>
       nat \<Rightarrow> bytes option list option \<Rightarrow> 'w \<Rightarrow> (pam_code \<times> log_line list \<times> 'w) option" where
  "pam_sm_authenticate env built_for curl_info get_user argc argv w =
     (let l0 = ssoossh_log_version (ae_version env) built_for (ssoossh_crypto_version (ae_ossl env))
                 (ssoossh_crypto_fips_state (ae_ossl env)) (ssoossh_httpc_version curl_info) in
      if argv = None \<and> argc > 0 then
        Some (PAM_NO_MODULE_DATA, l0 @ [ssoossh_errf ''module arguments could not be read'' []], w)
      else
        (case ssoossh_args_parse ssoossh_console_flow_supported (take argc (case argv of None \<Rightarrow> [] | Some args \<Rightarrow> args)) of
           (status, cfg, bad_arg, l1) \<Rightarrow>
             (case status of
                ARGS_CONSOLE_UNSUPPORTED \<Rightarrow>
                  Some (PAM_NO_MODULE_DATA, l0 @ l1 @ [ssoossh_errf ''mode=console is not available in this build'' []], w)
              | ARGS_BAD_MODE \<Rightarrow>
                  Some (PAM_NO_MODULE_DATA,
                    l0 @ l1 @ [ssoossh_errf ''unrecognized mode in module argument %s''
                      [AStr (case bad_arg of None \<Rightarrow> [] | Some arg \<Rightarrow> arg)]], w)
              | ARGS_VALUE_TOO_LONG \<Rightarrow>
                  Some (PAM_NO_MODULE_DATA, l0 @ l1 @ [ssoossh_errf ''module argument value is too long to use'' []], w)
              | ARGS_OK \<Rightarrow>
                  (case get_user w of
                     ((rc, user), w) \<Rightarrow>
                       if rc \<noteq> PAM_SUCCESS \<or> user = None \<or> c_str (the user) = [] then
                         Some (PAM_USER_UNKNOWN,
                           l0 @ l1 @ [ssoossh_errf ''username could not be retrieved from the PAM handle'' []], w)
                       else
                         map_option (\<lambda>(rc, l, w). (rc, l0 @ l1 @ logged (cfg_debug cfg) l, w))
                           (ssoossh_authenticate env (c_str (the user)) cfg w)))))"

definition pam_sm_setcred :: pam_code where
  "pam_sm_setcred = PAM_SUCCESS"

section \<open>What a success rests on\<close>

lemma pam_success_attempt:
  assumes "pam_sm_authenticate env built_for curl_info get_user argc argv w = Some (PAM_SUCCESS, logs, w')"
  obtains args cfg user v l where
    "argv = Some args \<or> args = []" "acceptable ssoossh_console_flow_supported (take argc args)"
    "cfg = described_config ssoossh_console_flow_supported default_config (take argc args)"
    "get_user w = ((PAM_SUCCESS, Some user), v)" "c_str user \<noteq> []"
    "ssoossh_authenticate env (c_str user) cfg v = Some (PAM_SUCCESS, l, w')"
proof -
  define args where "args = (case argv of None \<Rightarrow> [] | Some args \<Rightarrow> args)"
  obtain status cfg bad l1 where parse: "ssoossh_args_parse ssoossh_console_flow_supported (take argc args) = (status, cfg, bad, l1)"
    by (metis prod_cases4)
  have st: "status = ARGS_OK"
    using assms unfolding pam_sm_authenticate_def Let_def args_def [symmetric] parse
    by (cases status) (auto split: if_splits)
  obtain rc user v where u: "get_user w = ((rc, user), v)" by (metis surj_pair)
  have ok: "rc = PAM_SUCCESS" "user \<noteq> None" "c_str (the user) \<noteq> []"
    and "\<exists>l. ssoossh_authenticate env (c_str (the user)) cfg v = Some (PAM_SUCCESS, l, w')"
    using assms unfolding pam_sm_authenticate_def Let_def args_def [symmetric] parse st
    by (auto simp: u split: if_splits)
  then obtain l where run: "ssoossh_authenticate env (c_str (the user)) cfg v = Some (PAM_SUCCESS, l, w')" by blast
  have "argv = Some args \<or> args = []" by (auto simp: args_def split: option.split)
  moreover have "acceptable ssoossh_console_flow_supported (take argc args)"
    "cfg = described_config ssoossh_console_flow_supported default_config (take argc args)"
    using args_loop_described [of ssoossh_console_flow_supported "take argc args" default_config "[]" status cfg bad l1] parse st
    by (simp_all add: ssoossh_args_parse_def)
  moreover have "get_user w = ((PAM_SUCCESS, Some (the user)), v)" using u ok by simp
  ultimately show thesis by (rule that [OF _ _ _ _ ok(3) run])
qed

lemma pam_returns:
  assumes "clock_runs (ae_net env) age q"
  shows "\<exists>r. pam_sm_authenticate env built_for curl_info get_user argc argv w = Some r"
proof -
  define args where "args = (case argv of None \<Rightarrow> [] | Some args \<Rightarrow> args)"
  obtain status cfg bad l1 where parse:
      "ssoossh_args_parse ssoossh_console_flow_supported (take argc args) = (status, cfg, bad, l1)"
    by (metis prod_cases4)
  obtain rc user v where u: "get_user w = ((rc, user), v)" by (metis surj_pair)
  obtain r where "ssoossh_authenticate env (c_str (the user)) cfg v = Some r"
    using authenticate_returns [OF assms] by blast
  then show ?thesis
    unfolding pam_sm_authenticate_def Let_def args_def [symmetric] parse u prod.case
    by (cases status) (simp_all split: prod.split)
qed

end
