(* ===== verification/Request.thy ===== *)
theory Request
  imports Auth Json_Doc
begin

text \<open>
  The request of src/auth.c as a document: what \<open>build_body\<close> writes piece by piece into its 8192 bytes is
  the JSON document that states the facts of the attempt, and the module's own reader gets them back.
\<close>

section \<open>Numbers\<close>

lemma dec_bytes_prim: "list_all prim_byte (dec_bytes n) \<and> dec_bytes n \<noteq> []"
proof (induction n rule: dec_bytes.induct)
  case (1 n)
  have "prim_byte (0x30 + of_nat m)" if "m < 10" for m
  proof -
    have "m \<in> {0, 1, 2, 3, 4, 5, 6, 7, 8, 9}" using that by auto
    then show ?thesis by (auto simp: prim_byte_def)
  qed
  then show ?case using 1 by (auto simp: dec_bytes.simps [of n])
qed

definition number64 :: "int \<Rightarrow> bool" where
  "number64 v \<longleftrightarrow> - (2 ^ 63) \<le> v \<and> v < 2 ^ 63"

lemma dec_int_number: "list_all prim_byte (dec_int v) \<and> dec_int v \<noteq> []"
  using dec_bytes_prim by (simp add: dec_int_def prim_byte_def)

lemma dec_int_length:
  assumes "number64 v"
  shows "length (dec_int v) \<le> 21"
proof -
  have "- v < 10 ^ 20" "v < 10 ^ 20" using assms by (simp_all add: number64_def)
  then have "nat (- v) < nat (10 ^ 20)" "nat v < nat (10 ^ 20)" by (simp_all only: zless_nat_conj) simp_all
  then have "nat (- v) < 10 ^ 20" "nat v < 10 ^ 20" by simp_all
  then show ?thesis using dec_bytes_length [of "nat (- v)" 20] dec_bytes_length [of "nat v" 20] by (simp add: dec_int_def)
qed

section \<open>What the writer holds\<close>

definition holds :: "ssoossh_json_wr \<Rightarrow> bytes \<Rightarrow> bool" where
  "holds w t \<longleftrightarrow> jw_inv w \<and> jw_cap w = 8192 \<and>
     (ssoossh_json_wr_ok w \<longleftrightarrow> length t < 8192) \<and> (ssoossh_json_wr_ok w \<longrightarrow> jw_buf w = t)"

lemma cap_kept [simp]:
  "jw_cap (ssoossh_json_append w x) = jw_cap w" "jw_cap (ssoossh_json_append_string w x) = jw_cap w"
  by (simp_all add: ssoossh_json_append_def ssoossh_json_append_string_def Let_def split: option.split)

lemma holds_init: "holds (ssoossh_json_wr_init 8192) []"
  by (simp add: holds_def jw_inv_def ssoossh_json_wr_init_def ssoossh_json_wr_ok_def)

lemma holds_raw: "holds w t \<Longrightarrow> holds (ssoossh_json_append w x) (t @ x)"
  using json_raw.put_inv [of w x] json_raw.put_ok [of w x] json_raw.put_out [of w x]
  by (auto simp: holds_def jw_room_def)

lemma holds_string: "holds w t \<Longrightarrow> holds (ssoossh_json_append_string w x) (t @ lit (c_str x))"
  using json_string.put_inv [of w x] json_string.put_ok [of w x] json_string.put_out [of w x]
  by (auto simp: holds_def json_literal_text_def lit_def jw_room_def)

lemma holds_eq: "holds w t \<Longrightarrow> t = u \<Longrightarrow> holds w u"
  by simp

lemma render_fields_append: "render_fields False (a @ b) = render_fields False a @ render_fields False b"
  by (induction a) auto

text \<open>A name of the request's fields: bytes that stand for themselves.\<close>

lemma plain_name:
  assumes "list_all (\<lambda>c. 0x20 \<le> c \<and> c \<noteq> 0x22 \<and> c \<noteq> 0x5c) n"
  shows "plain n"
  using assms
proof (induction n)
  case (Cons c n)
  then have c: "0x20 \<le> c" "c \<noteq> 0x22" "c \<noteq> 0x5c" and n: "plain n" by auto
  then have "json_esc c = [c]" "c \<noteq> 0" by (auto simp: json_esc_def)
  then show ?case using n by (simp add: plain_def literal_body_def)
qed (simp add: plain_def literal_body_def)

lemma quoted_lit: "plain n \<Longrightarrow> quoted n = lit n"
  by (simp add: quoted_def lit_def plain_def)

definition opt :: "bytes \<Rightarrow> bytes \<Rightarrow> (bytes \<times> jv) list" where
  "opt n v = (if v = [] then [] else [(n, JStr (c_str v))])"

lemma holds_opt:
  assumes "holds w t" and "plain n"
  shows "holds (append_opt n v w) (t @ render_fields False (opt n v))"
proof (cases "v = []")
  case False
  have "holds (append_opt n v w) ((((t @ [0x2c, 0x22]) @ n) @ [0x22, 0x3a]) @ lit (c_str v))"
    unfolding append_opt_def Let_def if_not_P [OF False] by (intro holds_string holds_raw assms(1))
  moreover have "literal_body n = n" using assms(2) by (simp add: plain_def)
  ultimately show ?thesis using False by (simp add: opt_def sep_def lit_def)
qed (use assms in \<open>simp add: append_opt_def opt_def\<close>)

lemma holds_int:
  assumes "holds w t" and "plain n" and "length n \<le> 20" and "number64 v"
  shows "holds (append_int n v w) (t @ render_fields False [(n, JPrim (dec_int v))])"
proof -
  have "take 63 (0x2c # quoted n @ 0x3a # dec_int v) = 0x2c # lit n @ 0x3a # dec_int v"
    using dec_int_length [OF assms(4)] assms(2,3) by (simp add: quoted_lit lit_def plain_def)
  then show ?thesis using holds_raw [OF assms(1)] by (simp add: append_int_def sep_def)
qed

definition strings :: "bytes list \<Rightarrow> jv list" where
  "strings xs = map (\<lambda>x. JStr (c_str x)) xs"

lemma holds_elements:
  "holds w t \<Longrightarrow> holds (append_elements first xs w) (t @ render_items first (strings xs))"
proof (induction first xs w arbitrary: t rule: append_elements.induct)
  case (2 first x xs w)
  have "holds (if first then w else ssoossh_json_append w [0x2c]) (t @ sep first)"
    using 2(2) by (simp add: sep_def holds_raw)
  from 2(1) [OF refl holds_string [OF this]] show ?case by (simp add: strings_def Let_def)
qed (simp add: strings_def)

lemma holds_addresses:
  assumes "holds w t" and "plain n"
  shows "holds (if length xs > 0 then
      let w = ssoossh_json_append w (quoted n @ [0x3a, 0x5b]); w = append_elements True xs w in ssoossh_json_append w [0x5d]
    else w) (t @ render_fields True (if xs = [] then [] else [(n, JArr (strings xs))]))"
proof (cases "xs = []")
  case False
  have "holds (ssoossh_json_append (append_elements True xs (ssoossh_json_append w (quoted n @ [0x3a, 0x5b]))) [0x5d])
    (((t @ quoted n @ [0x3a, 0x5b]) @ render_items True (strings xs)) @ [0x5d])"
    by (intro holds_raw holds_elements assms(1))
  then show ?thesis using False by (simp add: Let_def quoted_lit [OF assms(2)] sep_def)
qed (use assms in simp)

section \<open>The document of a request\<close>

definition request_facts ::
    "('k, 'w) auth_env \<Rightarrow> bytes \<Rightarrow> bytes \<Rightarrow> ssoossh_request_context \<Rightarrow> ssoossh_config \<Rightarrow> (bytes \<times> jv) list" where
  "request_facts env user key ctx cfg =
     (let host = ssoossh_host_info_read (ae_host env) in
      [(bs ''username'', JStr (c_str user))] @
      opt (bs ''hostname'') (ctx_hostname ctx) @ opt (bs ''pam_service'') (ctx_service ctx) @
      opt (bs ''tty'') (ctx_tty ctx) @ opt (bs ''remote_host'') (ctx_rhost ctx) @
      opt (bs ''requesting_user'') (ctx_ruser ctx) @ opt (bs ''process'') (hi_process host) @
      [(bs ''caller_uid'', JPrim (dec_int (ae_uid env)))] @ [(bs ''caller_pid'', JPrim (dec_int (ae_pid env)))] @
      [(bs ''caller_ppid'', JPrim (dec_int (ae_ppid env)))] @
      opt (bs ''machine_id'') (hi_machine_id host) @ opt (bs ''os'') (hi_os host) @
      opt (bs ''client'') (bs ''pam_ssoossh-c/'' @ ae_version env) @ opt (bs ''mode'') (mode_name (cfg_mode cfg)) @
      opt (bs ''client_time'') (hi_client_time host))"

definition request_document ::
    "('k, 'w) auth_env \<Rightarrow> ca_list \<Rightarrow> bytes \<Rightarrow> bytes \<Rightarrow> ssoossh_request_context \<Rightarrow> ssoossh_config \<Rightarrow> jv" where
  "request_document env cas user key ctx cfg =
     (let addrs = ssoossh_local_addresses (ae_inet_ntop env) (ae_getifaddrs env) SSOOSSH_MAX_LOCAL_ADDRS in
      JObj ((bs ''public_key'', JStr (c_str key)) # request_facts env user key ctx cfg @
        [(bs ''trusted_ca_fingerprints'',
            JArr (strings (map (\<lambda>k. ssoossh_sshkey_fingerprint (ae_ossl env) (ca_blob k)) (take 8 (ca_keys cas))))),
         (bs ''requested_options'',
            JObj (if addrs = [] then [] else [(bs ''source_addresses'', JArr (strings addrs))]))]))"

lemma field_names:
  "plain (bs ''public_key'')" "plain (bs ''username'')" "plain (bs ''hostname'')" "plain (bs ''pam_service'')"
  "plain (bs ''tty'')" "plain (bs ''remote_host'')" "plain (bs ''requesting_user'')" "plain (bs ''process'')"
  "plain (bs ''caller_uid'')" "plain (bs ''caller_pid'')" "plain (bs ''caller_ppid'')" "plain (bs ''machine_id'')"
  "plain (bs ''os'')" "plain (bs ''client'')" "plain (bs ''mode'')" "plain (bs ''client_time'')"
  "plain (bs ''trusted_ca_fingerprints'')" "plain (bs ''requested_options'')" "plain (bs ''source_addresses'')"
  by (rule plain_name; simp)+

lemma write_request_holds:
  assumes "number64 (ae_uid env)" and "number64 (ae_pid env)" and "number64 (ae_ppid env)"
  shows "holds (write_request env cas user key ctx cfg) (render (request_document env cas user key ctx cfg))"
  unfolding write_request_def Let_def
  by (rule holds_eq,
      (rule holds_raw holds_string holds_elements holds_opt holds_int holds_addresses [unfolded Let_def] holds_init
        field_names assms | (simp; fail))+,
      unfold quoted_lit [OF field_names(1)] quoted_lit [OF field_names(2)] quoted_lit [OF field_names(17)]
        quoted_lit [OF field_names(18)] request_document_def request_facts_def Let_def,
      simp only: render.simps render_fields.simps render_fields_append append_Cons append_Nil append_assoc append_Nil2
        sep_def if_True if_False)

lemma build_body_document:
  assumes "number64 (ae_uid env)" and "number64 (ae_pid env)" and "number64 (ae_ppid env)"
  shows "build_body env cas user key ctx cfg =
    (let text = render (request_document env cas user key ctx cfg) in if length text < 8192 then Some text else None)"
  using write_request_holds [OF assms, of cas user key ctx cfg] by (auto simp: build_body_def Let_def holds_def)

section \<open>Reading it back\<close>

lemma proper_strings: "list_all proper (strings xs)"
  using c_str_no_nul by (auto simp: strings_def list_all_iff)

lemma tokens_strings: "sum_list (map tokens (strings xs)) = length xs"
  by (induction xs) (simp_all add: strings_def)

text \<open>Fields that are proper and take at most \<open>k\<close> tokens.\<close>

definition small_fields :: "(bytes \<times> jv) list \<Rightarrow> nat \<Rightarrow> bool" where
  "small_fields fs k \<longleftrightarrow> list_all (\<lambda>f. 0 \<notin> set (fst f) \<and> proper (snd f)) fs \<and> sum_list (map (\<lambda>f. 1 + tokens (snd f)) fs) \<le> k"

lemma small_append: "small_fields a j \<Longrightarrow> small_fields b k \<Longrightarrow> small_fields (a @ b) (j + k)"
  by (auto simp: small_fields_def)

lemma small_one: "plain n \<Longrightarrow> proper v \<Longrightarrow> tokens v \<le> k \<Longrightarrow> small_fields [(n, v)] (k + 1)"
  by (simp add: small_fields_def plain_def)

lemma small_string: "plain n \<Longrightarrow> small_fields [(n, JStr (c_str v))] 2"
  using c_str_no_nul by (simp add: small_fields_def plain_def)

lemma small_number: "plain n \<Longrightarrow> small_fields [(n, JPrim (dec_int v))] 2"
  using dec_int_number by (simp add: small_fields_def plain_def)

lemma small_opt: "plain n \<Longrightarrow> small_fields (opt n v) 2"
  using small_string [of n v] by (simp add: opt_def small_fields_def)

lemma small_strings: "plain n \<Longrightarrow> length xs \<le> k \<Longrightarrow> small_fields [(n, JArr (strings xs))] (k + 2)"
  using proper_strings tokens_strings by (simp add: small_fields_def plain_def)

lemma facts_small: "small_fields (request_facts env user key ctx cfg) 30"
proof -
  have "small_fields (request_facts env user key ctx cfg) (2 + (2 + (2 + (2 + (2 + (2 + (2 + (2 + (2 + (2 + (2 + (2 + (2 + (2 + 2))))))))))))))"
    unfolding request_facts_def Let_def
    by (intro small_append small_opt small_number small_string field_names)
  then show ?thesis by simp
qed

lemma request_readable:
  assumes "render (request_document env cas user key ctx cfg) = body" and "length body < 8192"
  shows "readable (request_document env cas user key ctx cfg) []"
proof -
  let ?addrs = "ssoossh_local_addresses (ae_inet_ntop env) (ae_getifaddrs env) SSOOSSH_MAX_LOCAL_ADDRS"
  let ?fps = "map (\<lambda>k. ssoossh_sshkey_fingerprint (ae_ossl env) (ca_blob k)) (take 8 (ca_keys cas))"
  have "length ?addrs \<le> 32"
    using local_addresses_loop_spec [of "[]" SSOOSSH_MAX_LOCAL_ADDRS]
    by (simp add: ssoossh_local_addresses_def SSOOSSH_MAX_LOCAL_ADDRS_def split: option.split)
  then have "small_fields (if ?addrs = [] then [] else [(bs ''source_addresses'', JArr (strings ?addrs))]) 34"
    using small_strings [OF field_names(19), of ?addrs 32] by (auto simp: small_fields_def)
  then have opts: "proper (JObj (if ?addrs = [] then [] else [(bs ''source_addresses'', JArr (strings ?addrs))]))"
      "tokens (JObj (if ?addrs = [] then [] else [(bs ''source_addresses'', JArr (strings ?addrs))])) \<le> 35"
    unfolding small_fields_def by simp_all
  have "small_fields ([(bs ''public_key'', JStr (c_str key))] @ request_facts env user key ctx cfg @
      [(bs ''trusted_ca_fingerprints'', JArr (strings ?fps))] @
      [(bs ''requested_options'', JObj (if ?addrs = [] then [] else [(bs ''source_addresses'', JArr (strings ?addrs))]))])
      (2 + (30 + ((8 + 2) + (35 + 1))))"
    by (intro small_append small_string small_strings facts_small small_one opts field_names) simp
  then show ?thesis using assms
    unfolding readable_def request_document_def Let_def small_fields_def
    by (simp add: blanks_def MAX_TOKENS_def SSOOSSH_MAX_RESPONSE_def)
qed

text \<open>
  C11: the request says what the module knows, and nothing the host, the terminal or the caller puts into
  a name, a host name or a command line can make it say anything else.  When the body is built, it is the
  document of the facts, whole and within its buffer, and a reader gets from it exactly the user to log in
  and exactly the public key of the attempt.
\<close>

theorem request_states_facts:
  assumes "number64 (ae_uid env)" and "number64 (ae_pid env)" and "number64 (ae_ppid env)" and "0 < cap"
  shows "case build_body env cas user key ctx cfg of
      None \<Rightarrow> 8192 \<le> length (render (request_document env cas user key ctx cfg))
    | Some body \<Rightarrow> body = render (request_document env cas user key ctx cfg) \<and> length body < 8192 \<and>
        ssoossh_json_top_string body (bs ''username'') cap = (length (c_str user) < cap, take (cap - 1) (c_str user)) \<and>
        ssoossh_json_top_string body (bs ''public_key'') cap = (length (c_str key) < cap, take (cap - 1) (c_str key))"
proof -
  let ?doc = "request_document env cas user key ctx cfg"
  have data: "jget (Some ?doc) (bs ''username'') = Some (JStr (c_str user))"
      "jget (Some ?doc) (bs ''public_key'') = Some (JStr (c_str key))"
    unfolding request_document_def request_facts_def Let_def by (simp_all add: jget_def)
  have "ssoossh_json_top_string (render ?doc) (bs ''username'') cap = (length (c_str user) < cap, take (cap - 1) (c_str user)) \<and>
      ssoossh_json_top_string (render ?doc) (bs ''public_key'') cap = (length (c_str key) < cap, take (cap - 1) (c_str key))"
    if "length (render ?doc) < 8192"
    using request_readable [OF refl that] data
      top_string_document [OF _ field_names(1) assms(4), of ?doc "[]"]
      top_string_document [OF _ field_names(2) assms(4), of ?doc "[]"]
    unfolding append_Nil2 data by (simp only: string_value_def option.case jv.case)
  then show ?thesis unfolding build_body_document [OF assms(1-3)] Let_def by (simp only: not_less option.case split: if_split) blast
qed

end
