(* ===== verification/Honest_Server.thy ===== *)
theory Honest_Server
  imports Pam_Ssoossh Request
begin

text \<open>
  A server that answers, for the completeness of a login: the network with its two answers scripted,
  what the answers have to say, and the lemma that an attempt against it, on a host that does its part,
  succeeds.
\<close>

section \<open>A server that answers\<close>

text \<open>
  The network with two scripted answers: the body of the create call and the bytes of the event
  stream.  The clock stands still unless the module sleeps, and nobody presses Ctrl-C.
\<close>

definition scripted :: "bytes \<Rightarrow> bytes \<Rightarrow> ('c, 'k host_world) net" where
  "scripted create stream = demo_net
     \<lparr> curl_easy_perform := (\<lambda>req wr pr st w. case wr create st of (n, st) \<Rightarrow> (if n = length create then 0 else 23, st, w)),
       curl_multi_perform := (\<lambda>cb st w. case cb 200 stream st of (n, st) \<Rightarrow> ((True, 0), st, w)) \<rparr>"

lemma scripted_clock_runs: "clock_runs (scripted create stream) hw_ticks 1"
  by (simp add: clock_runs_def scripted_def demo_net_def net_fired_def Let_def split: prod.split)

lemma scripted_fields [simp]:
  "net_clock (scripted create stream) w = (Some (0, int (hw_ticks w) * 1000000), w)"
  "net_sigint (scripted create stream) w = hw_sigint w"
  "net_set_sigint (scripted create stream) sg w = w\<lparr>hw_sigint := sg\<rparr>"
  "net_fired (scripted create stream) w = (interrupted (hw_sigint w), w)"
  "curl_global_ok (scripted create stream)"
  "curl_easy_init (scripted create stream) w = (True, w)"
  "curl_multi_init (scripted create stream) w = (True, w)"
  "curl_slist_append (scripted create stream) w = (True, w)"
  "curl_multi_add_handle (scripted create stream) req w = (True, w)"
  "curl_response_code (scripted create stream) w = 200"
  "curl_easy_cleanup (scripted create stream) w = w"
  "curl_multi_remove_handle (scripted create stream) w = w"
  "curl_multi_cleanup (scripted create stream) w = w"
  "curl_slist_free_all (scripted create stream) w = w"
  "curl_easy_perform (scripted create stream) req wr pr st w =
     (case wr create st of (n, st) \<Rightarrow> (if n = length create then 0 else 23, st, w))"
  "curl_multi_perform (scripted create stream) cb s w = (case cb 200 stream s of (n, s) \<Rightarrow> ((True, 0), s, w))"
  by (simp_all add: scripted_def demo_net_def net_fired_def ssoossh_cancel_fired_def Let_def)

lemma scripted_time [simp]: "ssoossh_monotonic_ms (scripted create stream) w = (int (hw_ticks w), w)"
  by (simp add: ssoossh_monotonic_ms_def)

lemma scripted_create:
  assumes "length create < cap"
  shows "ssoossh_httpc_post_json (scripted create stream) version url body insecure deadline cap w = (HTTP_OK, create, 200, [], w)"
  using assms by (simp add: ssoossh_httpc_post_json_def two_headers_def write_body_def tls_floor_ok_def Let_def)

lemma scripted_events:
  assumes "ssoossh_sse_feed cb stream ssoossh_sse_init ctx = (False, sse, ctx')" and "sse_stopped sse" and "int (hw_ticks w) < deadline"
    and "\<not> interrupted (hw_sigint w)"
  shows "ssoossh_httpc_events (scripted create stream) True version url insecure deadline cb emit ctx cap w =
    Some (HTTP_OK, emit [] ctx', 200, [], w)"
proof -
  let ?net = "scripted create stream"
  let ?sc = "\<lparr>sc_status = 0, sc_status_known = False, sc_is_error_body = False, sc_err = [], sc_err_cap = cap, sc_err_len = 0\<rparr>"
  let ?sc' = "?sc\<lparr>sc_status := 200, sc_status_known := True\<rparr>"
  have "poll_turn ?net cb deadline (?sc, ssoossh_sse_init, ctx) w = (Poll_finished, (?sc', sse, ctx'), w)"
    using assms by (simp add: poll_turn_def write_stream_def Let_def)
  then have "poll_loop ?net cb deadline (?sc, ssoossh_sse_init, ctx) w = Some (None, (?sc', sse, ctx'), w)"
    by (simp add: poll_loop.simps [of ?net])
  moreover have "stream_finish ?net (?sc', sse, ctx') w = \<lparr>se_result = HTTP_OK, se_sse = sse, se_ctx = ctx', se_status = 200,
      se_err = [], se_delivered = True, se_logs = []\<rparr>"
    using assms(2) by (simp add: stream_finish_def tls_floor_ok_def Let_def)
  ultimately have "run_stream ?net version url insecure deadline ssoossh_sse_init cb ctx 0 [] cap w =
      Some (\<lparr>se_result = HTTP_OK, se_sse = sse, se_ctx = ctx', se_status = 200,
      se_err = [], se_delivered = True, se_logs = []\<rparr>, w)"
    by (simp add: run_stream_def stream_cleanup_def two_headers_def Let_def)
  then have "events_loop ?net version url insecure deadline cb emit ctx 0 [] cap w =
      Some (\<lparr>se_result = HTTP_OK, se_sse = sse, se_ctx = emit [] ctx', se_status = 200,
      se_err = [], se_delivered = True, se_logs = []\<rparr>, w)"
    by (simp add: events_loop.simps [of ?net] reconnects_def)
  then show ?thesis by (simp add: ssoossh_httpc_events_def)
qed

section \<open>The events of an approval\<close>

text \<open>What may come before the outcome: keep-alives and events that are not terminal.\<close>

fun informational :: "sse_item \<Rightarrow> bool" where
  "informational (KeepAlive c) \<longleftrightarrow> True"
| "informational (Event name ls) \<longleftrightarrow> \<not> is_terminal (c_str name)"

lemma deliver_approval:
  assumes "list_all informational before" and "length data < SSOOSSH_MAX_RESPONSE"
  shows "\<exists>logs. deliver on_event (before @ Event (bs ''approved'') [data] # after) wait_init =
    (False, \<lparr>wc_response = data, wc_status = bs ''approved'', wc_have = True, wc_logs = logs\<rparr>)"
proof -
  have "\<exists>logs. deliver on_event (before @ Event (bs ''approved'') [data] # after)
      \<lparr>wc_response = [], wc_status = [], wc_have = False, wc_logs = l\<rparr> =
    (False, \<lparr>wc_response = data, wc_status = bs ''approved'', wc_have = True, wc_logs = logs\<rparr>)" for l
    using assms(1)
  proof (induction before arbitrary: l)
    case Nil
    have "is_terminal (bs ''approved'')" "c_str (bs ''approved'') = bs ''approved''"
      by (simp_all add: is_terminal_def terminal_status_def c_str_def)
    then show ?case using assms(2) unfolding append_Nil
      by (simp add: on_event_def join_lines_def Let_def del: bs_simps)
  next
    case (Cons i before)
    show ?case
    proof (cases i)
      case (Event name ls)
      then have "on_event name (join_lines ls) \<lparr>wc_response = [], wc_status = [], wc_have = False, wc_logs = l\<rparr> =
          (True, \<lparr>wc_response = [], wc_status = [], wc_have = False,
             wc_logs = l @ [ssoossh_debugf ''events: informational event %s'' [AStr (ssoossh_log_escape_str (c_str name) 256)]]\<rparr>)"
        using Cons.prems by (simp add: on_event_def Let_def)
      then show ?thesis using Cons by (simp add: Event)
    qed (use Cons in simp)
  qed
  then show ?thesis by (simp add: wait_init_def)
qed

section \<open>An honest server's answers\<close>

text \<open>The strings a document's \<open>data\<close> object has, as the module reads them.\<close>

definition data_text :: "jv \<Rightarrow> string \<Rightarrow> bytes option" where
  "data_text doc name =
     (case jget (jget (Some doc) (bs ''data'')) (bs name) of Some (JStr s) \<Rightarrow> Some s | _ \<Rightarrow> None)"

lemma data_field_text:
  assumes "readable doc ws" and "plain (bs name)" and "0 < cap" and "data_text doc name = Some s" and "length s < cap"
    and "0 \<notin> set s"
  shows "data_field (render doc @ ws) name cap = (True, s)"
proof -
  have "jget (jget (Some doc) (bs ''data'')) (bs name) = Some (JStr s)"
    using assms(4) by (auto simp: data_text_def split: option.splits jv.splits)
  then show ?thesis using data_string_document [OF assms(1-3)] assms(5,6)
    by (simp add: data_field_def string_value_def c_str_id)
qed

lemma data_field_none:
  assumes "readable doc ws" and "plain (bs name)" and "0 < cap" and "data_text doc name = None"
  shows "data_field (render doc @ ws) name cap = (False, [])"
proof -
  have "string_value cap (jget (jget (Some doc) (bs ''data'')) (bs name)) = (False, [])"
    using assms(4) by (auto simp: data_text_def string_value_def split: option.splits jv.splits)
  then show ?thesis using data_string_document [OF assms(1-3)] by (simp add: data_field_def c_str_def)
qed

text \<open>
  The answer to the create call of the browser flow: two paths on the server, and no deadline of the
  server's own.
\<close>

definition creates :: "jv \<Rightarrow> bytes \<Rightarrow> ssoossh_config \<Rightarrow> bytes \<Rightarrow> bool" where
  "creates doc ws cfg events \<longleftrightarrow>
     readable doc ws \<and> length (render doc @ ws) < SSOOSSH_MAX_RESPONSE \<and>
     data_text doc ''events_url'' = Some events \<and> 0 \<notin> set events \<and> join_url 1024 (cfg_server cfg) events \<noteq> None \<and>
     data_text doc ''expires_at'' = None \<and>
     (\<exists>approval. data_text doc ''approval_url'' = Some approval \<and> 0 \<notin> set approval \<and>
        join_url 1024 (cfg_server cfg) approval \<noteq> None)"

text \<open>The data of the outcome: a certificate and no error.\<close>

definition issues :: "jv \<Rightarrow> bytes \<Rightarrow> bool" where
  "issues doc cert_line \<longleftrightarrow>
     readable doc [] \<and> length (render doc) < SSOOSSH_MAX_RESPONSE \<and> jget (Some doc) (bs ''error'') = None \<and>
     data_text doc ''certificate'' = Some cert_line \<and> cert_line \<noteq> [] \<and> 0 \<notin> set cert_line \<and>
     length cert_line < SSOOSSH_MAX_CERT_LINE"

lemma answer_names:
  "plain (bs ''events_url'')" "plain (bs ''expires_at'')" "plain (bs ''approval_url'')" "plain (bs ''certificate'')"
  "plain (bs ''error'')"
  by (rule plain_name; simp)+

lemma join_url_length: "join_url cap base rel = Some u \<Longrightarrow> length rel < cap \<and> rel \<noteq> []"
  by (auto simp: join_url_def split: if_splits)

lemma show_message_world:
  assumes "ae_conv env = (PAM_SUCCESS, Some conv)" and "\<forall>style text w. snd (snd (conv style text w)) = w"
  shows "\<exists>rc. show_message env ctx m w = (rc, w)"
proof -
  let ?style = "if \<not> conversation_defers_text ctx then PAM_TEXT_INFO else PAM_PROMPT_ECHO_OFF"
  obtain rc resp where "conv ?style (shown_message ctx m) w = (rc, resp, w)"
    using assms(2) by (metis prod.collapse)
  then show ?thesis unfolding show_message_def ssoossh_conv_def assms(1) by (simp split: option.split)
qed

lemma honest_create:
  assumes "ae_net env = scripted (render doc @ ws) stream" and "creates doc ws cfg events"
    and "ae_conv env = (PAM_SUCCESS, Some conv)" and "\<forall>style text w. snd (snd (conv style text w)) = w"
  shows "\<exists>url l. auth_create env cfg ctx False body deadline w = Inr (url, deadline, l, w)"
proof -
  let ?resp = "render doc @ ws"
  obtain approval url aurl where c: "readable doc ws" "length ?resp < SSOOSSH_MAX_RESPONSE"
      "data_text doc ''events_url'' = Some events" "0 \<notin> set events" "join_url 1024 (cfg_server cfg) events = Some url"
      "data_text doc ''expires_at'' = None" "data_text doc ''approval_url'' = Some approval" "0 \<notin> set approval"
      "join_url 1024 (cfg_server cfg) approval = Some aurl"
    using assms(2) by (auto simp: creates_def)
  have ev: "data_field ?resp ''events_url'' 1024 = (True, events)" "events \<noteq> []"
    using data_field_text [OF c(1) answer_names(1) _ c(3) _ c(4), of 1024] join_url_length [OF c(5)] by simp_all
  have ap: "data_field ?resp ''approval_url'' 1024 = (True, approval)" "approval \<noteq> []"
    using data_field_text [OF c(1) answer_names(3) _ c(7) _ c(8), of 1024] join_url_length [OF c(9)] by simp_all
  have ex: "data_field ?resp ''expires_at'' 64 = (False, [])"
    using data_field_none [OF c(1) answer_names(2) _ c(6), of 64] by simp
  obtain l' where prompt: "auth_prompt env cfg ctx False ?resp w = Inr (l', w)"
  proof -
    obtain rc where m: "show_message env ctx (browser_message (snd (ssoossh_sanitize TEXT_URL aurl 1024))) w = (rc, w)"
      using show_message_world [OF assms(3,4)] by blast
    have "\<exists>l'. show_browser_prompt env ctx aurl w = (l', w)"
      unfolding show_browser_prompt_def Let_def case_prod_beta m by simp
    then show thesis using ap c(9) by (auto simp: auth_prompt_def intro: that)
  qed
  show ?thesis
    unfolding auth_create_def assms(1) scripted_create [OF c(2)] prod.case ev(1) server_bound_def ex prompt c(5)
    using ev(2) by (simp add: c(5) prompt)
qed

lemma honest_outcome:
  assumes "issues doc cert_line"
  shows "auth_outcome \<lparr>wc_response = render doc, wc_status = bs ''approved'', wc_have = True, wc_logs = l\<rparr> = Inr cert_line"
proof -
  have i: "readable doc []" "jget (Some doc) (bs ''error'') = None" "data_text doc ''certificate'' = Some cert_line"
      "cert_line \<noteq> []" "0 \<notin> set cert_line" "length cert_line < SSOOSSH_MAX_CERT_LINE"
    using assms by (auto simp: issues_def)
  have "error_field (render doc) 512 = (False, [])"
    using top_string_document [OF i(1) answer_names(5), of 512] unfolding i(2) append_Nil2
    by (simp add: error_field_def string_value_def c_str_def)
  moreover have "data_field (render doc) ''certificate'' SSOOSSH_MAX_CERT_LINE = (True, cert_line)"
    using data_field_text [OF i(1) answer_names(4) _ i(3) i(6) i(5)] i(6) by simp
  ultimately show ?thesis using i(4) by (simp add: auth_outcome_def del: bs_simps)
qed

section \<open>An approved login succeeds\<close>

text \<open>
  The host does its part: memory, a key pair that is kept until it is freed, and calls that leave the
  rest of the scripted world alone.
\<close>

definition cooperates :: "('k, 'k host_world) auth_env \<Rightarrow> bytes \<Rightarrow> int \<Rightarrow> bool" where
  "cooperates env point now \<longleftrightarrow>
     ae_calloc_ok env \<and> ae_sse_calloc_ok env \<and> ae_malloc_ok env \<and>
     (\<exists>kp. (\<forall>v. ssoossh_crypto_keygen (ae_keys env) v = (Some kp, v\<lparr>hw_keys := kp # hw_keys v\<rparr>)) \<and>
        ssoossh_crypto_public_point (ae_keys env) kp 256 = Some point \<and>
        (\<forall>v. ssoossh_crypto_keypair_free (ae_keys env) (Some kp) v = v\<lparr>hw_keys := remove1 kp (hw_keys v)\<rparr>)) \<and>
     (\<forall>v. ae_time env v = (now, v)) \<and>
     (\<exists>conv. ae_conv env = (PAM_SUCCESS, Some conv) \<and> (\<forall>style text v. snd (snd (conv style text v)) = v))"

text \<open>The certificate is one the four checks accept, with a CA among those loaded.\<close>

definition acceptable_cert :: "('k, 'w) auth_env \<Rightarrow> ssoossh_config \<Rightarrow> bytes \<Rightarrow> ca_list \<Rightarrow> bytes \<Rightarrow> int \<Rightarrow> ssoossh_cert \<Rightarrow> bool" where
  "acceptable_cert env cfg user cas key now cert \<longleftrightarrow>
     list_ex (\<lambda>ca. fst (ssoossh_cert_verify (ae_ossl env) cert (ca_blob ca)) = VERIFY_OK) (ca_keys cas) \<and>
     cert_key_blob cert = key \<and> key \<noteq> [] \<and>
     (user \<in> set (cert_principals cert) \<or>
      cfg_principals_map cfg \<noteq> [] \<and> map_grants (ae_read_file env (cfg_principals_map cfg)) user (cert_principals cert)) \<and>
     fst (ssoossh_check_validity cert now (cfg_skew_tolerance cfg))"

lemma honest_checks:
  assumes "acceptable_cert env cfg user cas key now cert" and "ae_time env w = (now, w)" and "ae_malloc_ok env"
  shows "\<exists>l. auth_checks env user who cfg cas key cert w = (PAM_SUCCESS, l, w)"
proof -
  obtain signer where "fst (ssoossh_check_ca_signature (ae_ossl env) cert cas) = Some signer"
    using assms(1) unfolding check_ca_signature_find acceptable_cert_def
    by (cases "find (\<lambda>k. fst (ssoossh_cert_verify (ae_ossl env) cert (ca_blob k)) = VERIFY_OK) (ca_keys cas)")
      (auto simp: find_None_iff list_ex_iff)
  moreover have "fst (ssoossh_check_key_binding (ae_ossl env) cert key)"
    using assms(1) by (simp add: check_key_binding_iff acceptable_cert_def)
  moreover have "fst (ssoossh_check_principal (ae_malloc_ok env) (ae_read_file env) cert user (cfg_principals_map cfg))"
    using assms(1,3) by (auto simp: check_principal_spec acceptable_cert_def)
  moreover have "fst (ssoossh_check_validity cert now (cfg_skew_tolerance cfg))"
    using assms(1) by (simp add: acceptable_cert_def)
  ultimately show ?thesis using assms(2) by (auto simp: auth_checks_def split: prod.split)
qed

lemma honest_wait:
  assumes "ae_net env = scripted create (concat (map item_text (before @ Event (bs ''approved'') [render issue] # after)))"
    and "list_all item_ok (before @ Event (bs ''approved'') [render issue] # after)" and "list_all informational before"
    and "issues issue cert_line" and "ae_sse_calloc_ok env" and "int (hw_ticks w) < deadline"
    and "\<not> interrupted (hw_sigint w)"
  shows "\<exists>l. auth_wait env cfg url deadline w = Some (Inr (cert_line, l, w))"
proof -
  let ?items = "before @ Event (bs ''approved'') [render issue] # after"
  have len: "length (render issue) < SSOOSSH_MAX_RESPONSE" using assms(4) by (simp add: issues_def)
  obtain l where l: "deliver on_event ?items wait_init =
      (False, \<lparr>wc_response = render issue, wc_status = bs ''approved'', wc_have = True, wc_logs = l\<rparr>)"
    using deliver_approval [OF assms(3) len] by blast
  obtain sse where feed: "ssoossh_sse_feed on_event (concat (map item_text ?items)) ssoossh_sse_init wait_init =
      (False, sse, \<lparr>wc_response = render issue, wc_status = bs ''approved'', wc_have = True, wc_logs = l\<rparr>)" "sse_stopped sse"
  proof -
    obtain ok s c where f: "ssoossh_sse_feed on_event (concat (map item_text ?items)) ssoossh_sse_init wait_init = (ok, s, c)"
      by (metis prod_cases3)
    have "(ok, c) = deliver on_event ?items wait_init" "s = ssoossh_sse_init\<lparr>sse_stopped := \<not> ok\<rparr>"
      using feed_delivers [OF assms(2), of on_event wait_init] unfolding f by simp_all
    then show thesis using f l that by simp
  qed
  have sse: "ae_sse_calloc_ok env = True" using assms(5) by simp
  show ?thesis unfolding auth_wait_def assms(1) sse scripted_events [OF feed assms(6,7)] option.case prod.case
    by (simp add: wait_note_def honest_outcome [OF assms(4)] Let_def del: bs_simps)
qed

lemma honest_prepare:
  assumes "ssoossh_crypto_keygen (ae_keys env) w = (Some kp, w1)"
    and "ssoossh_crypto_public_point (ae_keys env) kp 256 = Some point" and "\<not> cfg_ssh_only cfg"
    and "\<not> is_console_flow cfg (ssoossh_context_read (ae_get_item env) (ae_hostname env))"
    and "ssoossh_sshkey_blob_p384 point SSOOSSH_MAX_KEY_BLOB = Some key"
    and "ssoossh_sshkey_authorized_line key SSOOSSH_MAX_KEY_LINE = Some key_line"
    and "build_body env cas user key_line (ssoossh_context_read (ae_get_item env) (ae_hostname env)) cfg = Some body"
  shows "\<exists>l. auth_prepare env user who cfg cas w =
    (Some kp, Inr (ssoossh_context_read (ae_get_item env) (ae_hostname env), False, key, body, l, w1))"
  using assms by (simp add: auth_prepare_def attempt_key_def Let_def)

lemma armed_not_fired:
  "\<not> sig_pending s \<Longrightarrow> \<not> interrupted (fst (ssoossh_cancel_arm ok1 ok2 (s, c)))"
  by (auto simp: ssoossh_cancel_arm_def arm_clear_def arm_install_def arm_unblock_def sig_deliver_def)

lemma honest_login:
  assumes net: "ae_net env = scripted (render create @ ws)
      (concat (map item_text (before @ Event (bs ''approved'') [render issue] # after)))"
    and items: "list_all item_ok (before @ Event (bs ''approved'') [render issue] # after)" "list_all informational before"
    and answers: "creates create ws cfg events" "issues issue cert_line"
    and host: "cooperates env point now" and load: "auth_load env cfg = Inr (cas, l)"
    and flow: "\<not> cfg_ssh_only cfg" "\<not> is_console_flow cfg (ssoossh_context_read (ae_get_item env) (ae_hostname env))"
    and cfg: "cfg_server cfg \<noteq> []" "cfg_trusted_ca_file cfg \<noteq> []" "0 < timeout_ms (cfg_timeout cfg)"
    and key: "ssoossh_sshkey_blob_p384 point SSOOSSH_MAX_KEY_BLOB = Some key"
      "ssoossh_sshkey_authorized_line key SSOOSSH_MAX_KEY_LINE = Some key_line"
      "build_body env cas user key_line (ssoossh_context_read (ae_get_item env) (ae_hostname env)) cfg = Some body"
    and cert: "ssoossh_cert_parse_line cert_line SSOOSSH_MAX_CERT = Inr cert" "acceptable_cert env cfg user cas key now cert"
    and sig: "\<not> sig_pending (hw_sigint w)"
  shows "\<exists>logs sg. ssoossh_authenticate env user cfg w = Some (PAM_SUCCESS, logs, w\<lparr>hw_sigint := sg\<rparr>)"
proof -
  let ?who = "ssoossh_log_escape_str user 256"
  let ?ctx = "ssoossh_context_read (ae_get_item env) (ae_hostname env)"
  let ?dl = "int (hw_ticks w) + timeout_ms (cfg_timeout cfg)"
  obtain kp where k: "\<And>v. ssoossh_crypto_keygen (ae_keys env) v = (Some kp, v\<lparr>hw_keys := kp # hw_keys v\<rparr>)"
      "ssoossh_crypto_public_point (ae_keys env) kp 256 = Some point"
      "\<And>v. ssoossh_crypto_keypair_free (ae_keys env) (Some kp) v = v\<lparr>hw_keys := remove1 kp (hw_keys v)\<rparr>"
    using host by (auto simp: cooperates_def)
  define w1 where "w1 = w\<lparr>hw_keys := kp # hw_keys w\<rparr>"
  obtain l2 where p: "auth_prepare env user ?who cfg cas w = (Some kp, Inr (?ctx, False, key, body, l2, w1))"
    using honest_prepare [OF k(1,2) flow key] unfolding w1_def by blast
  obtain sg c where arm: "ssoossh_cancel_arm (ae_sigaction_ok env) (ae_sigmask_ok env) (hw_sigint w, ae_cancel env) = (sg, c)"
    by (metis surj_pair)
  define w2 where "w2 = w1\<lparr>hw_sigint := sg\<rparr>"
  have a: "auth_arm env (ae_cancel env) w1 = (c, w2)"
    by (simp add: auth_arm_def net w1_def w2_def arm)
  have t: "ssoossh_monotonic_ms (ae_net env) w1 = (int (hw_ticks w), w1)" by (simp add: net w1_def)
  have quiet: "\<not> interrupted (hw_sigint w2)"
    using armed_not_fired [OF sig, of "ae_sigaction_ok env" "ae_sigmask_ok env" "ae_cancel env"] by (simp add: w2_def arm)
  obtain conv where "ae_conv env = (PAM_SUCCESS, Some conv)" "\<forall>style text v. snd (snd (conv style text v)) = v"
    using host by (auto simp: cooperates_def)
  from honest_create [OF net answers(1) this] obtain url l3 where
    c: "auth_create env cfg ?ctx False body ?dl w2 = Inr (url, ?dl, l3, w2)" by blast
  have h: "ae_sse_calloc_ok env" "ae_calloc_ok env" "ae_malloc_ok env" "ae_time env w2 = (now, w2)"
    using host by (auto simp: cooperates_def)
  have "int (hw_ticks w2) < ?dl" using cfg(3) by (simp add: w1_def w2_def)
  from honest_wait [OF net items answers(2) h(1) this quiet] obtain l4 where
    wt: "auth_wait env cfg url ?dl w2 = Some (Inr (cert_line, l4, w2))" by blast
  obtain l5 where "auth_checks env user ?who cfg cas key cert w2 = (PAM_SUCCESS, l5, w2)"
    using honest_checks [OF cert(2) h(4,3)] by blast
  then obtain l6 where ce: "auth_certificate env user ?who cfg cas key cert_line w2 = (PAM_SUCCESS, l6, w2)"
    by (simp add: auth_certificate_def cert(1))
  have "auth_exchange env user ?who cfg cas ?ctx False key body ?dl w2 = Some (PAM_SUCCESS, l3 @ l4 @ l6, w2)"
    by (simp add: auth_exchange_def c wt ce)
  then have "ssoossh_authenticate env user cfg w =
      Some (auth_done env (Some c) (Some kp) (PAM_SUCCESS, args_line cfg @ l @ l2 @ l3 @ l4 @ l6, w2))"
    using cfg(1,2) h(2) unfolding ssoossh_authenticate_def Let_def load
    by (simp add: p a t)
  moreover have "auth_done env (Some c) (Some kp) (PAM_SUCCESS, logs, w2) =
      (PAM_SUCCESS, logs, w\<lparr>hw_sigint := fst (ssoossh_cancel_disarm (sg, c))\<rparr>)" for logs
    by (simp add: auth_done_def auth_disarm_def k(3) net w1_def w2_def)
  ultimately show ?thesis by auto
qed

end
