(* ===== verification/Effects.thy ===== *)
theory Effects
  imports Pam_Ssoossh
begin

text \<open>
  What an attempt does to the process around it.  An invariant of the world that every call the module
  makes keeps is kept by each of its operations; two invariants are then followed through a whole login:
  what the process has of SIGINT, which only arming, disarming and arriving signals change, and the
  private keys in memory, which only key generation and freeing change.

  The lemmas: each operation of src/httpc.c and each stage of src/auth.c keeps such an invariant.  The
  theorems: a login gives the host its SIGINT back, one that is interrupted is not a refusal, and no
  private key is left behind.
\<close>

section \<open>The network\<close>

definition net_keeps :: "('w \<Rightarrow> bool) \<Rightarrow> ('c, 'w) net \<Rightarrow> bool" where
  "net_keeps I net \<longleftrightarrow>
     (\<forall>w. I w \<longrightarrow>
        I (snd (net_clock net w)) \<and> I (net_signals net w) \<and> I (snd (curl_easy_init net w)) \<and>
        I (snd (curl_multi_init net w)) \<and> I (snd (curl_slist_append net w)) \<and> I (snd (curl_multi_timeout net w)) \<and>
        (\<forall>d. I (net_nanosleep net d w)) \<and> (\<forall>req. I (snd (curl_multi_add_handle net req w))) \<and>
        (\<forall>cb st. I (snd (snd (curl_multi_perform net cb st w)))) \<and> (\<forall>n. I (snd (curl_multi_wait net n w))) \<and>
        I (curl_easy_cleanup net w) \<and> I (curl_multi_remove_handle net w) \<and> I (curl_multi_cleanup net w) \<and>
        I (curl_slist_free_all net w) \<and>
        (\<forall>req wr pr st. (\<forall>st v. I v \<longrightarrow> I (snd (snd (pr st v)))) \<longrightarrow>
           I (snd (snd (curl_easy_perform net req wr pr st w)))))"

lemma net_keepsD:
  assumes "net_keeps I net" and "I w"
  shows "I (snd (net_clock net w))" "I (net_signals net w)" "I (snd (curl_easy_init net w))"
    "I (snd (curl_multi_init net w))" "I (snd (curl_slist_append net w))" "I (snd (curl_multi_timeout net w))"
    "I (net_nanosleep net d w)" "I (snd (curl_multi_add_handle net req w))"
    "I (snd (snd (curl_multi_perform net cb st w)))" "I (snd (curl_multi_wait net n w))"
    "(\<And>st v. I v \<Longrightarrow> I (snd (snd (pr st v)))) \<Longrightarrow> I (snd (snd (curl_easy_perform net req wr pr ps w)))"
    "I (curl_easy_cleanup net w)" "I (curl_multi_remove_handle net w)" "I (curl_multi_cleanup net w)"
    "I (curl_slist_free_all net w)"
  using assms by (simp_all add: net_keeps_def del: split_paired_All)

lemma clock_keeps:
  assumes "net_keeps I net" and "I w"
  shows "I (snd (ssoossh_monotonic_ms net w))" and "I (snd (net_fired net w))"
  using net_keepsD(1,2) [OF assms]
  by (auto simp: ssoossh_monotonic_ms_def net_fired_def Let_def split: prod.split option.split)

lemmas wait_keeps = net_keepsD clock_keeps

lemma poll_turn_keeps:
  assumes "net_keeps I net" and "I w"
  shows "I (snd (snd (poll_turn net cb deadline st w)))"
  unfolding poll_turn_def Let_def case_prod_beta
  by (simp add: wait_keeps [OF assms(1)] assms(2))

lemma poll_loop_keeps:
  assumes "poll_loop net cb deadline st w = Some out" and "net_keeps I net" and "I w"
  shows "I (snd (snd out))"
proof -
  have "net_keeps I net \<longrightarrow> I w \<longrightarrow> I (snd (snd out))"
  proof (rule poll_loop.raw_induct [where P = "\<lambda>n c d st w out. net_keeps I n \<longrightarrow> I w \<longrightarrow> I (snd (snd out))",
        OF _ assms(1)], intro impI)
    fix loop n c d st w out
    assume "\<And>n' c' d' st' w' y. loop n' c' d' st' w' = Some y \<Longrightarrow> net_keeps I n' \<longrightarrow> I w' \<longrightarrow> I (snd (snd y))"
      and "(case poll_turn n c d st w of (e, st, w) \<Rightarrow>
          (case e of Poll_result r \<Rightarrow> Some (Some r, st, w) | Poll_finished \<Rightarrow> Some (None, st, w)
           | Poll_again \<Rightarrow> loop n c d st w)) = Some out"
      and "net_keeps I n" "I w"
    moreover from this(3,4) have "I (snd (snd (poll_turn n c d st w)))" by (rule poll_turn_keeps)
    ultimately show "I (snd (snd out))" by (auto split: prod.splits poll_exit.splits)
  qed
  with assms(2,3) show ?thesis by blast
qed

lemma two_headers_keeps:
  "net_keeps I net \<Longrightarrow> I w \<Longrightarrow> I (snd (two_headers net h1 h2 w))"
  by (simp add: two_headers_def Let_def case_prod_beta wait_keeps)

lemma cleanup_keeps:
  "net_keeps I net \<Longrightarrow> I w \<Longrightarrow> I (stream_cleanup net h multi headers w)"
  by (simp add: stream_cleanup_def Let_def wait_keeps)

lemma run_stream_keeps:
  assumes run: "run_stream net version url insecure deadline sse cb ctx status err err_cap w = Some (e, w')"
    and k: "net_keeps I net" and "I w"
  shows "I w'"
proof -
  obtain h w1 where 1: "curl_easy_init net w = (h, w1)" by fastforce
  obtain m w2 where 2: "curl_multi_init net w1 = (m, w2)" by fastforce
  obtain hs w3 where 3: "two_headers net (bs ''Accept: text/event-stream'') (bs ''Cache-Control: no-cache'') w2 = (hs, w3)"
    by fastforce
  have "I w1" using net_keepsD(3) [OF k assms(3)] 1 by simp
  then have i2: "I w2" using net_keepsD(4) [OF k] 2 by (metis snd_conv)
  then have i3: "I w3" using two_headers_keeps [OF k] 3 by (metis snd_conv)
  show ?thesis
  proof (cases "h \<and> m \<and> hs \<noteq> None")
    case False
    then show ?thesis using i2 i3 run unfolding run_stream_def Let_def 1 2 prod.case 3
      by (cases hs) (auto split: if_splits intro: cleanup_keeps [OF k])
  next
    case True
    then obtain headers where hs: "hs = Some headers" by blast
    obtain ok w4 where 4: "curl_multi_add_handle net
        ((apply_common version insecure)\<lparr>opt_url := url, opt_httpheader := headers\<rparr>) w3 = (ok, w4)" by fastforce
    have i4: "I w4" using net_keepsD(8) [OF k i3] 4 by (metis snd_conv)
    let ?st = "(\<lparr>sc_status = 0, sc_status_known = False, sc_is_error_body = False, sc_err = err, sc_err_cap = err_cap,
        sc_err_len = 0\<rparr>, sse, ctx)"
    have "I w5" if "poll_loop net cb deadline ?st w4 = Some (r, st, w5)" for r st w5
      using poll_loop_keeps [OF that k i4] by simp
    then show ?thesis using True run i4
      unfolding run_stream_def Let_def 1 2 prod.case 3 hs option.case 4
      by (auto split: option.splits if_splits intro: cleanup_keeps [OF k])
  qed
qed

lemma reconnect_keeps:
  "net_keeps I net \<Longrightarrow> I w \<Longrightarrow> I (snd (wait_to_reconnect net deadline w))"
  by (simp add: wait_to_reconnect_def Let_def case_prod_beta wait_keeps)

lemma events_loop_keeps:
  assumes "events_loop net version url insecure deadline cb emit ctx status err err_cap w = Some out"
    and "net_keeps I net" and "I w"
  shows "I (snd out)"
proof -
  have "net_keeps I net \<longrightarrow> I w \<longrightarrow> I (snd out)"
  proof (rule events_loop.raw_induct [where P = "\<lambda>n v u i d cb emit ctx st err cap w out.
        net_keeps I n \<longrightarrow> I w \<longrightarrow> I (snd out)", OF _ assms(1)], intro impI)
    fix loop n v u i d cb emit ctx st err cap w out
    assume ih: "\<And>n' v' u' i' d' cb' emit' ctx' st' err' cap' w' y.
        loop n' v' u' i' d' cb' emit' ctx' st' err' cap' w' = Some y \<Longrightarrow> net_keeps I n' \<longrightarrow> I w' \<longrightarrow> I (snd y)"
      and eq: "(case run_stream n v u i d ssoossh_sse_init cb ctx st err cap w of None \<Rightarrow> None
       | Some (e, w) \<Rightarrow>
          (case reconnects e of None \<Rightarrow> Some (e\<lparr>se_ctx := emit (se_logs e) (se_ctx e)\<rparr>, w)
           | Some line \<Rightarrow>
               (case wait_to_reconnect n d w of (again, w) \<Rightarrow>
                    if again then loop n v u i d cb emit (emit (se_logs e @ line) (se_ctx e)) (se_status e) (se_err e) cap w
                    else (case net_fired n w of (fired, w) \<Rightarrow>
                           Some (e\<lparr>se_result := (if fired then HTTP_CANCELLED else HTTP_TIMEOUT),
                                   se_ctx := emit (se_logs e @ line) (se_ctx e)\<rparr>, w))))) = Some out"
      and k: "net_keeps I n" "I w"
    obtain e w1 where r: "run_stream n v u i d ssoossh_sse_init cb ctx st err cap w = Some (e, w1)"
      using eq by (auto split: option.splits)
    have 1: "I w1" by (rule run_stream_keeps [OF r k])
    obtain again w2 where a: "wait_to_reconnect n d w1 = (again, w2)" by fastforce
    have "I w2" using reconnect_keeps [OF k(1), where w = w1 and deadline = d, OF 1] a by simp
    then show "I (snd out)" using eq 1 ih k(1) clock_keeps(2) [OF k(1), of w2]
      by (auto simp: r a split: option.splits if_splits prod.splits)
  qed
  with assms(2,3) show ?thesis by blast
qed

lemma events_keeps:
  "ssoossh_httpc_events net calloc_ok version url insecure deadline cb emit ctx err_cap w = Some (r, c, status, err, w') \<Longrightarrow>
    net_keeps I net \<Longrightarrow> I w \<Longrightarrow> I w'"
  by (auto simp: ssoossh_httpc_events_def split: if_splits option.splits dest: events_loop_keeps)

lemma progress_keeps:
  "net_keeps I net \<Longrightarrow> I w \<Longrightarrow> I (snd (snd (on_progress net p w)))"
  by (simp add: on_progress_def Let_def case_prod_beta wait_keeps)

lemma post_keeps:
  assumes "net_keeps I net" and "I w"
  shows "I (snd (snd (snd (snd (ssoossh_httpc_post_json net version url body insecure deadline cap w)))))"
proof -
  let ?h1 = "bs ''Content-Type: application/json''" and ?h2 = "bs ''Accept: application/json''"
  have "I (snd (curl_easy_init net w))" using assms by (simp add: wait_keeps)
  from two_headers_keeps [OF assms(1) this, of ?h1 ?h2] show ?thesis
    unfolding ssoossh_httpc_post_json_def Let_def case_prod_beta
    by (auto simp: assms(2) \<open>I (snd (curl_easy_init net w))\<close> split: option.split
        intro!: net_keepsD(11,12,15) [OF assms(1)] progress_keeps [OF assms(1)])
qed

section \<open>The attempt\<close>

text \<open>The other calls an attempt makes; generating a key and freeing it are named apart.\<close>

definition env_keeps :: "('w \<Rightarrow> bool) \<Rightarrow> ('k, 'w) auth_env \<Rightarrow> bool" where
  "env_keeps I env \<longleftrightarrow>
     net_keeps I (ae_net env) \<and>
     (\<forall>w. I w \<longrightarrow>
        I (snd (ae_time env w)) \<and>
        (\<forall>rc conv style text. ae_conv env = (rc, Some conv) \<longrightarrow> I (snd (snd (conv style text w)))) \<and>
        I (snd (EVP_PKEY_CTX_new_id (ae_keys env) w)) \<and> I (snd (EVP_PKEY_keygen_init (ae_keys env) w)) \<and>
        I (snd (EVP_PKEY_CTX_set_p384 (ae_keys env) w)) \<and> I (snd (OPENSSL_zalloc (ae_keys env) w)))"

lemma env_keepsD:
  assumes "env_keeps I env"
  shows "net_keeps I (ae_net env)" "I w \<Longrightarrow> I (snd (ae_time env w))"
    "ae_conv env = (rc, Some conv) \<Longrightarrow> I w \<Longrightarrow> I (snd (snd (conv style text w)))"
    "I w \<Longrightarrow> I (snd (EVP_PKEY_CTX_new_id (ae_keys env) w))"
    "I w \<Longrightarrow> I (snd (EVP_PKEY_keygen_init (ae_keys env) w))"
    "I w \<Longrightarrow> I (snd (EVP_PKEY_CTX_set_p384 (ae_keys env) w))"
    "I w \<Longrightarrow> I (snd (OPENSSL_zalloc (ae_keys env) w))"
  using assms by (simp_all add: env_keeps_def)

lemma keygen_keeps:
  assumes "env_keeps I env" and "I w" and "\<And>v. I v \<Longrightarrow> I (snd (EVP_PKEY_keygen (ae_keys env) v))"
  shows "I (snd (ssoossh_crypto_keygen (ae_keys env) w))"
  unfolding ssoossh_crypto_keygen_def Let_def case_prod_beta
  by (simp add: env_keepsD(4-7) [OF assms(1)] assms(2,3))

lemma server_bound_keeps:
  assumes "env_keeps I env" and "I w"
  shows "I (snd (snd (server_bound env resp deadline w)))"
  unfolding server_bound_def Let_def case_prod_beta
  by (simp add: assms(2) clock_keeps(1) [OF env_keepsD(1) [OF assms(1)]] env_keepsD(2) [OF assms(1)]
      split: option.split bool.split)

lemma show_message_keeps:
  assumes "env_keeps I env" and "I w"
  shows "I (snd (show_message env ctx m w))"
  using assms(2) env_keepsD(3) [OF assms(1)]
  by (cases "ae_conv env") (auto simp: show_message_def ssoossh_conv_def Let_def case_prod_beta
      split: option.split pam_code.split)

lemma auth_prompt_keeps:
  assumes "env_keeps I env" and "I w"
  shows "auth_prompt env cfg ctx console resp w = Inl (rc, l, w') \<Longrightarrow> I w'"
    and "auth_prompt env cfg ctx console resp w = Inr (l, w') \<Longrightarrow> I w'"
  using assms(2) show_message_keeps [OF assms]
  by (auto simp: auth_prompt_def show_browser_prompt_def show_console_prompt_def Let_def case_prod_beta
      split: if_splits option.splits)

lemma auth_create_keeps:
  assumes "env_keeps I env" and "I w"
  shows "auth_create env cfg ctx console body deadline w = Inl (rc, l, w') \<Longrightarrow> I w'"
    and "auth_create env cfg ctx console body deadline w = Inr (url, dl, l, w') \<Longrightarrow> I w'"
proof -
  obtain r resp status logs w1 where p: "ssoossh_httpc_post_json (ae_net env) (ae_version env) (create_url cfg console) body
      (cfg_insecure_skip_verify cfg) deadline SSOOSSH_MAX_RESPONSE w = (r, resp, status, logs, w1)"
    by (metis prod_cases5)
  obtain d l2 w2 where b: "server_bound env resp deadline w1 = (d, l2, w2)" by (metis prod_cases3)
  have 1: "I w1" using post_keeps [OF env_keepsD(1) [OF assms(1)] assms(2)] p by (metis snd_conv)
  then have 2: "I w2" using server_bound_keeps [OF assms(1)] b by (metis snd_conv)
  show "auth_create env cfg ctx console body deadline w = Inl (rc, l, w') \<Longrightarrow> I w'"
    and "auth_create env cfg ctx console body deadline w = Inr (url, dl, l, w') \<Longrightarrow> I w'"
    using 1 2 auth_prompt_keeps [OF assms(1) 2] unfolding auth_create_def p prod.case
    by (auto simp: b split: if_splits prod.splits sum.splits option.splits)
qed

lemma auth_wait_keeps:
  assumes "env_keeps I env" and "I w"
  shows "auth_wait env cfg url deadline w = Some (Inl (rc, l, w')) \<Longrightarrow> I w'"
    and "auth_wait env cfg url deadline w = Some (Inr (line, l, w')) \<Longrightarrow> I w'"
  using events_keeps [where I = I, OF _ env_keepsD(1) [OF assms(1)] assms(2)] unfolding auth_wait_def Let_def
  by (auto split: option.splits prod.splits if_splits sum.splits)

lemma auth_certificate_keeps:
  assumes "env_keeps I env" and "I w" and "auth_certificate env user who cfg cas key line w = (rc, l, w')"
  shows "I w'"
  using assms(2,3) env_keepsD(2) [OF assms(1) assms(2)] unfolding auth_certificate_def auth_checks_def
  by (auto split: sum.splits ssoossh_cert_status.splits prod.splits option.splits if_splits)

lemma auth_exchange_keeps:
  assumes "env_keeps I env" and "I w"
    and "auth_exchange env user who cfg cas ctx console key body deadline w = Some (rc, l, w')"
  shows "I w'"
proof (cases "auth_create env cfg ctx console body deadline w")
  case (Inl out)
  then show ?thesis using assms auth_create_keeps(1) [OF assms(1,2)] by (auto simp: auth_exchange_def)
next
  case (Inr x)
  then obtain url dl l1 w1 where c: "auth_create env cfg ctx console body deadline w = Inr (url, dl, l1, w1)"
    by (metis surj_pair)
  have 1: "I w1" by (rule auth_create_keeps(2) [OF assms(1,2) c])
  obtain out where w: "auth_wait env cfg url dl w1 = Some out"
    using assms(3) by (auto simp: auth_exchange_def c split: option.splits)
  show ?thesis
  proof (cases out)
    case (Inl x)
    then show ?thesis using assms(3) auth_wait_keeps(1) [OF assms(1) 1] w by (cases x) (simp add: auth_exchange_def c)
  next
    case (Inr x)
    obtain line l2 w2 where x: "x = (line, l2, w2)" by (metis surj_pair)
    have "I w2" using auth_wait_keeps(2) [OF assms(1) 1] w Inr x by blast
    from auth_certificate_keeps [OF assms(1) this] show ?thesis
      using assms(3) w by (auto simp: auth_exchange_def c Inr x split: prod.splits)
  qed
qed

text \<open>The world behind the preparation: untouched, or the one key generation leaves.\<close>

lemma auth_prepare_world:
  "auth_prepare env user who cfg cas w = (kp, Inl (rc, l, w')) \<Longrightarrow>
    kp = None \<and> w' = w \<or> ssoossh_crypto_keygen (ae_keys env) w = (kp, w')"
  "auth_prepare env user who cfg cas w = (kp, Inr (ctx, console, key, body, l, w')) \<Longrightarrow>
    ssoossh_crypto_keygen (ae_keys env) w = (kp, w')"
  by (auto simp: auth_prepare_def attempt_key_def Let_def split: if_splits prod.splits option.splits)

text \<open>The attempt from where the handler is armed.\<close>

lemma authenticate_armed:
  assumes "ssoossh_authenticate env user cfg w = Some (rc, logs, w')"
    and "cfg_server cfg \<noteq> []" "cfg_trusted_ca_file cfg \<noteq> []" "ae_calloc_ok env" "auth_load env cfg = Inr (cas, l1)"
    and "auth_prepare env user (ssoossh_log_escape_str user 256) cfg cas w = (kp, Inr (ctx, console, key, body, l2, w1))"
    and "ssoossh_monotonic_ms (ae_net env) w1 = (t, w2)" "auth_arm env (ae_cancel env) w2 = (c, w3)"
  obtains deadline rc0 l0 l w4 where
    "auth_exchange env user (ssoossh_log_escape_str user 256) cfg cas ctx console key body deadline w3 = Some (rc0, l0, w4)"
    "(rc, logs, w') = auth_done env (Some c) kp (rc0, l, w4)"
proof -
  let ?run = "auth_exchange env user (ssoossh_log_escape_str user 256) cfg cas ctx console key body
      (t + timeout_ms (cfg_timeout cfg)) w3"
  obtain rc0 l0 w4 where e: "?run = Some (rc0, l0, w4)"
    using assms by (auto simp: ssoossh_authenticate_def Let_def split: option.splits)
  moreover have "(rc, logs, w') = auth_done env (Some c) kp (rc0, args_line cfg @ l1 @ l2 @ l0, w4)"
    using assms e by (simp add: ssoossh_authenticate_def Let_def)
  ultimately show thesis by (rule that)
qed

text \<open>The ways an attempt ends.\<close>

lemma authenticate_cases [consumes 1, case_names same prepared armed]:
  assumes "ssoossh_authenticate env user cfg w = Some (rc, logs, w')"
  obtains "w' = w"
  | kp rc0 l w1 where "kp = None \<and> w1 = w \<or> ssoossh_crypto_keygen (ae_keys env) w = (kp, w1)"
      "(rc, logs, w') = auth_done env None kp (rc0, l, w1)"
  | kp w1 t w2 c w3 who cas ctx console key body deadline rc0 l0 l w4 where
      "ssoossh_crypto_keygen (ae_keys env) w = (kp, w1)" "ssoossh_monotonic_ms (ae_net env) w1 = (t, w2)"
      "auth_arm env (ae_cancel env) w2 = (c, w3)"
      "auth_exchange env user who cfg cas ctx console key body deadline w3 = Some (rc0, l0, w4)"
      "(rc, logs, w') = auth_done env (Some c) kp (rc0, l, w4)"
proof (cases "cfg_server cfg = [] \<or> cfg_trusted_ca_file cfg = [] \<or> \<not> ae_calloc_ok env \<or> (\<exists>e. auth_load env cfg = Inl e)")
  case True
  then have "w' = w" using assms by (auto simp: ssoossh_authenticate_def Let_def split: if_splits)
  then show thesis by (rule that(1))
next
  case False
  let ?who = "ssoossh_log_escape_str user 256"
  obtain cas l1 where load: "auth_load env cfg = Inr (cas, l1)" using False by (cases "auth_load env cfg") auto
  obtain kp res where prep: "auth_prepare env user ?who cfg cas w = (kp, res)" by fastforce
  show thesis
  proof (cases res)
    case (Inl x)
    obtain rc0 l w1 where x: "x = (rc0, l, w1)" by (metis surj_pair)
    have "(rc, logs, w') = auth_done env None kp (rc0, args_line cfg @ l1 @ l, w1)"
      using assms False by (simp add: ssoossh_authenticate_def Let_def load prep Inl x)
    then show thesis by (rule that(2) [OF auth_prepare_world(1) [OF prep [unfolded Inl x]]])
  next
    case (Inr x)
    obtain ctx console key body l2 w1 where x: "x = (ctx, console, key, body, l2, w1)" by (metis surj_pair)
    obtain t w2 where t: "ssoossh_monotonic_ms (ae_net env) w1 = (t, w2)" by fastforce
    obtain c w3 where a: "auth_arm env (ae_cancel env) w2 = (c, w3)" by fastforce
    have cfg: "cfg_server cfg \<noteq> []" "cfg_trusted_ca_file cfg \<noteq> []" "ae_calloc_ok env" using False by auto
    note prepared = prep [unfolded Inr x]
    obtain deadline rc0 l0 l w4 where e:
        "auth_exchange env user ?who cfg cas ctx console key body deadline w3 = Some (rc0, l0, w4)"
        "(rc, logs, w') = auth_done env (Some c) kp (rc0, l, w4)"
      by (rule authenticate_armed [OF assms cfg load prepared t a])
    show thesis by (rule that(3) [OF auth_prepare_world(2) [OF prepared] t a e])
  qed
qed

lemma pam_runs:
  assumes "pam_sm_authenticate env built_for curl_info get_user argc argv w = Some (rc, logs, w')"
  shows "w' = w \<or> w' = snd (get_user w) \<or>
    (\<exists>user cfg l. ssoossh_authenticate env user cfg (snd (get_user w)) = Some (rc, l, w'))"
proof -
  obtain status cfg bad l1 where parse: "ssoossh_args_parse ssoossh_console_flow_supported
      (take argc (case argv of None \<Rightarrow> [] | Some args \<Rightarrow> args)) = (status, cfg, bad, l1)"
    by (metis prod_cases4)
  obtain urc user v where u: "get_user w = ((urc, user), v)" by (metis surj_pair)
  show ?thesis using assms unfolding pam_sm_authenticate_def Let_def parse
    by (cases status) (auto simp: u split: if_splits)
qed

section \<open>What a success rests on\<close>

text \<open>
  A world an attempt may reach from another: one in every set of worlds that has the first and that no
  call of the module leads out of.
\<close>

definition reaches :: "('k, 'w) auth_env \<Rightarrow> 'w \<Rightarrow> 'w \<Rightarrow> bool" where
  "reaches env v y \<longleftrightarrow>
     (\<forall>I. env_keeps I env \<longrightarrow> (\<forall>w s. I w \<longrightarrow> I (net_set_sigint (ae_net env) s w)) \<longrightarrow> I v \<longrightarrow> I y)"

lemma arm_keeps:
  assumes "\<forall>w s. I w \<longrightarrow> I (net_set_sigint (ae_net env) s w)" and "I w" and "auth_arm env c w = (c', w')"
  shows "I w'"
  using assms by (auto simp: auth_arm_def split: prod.splits)

lemma authenticate_entitled:
  assumes "ssoossh_authenticate env user cfg w = Some (PAM_SUCCESS, logs, w')"
  obtains kp v point key url dl u line l y cert now y' where
    "ssoossh_crypto_keygen (ae_keys env) w = (Some kp, v)" "ssoossh_crypto_public_point (ae_keys env) kp 256 = Some point"
    "ssoossh_sshkey_blob_p384 point SSOOSSH_MAX_KEY_BLOB = Some key" "reaches env v u"
    "auth_wait env cfg url dl u = Some (Inr (line, l, y))" "ssoossh_cert_parse_line line SSOOSSH_MAX_CERT = Inr cert"
    "ae_time env y = (now, y')" "entitled env cfg user key now cert"
proof -
  obtain cas l1 kp ctx console key body l2 w1 t w2 c w3 dl0 l3 w4 where
    load: "auth_load env cfg = Inr (cas, l1)" and
    prep: "auth_prepare env user (ssoossh_log_escape_str user 256) cfg cas w = (kp, Inr (ctx, console, key, body, l2, w1))" and
    time: "ssoossh_monotonic_ms (ae_net env) w1 = (t, w2)" and arm: "auth_arm env (ae_cancel env) w2 = (c, w3)" and
    exch: "auth_exchange env user (ssoossh_log_escape_str user 256) cfg cas ctx console key body dl0 w3 = Some (PAM_SUCCESS, l3, w4)"
    by (rule authenticate_success_stages [OF assms])
  obtain url dl l4 u line l y cert now y' where
    create: "auth_create env cfg ctx console body dl0 w3 = Inr (url, dl, l4, u)" and
    rest: "auth_wait env cfg url dl u = Some (Inr (line, l, y))" "ssoossh_cert_parse_line line SSOOSSH_MAX_CERT = Inr cert"
      "ae_time env y = (now, y')" "entitled env cfg user key now cert"
    by (rule auth_exchange_success [OF load exch])
  obtain pair point where key: "ssoossh_crypto_keygen (ae_keys env) w = (Some pair, w1)"
      "ssoossh_crypto_public_point (ae_keys env) pair 256 = Some point" "ssoossh_sshkey_blob_p384 point SSOOSSH_MAX_KEY_BLOB = Some key"
    using auth_prepare_key [OF prep] by blast
  have "reaches env w1 u" unfolding reaches_def
  proof (intro allI impI)
    fix I assume k: "env_keeps I env" and put: "\<forall>w s. I w \<longrightarrow> I (net_set_sigint (ae_net env) s w)" and "I w1"
    have "I w2" using clock_keeps(1) [OF env_keepsD(1) [OF k] \<open>I w1\<close>] time by (metis snd_conv)
    from auth_create_keeps(2) [OF k arm_keeps [OF put this arm] create] show "I u" .
  qed
  then show thesis by (rule that [OF key _ rest])
qed

section \<open>SIGINT\<close>

definition only_arrivals :: "nat signals \<Rightarrow> nat signals \<Rightarrow> bool" where
  "only_arrivals s s' \<longleftrightarrow> (\<exists>n. s' = (arrive ^^ n) s)"

lemma only_arrivals_refl [simp]: "only_arrivals s s"
  unfolding only_arrivals_def by (rule exI [of _ 0]) simp

lemma only_arrivals_trans:
  assumes "only_arrivals s s'" and "only_arrivals s' s''"
  shows "only_arrivals s s''"
proof -
  obtain m n where "s' = (arrive ^^ m) s" "s'' = (arrive ^^ n) s'" using assms by (auto simp: only_arrivals_def)
  then have "s'' = (arrive ^^ (n + m)) s" by (simp add: funpow_add)
  then show ?thesis by (auto simp: only_arrivals_def)
qed

text \<open>A signal the host's own handler takes does not touch the module's flag.\<close>

lemma arrivals_host:
  assumes "only_arrivals s s'" and "sig_action s = Host_disposition h"
  shows "interrupted s' = interrupted s"
proof -
  have "sig_action ((arrive ^^ n) s) = Host_disposition h \<and> interrupted ((arrive ^^ n) s) = interrupted s" for n
    using assms(2) by (induction n) (simp_all add: arrive_def sig_deliver_def)
  then show ?thesis using assms(1) by (auto simp: only_arrivals_def)
qed

lemma arrivals_steps: "only_arrivals s s' \<Longrightarrow> cancel_step\<^sup>*\<^sup>* (p, s, c) (p, s', c)"
proof -
  have "cancel_step\<^sup>*\<^sup>* (p, s, c) (p, (arrive ^^ n) s, c)" for n
    by (induction n) (auto intro: rtranclp.rtrancl_into_rtrancl sigint)
  then show "only_arrivals s s' \<Longrightarrow> ?thesis" by (auto simp: only_arrivals_def)
qed

lemma arrivals_inv: "cancel_inv s0 (p, s, c) \<Longrightarrow> only_arrivals s s' \<Longrightarrow> cancel_inv s0 (p, s', c)"
  using cancel_reach_inv arrivals_steps by blast

text \<open>
  What POSIX and the libraries promise of SIGINT: what is set is read back, and between the module's own
  calls nothing happens to it but signals.
\<close>

definition sigint_lawful :: "('k, 'w) auth_env \<Rightarrow> ('w \<Rightarrow> 'u \<times> 'w) \<Rightarrow> bool" where
  "sigint_lawful env get_user \<longleftrightarrow>
     (\<forall>s w. net_sigint (ae_net env) (net_set_sigint (ae_net env) s w) = s) \<and>
     (\<forall>s. env_keeps (\<lambda>v. only_arrivals s (net_sigint (ae_net env) v)) env) \<and>
     (\<forall>s w. only_arrivals s (net_sigint (ae_net env) w) \<longrightarrow>
        only_arrivals s (net_sigint (ae_net env) (snd (get_user w))) \<and>
        only_arrivals s (net_sigint (ae_net env) (snd (EVP_PKEY_keygen (ae_keys env) w))) \<and>
        (\<forall>k. only_arrivals s (net_sigint (ae_net env) (EVP_PKEY_free (ae_keys env) k w))))"

lemma free_arrivals:
  "sigint_lawful env get_user \<Longrightarrow>
    only_arrivals (net_sigint (ae_net env) w) (net_sigint (ae_net env) (ssoossh_crypto_keypair_free (ae_keys env) kp w))"
  using only_arrivals_refl by (auto simp: sigint_lawful_def ssoossh_crypto_keypair_free_def split: option.split)

text \<open>The armed part of an attempt is a run of the machine of src/cancel.c.\<close>

lemma armed_steps:
  assumes law: "sigint_lawful env get_user"
    and arm: "auth_arm env c0 w = (c, w1)"
    and wait: "only_arrivals (net_sigint (ae_net env) w1) (net_sigint (ae_net env) w2)"
    and out: "auth_disarm env c (rc0, l, w2) = (rc, logs, w3)"
  shows "\<exists>c'. cancel_step\<^sup>*\<^sup>* (Before, net_sigint (ae_net env) w, c0) (After, net_sigint (ae_net env) w3, c') \<and>
    (rc \<noteq> PAM_SUCCESS \<longrightarrow> interrupted (net_sigint (ae_net env) w3) \<longrightarrow> rc = PAM_IGNORE)"
proof -
  let ?sig = "net_sigint (ae_net env)"
  have put: "?sig (net_set_sigint (ae_net env) s v) = s" for s v
    using law by (simp add: sigint_lawful_def)
  have reads: "only_arrivals s (?sig v) \<Longrightarrow> only_arrivals s (?sig (net_signals (ae_net env) v))" for s v
  proof -
    have "env_keeps (\<lambda>v. only_arrivals s (?sig v)) env" using law by (simp add: sigint_lawful_def)
    from net_keepsD(2) [OF env_keepsD(1) [OF this]] show "only_arrivals s (?sig v) \<Longrightarrow> ?thesis" .
  qed
  have 1: "(?sig w1, c) = arm_unblock (ae_sigmask_ok env) (arm_install (ae_sigaction_ok env) (arm_clear (?sig w, c0)))"
    using arm put by (auto simp: auth_arm_def ssoossh_cancel_arm_def split: prod.splits)
  have "cancel_step\<^sup>*\<^sup>* (Before, ?sig w, c0) (Waiting, ?sig w1, c)"
    unfolding 1 by (meson clear install unblock rtranclp.rtrancl_into_rtrancl rtranclp.rtrancl_refl)
  then have 2: "cancel_step\<^sup>*\<^sup>* (Before, ?sig w, c0) (Waiting, ?sig w2, c)"
    using arrivals_steps [OF wait] by (rule rtranclp_trans)
  obtain s4 c4 where d: "disarm_restore (disarm_block (?sig w2, c)) = (s4, c4)" by fastforce
  have "cancel_step\<^sup>*\<^sup>* (Waiting, ?sig w2, c) (After, disarm_restore (disarm_block (?sig w2, c)))"
    by (meson block restore rtranclp.rtrancl_into_rtrancl rtranclp.rtrancl_refl)
  with 2 have 3: "cancel_step\<^sup>*\<^sup>* (Before, ?sig w, c0) (After, s4, c4)" unfolding d by (rule rtranclp_trans)
  let ?w4 = "net_set_sigint (ae_net env) s4 w2"
  have out': "(if rc0 \<noteq> PAM_SUCCESS then
       let v = net_signals (ae_net env) ?w4 in
       if interrupted (?sig v) then (PAM_IGNORE, logs, v) else (rc0, logs, v) else (rc0, logs, ?w4)) = (rc, logs, w3)"
    using out
    by (auto simp: auth_disarm_def ssoossh_cancel_disarm_def d Let_def net_fired_def ssoossh_cancel_fired_def
        split: if_splits)
  have "only_arrivals s4 (?sig w3)"
    using out' reads [of s4 ?w4] put by (auto simp: Let_def split: if_splits)
  from arrivals_steps [OF this] 3 have "cancel_step\<^sup>*\<^sup>* (Before, ?sig w, c0) (After, ?sig w3, c4)"
    by (meson rtranclp_trans)
  moreover have "rc \<noteq> PAM_SUCCESS \<longrightarrow> interrupted (?sig w3) \<longrightarrow> rc = PAM_IGNORE"
    using out' by (auto simp: Let_def split: if_splits)
  ultimately show ?thesis by blast
qed

lemma authenticate_sigint:
  assumes law: "sigint_lawful env get_user"
    and run: "ssoossh_authenticate env user cfg w = Some (rc, logs, w')"
  shows "only_arrivals (net_sigint (ae_net env) w) (net_sigint (ae_net env) w') \<or>
    (\<exists>s c. cancel_step\<^sup>*\<^sup>* (Before, net_sigint (ae_net env) w, ae_cancel env) (After, s, c) \<and>
       only_arrivals s (net_sigint (ae_net env) w') \<and> (rc \<noteq> PAM_SUCCESS \<longrightarrow> interrupted s \<longrightarrow> rc = PAM_IGNORE))"
proof -
  let ?sig = "net_sigint (ae_net env)"
  have k: "env_keeps (\<lambda>v. only_arrivals s (?sig v)) env" for s using law by (simp add: sigint_lawful_def)
  have gen: "only_arrivals (?sig w) (?sig w1)" if "ssoossh_crypto_keygen (ae_keys env) w = (kp, w1)" for kp w1
  proof -
    have "only_arrivals (?sig w) (?sig (snd (ssoossh_crypto_keygen (ae_keys env) w)))"
      by (rule keygen_keeps [OF k]) (use law in \<open>auto simp: sigint_lawful_def\<close>)
    then show ?thesis using that by simp
  qed
  from run show ?thesis
  proof (cases rule: authenticate_cases)
    case (prepared kp rc0 l w1)
    have "only_arrivals (?sig w) (?sig w1)" using prepared(1) gen by auto
    moreover have "w' = ssoossh_crypto_keypair_free (ae_keys env) kp w1" using prepared(2) by (simp add: auth_done_def)
    ultimately show ?thesis using free_arrivals [OF law, of w1 kp] only_arrivals_trans by blast
  next
    case (armed kp w1 t w2 c w3 who cas ctx console key body deadline rc0 l0 l w4)
    have "only_arrivals (?sig w1) (?sig w2)" using clock_keeps(1) [OF env_keepsD(1) [OF k], of "?sig w1" w1] armed(2) by simp
    then have 1: "only_arrivals (?sig w) (?sig w2)" using gen [OF armed(1)] only_arrivals_trans by blast
    have 2: "only_arrivals (?sig w3) (?sig w4)" using auth_exchange_keeps [OF k _ armed(4), of "?sig w3"] by simp
    obtain rc' logs' w5 where d: "auth_disarm env c (rc0, l, w4) = (rc', logs', w5)" by (metis prod_cases3)
    have out: "rc = rc'" "w' = ssoossh_crypto_keypair_free (ae_keys env) kp w5"
      using armed(5) d by (simp_all add: auth_done_def)
    obtain c' where 3: "cancel_step\<^sup>*\<^sup>* (Before, ?sig w2, ae_cancel env) (After, ?sig w5, c')"
        "rc' \<noteq> PAM_SUCCESS \<longrightarrow> interrupted (?sig w5) \<longrightarrow> rc' = PAM_IGNORE"
      using armed_steps [OF law armed(3) 2 d] by blast
    have "cancel_step\<^sup>*\<^sup>* (Before, ?sig w, ae_cancel env) (After, ?sig w5, c')"
      using arrivals_steps [OF 1] 3(1) by (rule rtranclp_trans)
    then show ?thesis using 3(2) free_arrivals [OF law, of w5 kp] unfolding out by blast
  qed simp
qed

lemma pam_sigint:
  assumes law: "sigint_lawful env get_user"
    and run: "pam_sm_authenticate env built_for curl_info get_user argc argv w = Some (rc, logs, w')"
  shows "only_arrivals (net_sigint (ae_net env) w) (net_sigint (ae_net env) w') \<or>
    (\<exists>s c. cancel_step\<^sup>*\<^sup>* (Before, net_sigint (ae_net env) w, ae_cancel env) (After, s, c) \<and>
       only_arrivals s (net_sigint (ae_net env) w') \<and> (rc \<noteq> PAM_SUCCESS \<longrightarrow> interrupted s \<longrightarrow> rc = PAM_IGNORE))"
proof -
  let ?v = "snd (get_user w)"
  have asked: "only_arrivals (net_sigint (ae_net env) w) (net_sigint (ae_net env) ?v)"
    using law by (simp add: sigint_lawful_def)
  from pam_runs [OF run] consider "w' = w" | "w' = ?v"
    | user cfg l where "ssoossh_authenticate env user cfg ?v = Some (rc, l, w')" by blast
  then show ?thesis
  proof cases
    case 3
    from authenticate_sigint [OF law 3] show ?thesis
      using only_arrivals_trans [OF asked] rtranclp_trans [OF arrivals_steps [OF asked]] by blast
  qed (use asked in simp_all)
qed


text \<open>
  C14: pressing Ctrl-C is not a refusal.  If the module's flag is up when a login of a host with a
  handler of its own is over, and it was not before, the module reports success, the approval having
  come first, or stands aside; it never reports a failure the stack would act on.
\<close>

theorem interrupted_login_stands_aside:
  assumes "sigint_lawful env get_user"
    and "pam_sm_authenticate env built_for curl_info get_user argc argv w = Some (rc, logs, w')"
    and "s0 = net_sigint (ae_net env) w" and "sig_pending s0 \<Longrightarrow> sig_blocked s0"
    and "sig_action s0 = Host_disposition h" and "\<not> interrupted s0" and "interrupted (net_sigint (ae_net env) w')"
  shows "rc = PAM_SUCCESS \<or> rc = PAM_IGNORE"
proof -
  have start: "cancel_inv s0 (Before, s0, c)" for c using assms(4) by (simp add: cancel_inv_def)
  have "\<not> only_arrivals s0 (net_sigint (ae_net env) w')" using arrivals_host assms(5-7) by blast
  then obtain s c where run: "cancel_step\<^sup>*\<^sup>* (Before, s0, ae_cancel env) (After, s, c)"
      "only_arrivals s (net_sigint (ae_net env) w')" and rc: "rc \<noteq> PAM_SUCCESS \<longrightarrow> interrupted s \<longrightarrow> rc = PAM_IGNORE"
    using pam_sigint [OF assms(1,2)] unfolding assms(3) [symmetric] by blast
  have "cancel_inv s0 (After, s, c)" by (rule cancel_reach_inv [OF run(1) start])
  then have "sig_action s = Host_disposition h" using assms(5) by (simp add: cancel_inv_def)
  then have "interrupted s" using arrivals_host [OF run(2)] assms(7) by simp
  then show ?thesis using rc by blast
qed

section \<open>Private keys\<close>

text \<open>
  The private keys in memory, as src/crypto.h's side of it has them: only generating and freeing a pair
  touches them, nothing else the module calls.
\<close>

definition keys_lawful :: "('k, 'w) auth_env \<Rightarrow> ('w \<Rightarrow> 'u \<times> 'w) \<Rightarrow> ('w \<Rightarrow> 'k multiset) \<Rightarrow> bool" where
  "keys_lawful env get_user held \<longleftrightarrow>
     evp_lawful (ae_keys env) held \<and> (\<forall>K. env_keeps (\<lambda>v. held v = K) env) \<and>
     (\<forall>w. held (snd (get_user w)) = held w) \<and>
     (\<forall>s w. held (net_set_sigint (ae_net env) s w) = held w)"

lemma armed_held:
  assumes "keys_lawful env get_user held"
  shows "auth_arm env c0 w = (c, w') \<Longrightarrow> held w' = held w"
    and "auth_disarm env c (rc0, l, w) = (rc, logs, w') \<Longrightarrow> held w' = held w"
proof -
  have put: "held (net_set_sigint (ae_net env) s v) = held v" for s v
    using assms by (simp add: keys_lawful_def)
  have k: "env_keeps (\<lambda>v. held v = K) env" for K using assms by (simp add: keys_lawful_def)
  have read: "held (net_signals (ae_net env) v) = held v" for v
    by (rule net_keepsD(2) [OF env_keepsD(1) [OF k] refl])
  show "auth_arm env c0 w = (c, w') \<Longrightarrow> held w' = held w"
    by (auto simp: auth_arm_def put split: prod.splits)
  show "auth_disarm env c (rc0, l, w) = (rc, logs, w') \<Longrightarrow> held w' = held w"
    by (auto simp: auth_disarm_def Let_def net_fired_def put read split: if_splits)
qed

lemma authenticate_held:
  assumes law: "keys_lawful env get_user held"
    and run: "ssoossh_authenticate env user cfg w = Some (rc, logs, w')"
  shows "held w' = held w"
proof -
  have k: "env_keeps (\<lambda>v. held v = K) env" for K using law by (simp add: keys_lawful_def)
  note freed = openssl_keypair.nothing_left [where lib = "ae_keys env" and held = held]
  have evp: "evp_lawful (ae_keys env) held" using law by (simp add: keys_lawful_def)
  from run show ?thesis
  proof (cases rule: authenticate_cases)
    case (prepared kp rc0 l w1)
    then have "w' = ssoossh_crypto_keypair_free (ae_keys env) kp w1" by (simp add: auth_done_def)
    then show ?thesis using prepared(1) freed [OF evp _ refl] by (auto simp: openssl_keypair.free_null)
  next
    case (armed kp w1 t w2 c w3 who cas ctx console key body deadline rc0 l0 l w4)
    obtain rc' logs' w5 where d: "auth_disarm env c (rc0, l, w4) = (rc', logs', w5)" by (metis prod_cases3)
    have "held w2 = held w1" using clock_keeps(1) [OF env_keepsD(1) [OF k] refl, of w1] armed(2) by simp
    moreover have "held w3 = held w2" "held w5 = held w4" using armed_held [OF law] armed(3) d by simp_all
    moreover have "held w4 = held w3" by (rule auth_exchange_keeps [OF k refl armed(4)])
    moreover have "w' = ssoossh_crypto_keypair_free (ae_keys env) kp w5" using armed(5) d by (simp add: auth_done_def)
    ultimately show ?thesis using freed [OF evp armed(1), of w5] by simp
  qed simp
qed

text \<open>
  C15: no private key is left behind.  However a login ends, refused, interrupted, failed half way or
  approved, the keys in the memory of the process are afterwards the ones that were there before: the
  attempt's own has been freed, and nothing else has.
\<close>

theorem login_frees_key:
  assumes "keys_lawful env get_user held"
    and "pam_sm_authenticate env built_for curl_info get_user argc argv w = Some (rc, logs, w')"
  shows "held w' = held w"
proof -
  have "held (snd (get_user w)) = held w" using assms(1) by (simp add: keys_lawful_def)
  then show ?thesis using pam_runs [OF assms(2)] authenticate_held [OF assms(1)] by metis
qed

end
