(* ===== verification/Login.thy ===== *)
theory Login
  imports Honest_Server Effects
begin

text \<open>
  The module as libpam meets it: who is let in, that a login ends, and that an approved one succeeds.
  The first part is one login in full, from the bytes of the CA file to the certificate, on a host, an
  OpenSSL and a server that are concrete functions; the theorems are applied to it at the end.
\<close>

section \<open>A login, in full\<close>

text \<open>The certificate authority, its line in the CA file, and the key of the attempt.\<close>

definition login_ca :: bytes where
  "login_ca = put_str (bs ''ssh-rsa'') @ put_str [1, 0, 1] @ put_str [5]"

definition login_ca_file :: bytes where
  "login_ca_file = bs ''ssh-rsa'' @ [0x20] @ b64_encode_loop login_ca"

definition login_key :: bytes where
  "login_key = put_str p384_name @ put_str (curve_name CURVE_P384) @ put_str [4, 1, 2]"

definition login_key_line :: bytes where
  "login_key_line = p384_name @ [0x20] @ b64_encode_loop login_key @ [0x0a]"

lemma p384_bytes: "p384_name = bs ''ecdsa-sha2-nistp384''" "curve_name CURVE_P384 = bs ''nistp384''"
  by (simp_all add: p384_name_def curve_name_def)

lemma login_key_blob: "ssoossh_sshkey_blob_p384 [4, 1, 2] SSOOSSH_MAX_KEY_BLOB = Some login_key"
  unfolding blob_p384_Some login_key_def by (simp add: p384_bytes SSOOSSH_MAX_KEY_BLOB_def)

lemma login_lengths: "length login_key = 42" "length login_ca = 23"
  by (simp_all add: login_key_def login_ca_def p384_bytes)

lemma login_key_authorized: "ssoossh_sshkey_authorized_line login_key SSOOSSH_MAX_KEY_LINE = Some login_key_line"
proof -
  have "blob_algo login_key 64 = Some p384_name"
    unfolding blob_algo_Some login_key_def
    by (intro exI [of _ p384_name] exI [of _ "put_str (curve_name CURVE_P384) @ put_str [4, 1, 2]"])
      (use p384_name in \<open>simp add: p384_bytes\<close>)
  then show ?thesis
    unfolding authorized_line_Some login_key_line_def
    by (simp add: length_b64_encode login_lengths p384_name SSOOSSH_MAX_KEY_LINE_def)
qed

lemma login_ca_entry: "ca_entry login_ca_file = LineKey login_ca (bs ''ssh-rsa'')"
proof -
  define t where "t = bs ''ssh-rsa''"
  have w: "c_str t = t" "word_of t" "hd t \<noteq> ch (CHR ''#'')" "length t = 7" "t \<noteq> []"
    by (simp_all add: t_def c_str_def word_of_def is_space_def)
  have "login_ca = put_str t @ (put_str [1, 0, 1] @ put_str [5])" by (simp only: login_ca_def t_def)
  then have algo: "blob_algo login_ca 64 = Some t"
    unfolding blob_algo_Some using w(1,4,5)
    by (intro exI [of _ t] exI [of _ "put_str [1, 0, 1] @ put_str [5]"]) (simp del: put_str_eq)
  have "login_ca \<noteq> []" using login_lengths(2) by auto
  note b64 = b64_word [OF this]
  have "ssoossh_sshkey_parse_line (t @ [0x20] @ b64_encode_loop login_ca) SSOOSSH_MAX_KEY_BLOB 64 = LineKey login_ca t"
    unfolding parse_line_shape
    by (rule exI [of _ "[]"], rule exI [of _ t], rule exI [of _ "[0x20]"], rule exI [of _ "b64_encode_loop login_ca"],
        rule exI [of _ "[]"])
      (use w algo b64 in \<open>simp add: spaces_def ends_word_def is_space_def SSOOSSH_MAX_KEY_BLOB_def login_lengths\<close>)
  then show ?thesis unfolding ca_entry_def login_ca_file_def t_def .
qed

lemma login_ca_lines: "split_lines login_ca_file = [login_ca_file]"
proof -
  have "\<forall>c \<in> set (b64_encode_loop login_ca). c \<noteq> 0x0a"
    using b64_encode_chars [of login_ca] by (auto simp: alphabet_def)
  then have "\<forall>c \<in> set login_ca_file. c \<noteq> 0x0a" by (simp add: login_ca_file_def)
  then have "takeWhile (\<lambda>c. c \<noteq> 0x0a) login_ca_file = login_ca_file" "dropWhile (\<lambda>c. c \<noteq> 0x0a) login_ca_file = []"
    by (simp_all add: takeWhile_eq_all_conv dropWhile_eq_Nil_conv)
  then show ?thesis by (subst split_on.simps) simp
qed

section \<open>The certificate\<close>

definition login_tbs :: bytes where
  "login_tbs = signed_bytes (p384_name @ CERT_SUFFIX) [] [curve_name CURVE_P384, [4, 1, 2]] 7
     (tail_bytes (bs ''id'') [bs ''alice''] 100 200 [[], [], []] login_ca)"

definition login_blob :: bytes where
  "login_blob = login_tbs @ put_str (put_str (bs ''rsa-sha2-512'') @ put_str [9])"

definition login_cert :: ssoossh_cert where
  "login_cert = mk_cert (p384_name @ CERT_SUFFIX) login_key 7 1 (bs ''id'') [bs ''alice''] 100 200 login_ca
     (bs ''rsa-sha2-512'') [9] (length login_tbs) login_blob"

definition login_cert_line :: bytes where
  "login_cert_line = p384_name @ CERT_SUFFIX @ [0x20] @ b64_encode_loop login_blob"

lemma login_blob_length: "length login_blob < 500" "login_blob \<noteq> []"
  by (simp_all add: login_blob_def login_tbs_def signed_bytes_def tail_bytes_def login_lengths p384_bytes CERT_SUFFIX_def)

lemma login_cert_parses: "ssoossh_cert_parse login_blob = Inr login_cert"
proof -
  let ?t = "p384_name @ CERT_SUFFIX"
  have c: "c_str ?t = ?t" "c_str (bs ''rsa-sha2-512'') = bs ''rsa-sha2-512''"
    by (simp_all add: c_str_def p384_bytes CERT_SUFFIX_def)
  have "base_algo ?t 64 = Some p384_name"
    unfolding base_algo_Some by (simp add: p384_bytes)
  then have h: "head_ok ?t p384_name [] [curve_name CURVE_P384, [4, 1, 2]]"
    using c(1) by (simp add: head_ok_def key_field_count_def SSOOSSH_MAX_KEY_BLOB_def p384_bytes CERT_SUFFIX_def)
  have ok: "tail_ok (bs ''id'') [bs ''alice''] [[], [], []] login_ca (bs ''rsa-sha2-512'') [9]"
    by (simp add: tail_ok_def SSOOSSH_MAX_PRINCIPALS_def login_lengths)
  have len: "length login_blob \<le> SSOOSSH_MAX_CERT" using login_blob_length by (simp add: SSOOSSH_MAX_CERT_def)
  show ?thesis
    unfolding cert_parse_grammar
    by (rule exI [of _ ?t], rule exI [of _ p384_name], rule exI [of _ "[]"],
        rule exI [of _ "[curve_name CURVE_P384, [4, 1, 2]]"], rule exI [of _ 7], rule exI [of _ "bs ''id''"],
        rule exI [of _ "[bs ''alice'']"], rule exI [of _ 100], rule exI [of _ 200],
        rule exI [of _ "[[], [], []]"], rule exI [of _ login_ca], rule exI [of _ "bs ''rsa-sha2-512''"],
        rule exI [of _ "[9]"], rule exI [of _ login_tbs], intro conjI, rule h, rule ok, rule login_tbs_def,
        rule login_blob_def, rule len,
        simp only: login_cert_def login_key_def c put_strs_simps append_Nil2)
qed

lemma login_cert_line_parses: "ssoossh_cert_parse_line login_cert_line SSOOSSH_MAX_CERT = Inr login_cert"
proof -
  let ?t = "p384_name @ CERT_SUFFIX"
  let ?rest = "put_str [] @ put_strs [curve_name CURVE_P384, [4, 1, 2]] @ u64_bytes 7 @ u32_bytes 1 @
      tail_bytes (bs ''id'') [bs ''alice''] 100 200 [[], [], []] login_ca @
      put_str (put_str (bs ''rsa-sha2-512'') @ put_str [9])"
  have w: "c_str ?t = ?t" "word_of ?t" "hd ?t \<noteq> ch (CHR ''#'')" "length ?t < 64" "?t \<noteq> []"
    by (simp_all add: c_str_def p384_bytes CERT_SUFFIX_def word_of_def is_space_def)
  have "login_blob = put_str ?t @ ?rest" by (simp add: login_blob_def login_tbs_def signed_bytes_def)
  then have algo: "blob_algo login_blob 64 = Some ?t"
    unfolding blob_algo_Some using w(1,4,5) by (intro exI [of _ ?t] exI [of _ ?rest]) simp
  have "ssoossh_sshkey_parse_line login_cert_line SSOOSSH_MAX_CERT 64 = LineKey login_blob ?t"
    unfolding parse_line_shape login_cert_line_def
    by (rule exI [of _ "[]"], rule exI [of _ ?t], rule exI [of _ "[0x20]"], rule exI [of _ "b64_encode_loop login_blob"],
        rule exI [of _ "[]"])
      (use w algo b64_word [of login_blob] login_blob_length in
        \<open>simp add: spaces_def ends_word_def is_space_def SSOOSSH_MAX_CERT_def\<close>)
  then show ?thesis by (simp add: ssoossh_cert_parse_line_def login_cert_parses)
qed


section \<open>The host and the server\<close>

text \<open>
  An OpenSSL that takes every key and accepts one signature, the host around the attempt, and a server
  that creates the request and then approves it.
\<close>

definition login_ossl :: "bytes openssl" where
  "login_ossl =
     \<lparr> OpenSSL_version = [], proc_fips_enabled = None, EVP_default_properties_is_fips_enabled = 0, d2i_PUBKEY = Inr, EVP_MD_CTX_new = True,
       EVP_DigestVerifyInit = (\<lambda>key md. Inr ()),
       EVP_DigestVerify = (\<lambda>key md sig msg. (if sig = [9] then 1 else 0, None)), EVP_Digest_sha256 = (\<lambda>x. None) \<rparr>"

definition login_create :: jv where
  "login_create = JObj [(bs ''data'', JObj [(bs ''events_url'', JStr (bs ''/e'')), (bs ''approval_url'', JStr (bs ''/a''))])]"

definition login_issue :: jv where
  "login_issue = JObj [(bs ''data'', JObj [(bs ''certificate'', JStr login_cert_line)])]"

definition login_env :: "(bytes, bytes host_world) auth_env" where
  "login_env =
     \<lparr> ae_version = [], ae_calloc_ok = True, ae_sse_calloc_ok = True, ae_malloc_ok = True, ae_ossl = login_ossl,
       ae_read_file = (\<lambda>path. FileData login_ca_file), ae_getenv = (\<lambda>name. None), ae_proc_stat = (\<lambda>pid. None),
       ae_uid = 0, ae_pid = 2, ae_ppid = 1, ae_get_item = (\<lambda>item. (PAM_SUCCESS, None)), ae_hostname = None,
       ae_conv = (PAM_SUCCESS, Some (\<lambda>style text w. (PAM_SUCCESS, None, w))),
       ae_keys = \<lparr>EVP_PKEY_CTX_new_id = (\<lambda>w. (True, w)), EVP_PKEY_keygen_init = (\<lambda>w. (1, w)),
         EVP_PKEY_CTX_set_p384 = (\<lambda>w. (1, w)), OPENSSL_zalloc = (\<lambda>w. (True, w)),
         EVP_PKEY_keygen = (\<lambda>w. ((1, [4, 1, 2]), w\<lparr>hw_keys := [4, 1, 2] # hw_keys w\<rparr>)),
         EVP_PKEY_encoded_pub_key = (\<lambda>key cap. (1, key)),
         EVP_PKEY_free = (\<lambda>key w. w\<lparr>hw_keys := remove1 key (hw_keys w)\<rparr>)\<rparr>,
       ae_encodeText = (\<lambda>text. None), ae_inet_ntop = (\<lambda>a. None),
       ae_getifaddrs = None,
       ae_host = \<lparr>env_cmdline = None, env_machine_id = None, env_os_release = None, env_uname = None, env_time = 0\<rparr>,
       ae_time = (\<lambda>w. (150, w)), ae_sigaction_ok = True, ae_sigmask_ok = True, ae_cancel = \<lparr>cc_previous = Host_disposition 0, cc_installed = False, cc_was_blocked = False\<rparr>,
       ae_net = scripted (render login_create @ [0x0a])
         (concat (map item_text [Event (bs ''approved'') [render login_issue]])) \<rparr>"

definition login_argv :: "bytes option list" where
  "login_argv = [Some (bs ''server=s.example''), Some (bs ''trusted-ca-file=/ca'')]"

definition login_cfg :: ssoossh_config where
  "login_cfg = default_config\<lparr>cfg_server := bs ''https://s.example'', cfg_trusted_ca_file := bs ''/ca''\<rparr>"

lemma login_env_fields [simp]:
  "ae_version login_env = []" "ae_calloc_ok login_env" "ae_sse_calloc_ok login_env" "ae_malloc_ok login_env"
  "ae_ossl login_env = login_ossl" "ae_read_file login_env path = FileData login_ca_file"
  "ae_getenv login_env name = None" "ae_proc_stat login_env pid = None"
  "ae_uid login_env = 0" "ae_pid login_env = 2" "ae_ppid login_env = 1"
  "ae_get_item login_env item = (PAM_SUCCESS, None)" "ae_hostname login_env = None"
  "ae_conv login_env = (PAM_SUCCESS, Some (\<lambda>style text w. (PAM_SUCCESS, None, w)))"
  "ssoossh_crypto_keygen (ae_keys login_env) w = (Some [4, 1, 2], w\<lparr>hw_keys := [4, 1, 2] # hw_keys w\<rparr>)"
  "ssoossh_crypto_public_point (ae_keys login_env) kp cap = Some kp"
  "ssoossh_crypto_keypair_free (ae_keys login_env) (Some kp) w = w\<lparr>hw_keys := remove1 kp (hw_keys w)\<rparr>"
  "ae_getifaddrs login_env = None"
  "ae_host login_env = \<lparr>env_cmdline = None, env_machine_id = None, env_os_release = None, env_uname = None, env_time = 0\<rparr>"
  "ae_time login_env w = (150, w)" "ae_sigaction_ok login_env" "ae_sigmask_ok login_env"
  "ae_net login_env = scripted (render login_create @ [0x0a])
         (concat (map item_text [Event (bs ''approved'') [render login_issue]]))"
  by (simp_all add: login_env_def ssoossh_crypto_keygen_def ssoossh_crypto_public_point_def ssoossh_crypto_keypair_free_def)

lemma login_config:
  "acceptable ssoossh_console_flow_supported login_argv"
  "described_config ssoossh_console_flow_supported default_config login_argv = login_cfg"
proof -
  have split: "split_arg (bs ''server=s.example'') = (bs ''server'', bs ''s.example'')"
    "split_arg (bs ''trusted-ca-file=/ca'') = (bs ''trusted-ca-file'', bs ''/ca'')"
    by (simp_all add: split_arg_def Let_def)
  have set: "settings ''server'' login_argv = [bs ''s.example'']" "settings ''trusted-ca-file'' login_argv = [bs ''/ca'']"
    "settings ''mode'' login_argv = []" "settings ''principals-map'' login_argv = []"
    "settings ''skew-tolerance'' login_argv = []" "settings ''insecure-skip-verify'' login_argv = []"
    "settings ''timeout'' login_argv = []" "settings ''ssh-only'' login_argv = []" "settings ''debug'' login_argv = []"
    unfolding login_argv_def by (simp_all only: settings_Cons settings_Nil split fst_conv snd_conv) simp_all
  have vals: "server_value (bs ''s.example'') = Some (bs ''https://s.example'')" "path_value (bs ''/ca'') = Some (bs ''/ca'')"
    by (simp_all add: server_value_def path_value_def normalize_server_def Let_def drop_end_def is_url_space_def SSOOSSH_MAX_URL_def
      fold_byte_def SSOOSSH_MAX_PATH_def)
  show "acceptable ssoossh_console_flow_supported login_argv"
    unfolding acceptable_def set by (simp add: vals del: bs_simps)
  show "described_config ssoossh_console_flow_supported default_config login_argv = login_cfg"
    unfolding described_config_def set last_of_Cons last_of_Nil vals by (simp add: default_config_def login_cfg_def)
qed

lemma login_cfg_fields [simp]:
  "cfg_server login_cfg = bs ''https://s.example''" "cfg_trusted_ca_file login_cfg = bs ''/ca''"
  "\<not> cfg_ssh_only login_cfg" "cfg_mode login_cfg = MODE_AUTO" "cfg_timeout login_cfg = SSOOSSH_DEFAULT_TIMEOUT"
  "cfg_skew_tolerance login_cfg = SSOOSSH_DEFAULT_SKEW_TOLERANCE"
  by (simp_all add: login_cfg_def default_config_def)

lemma login_loads: "\<exists>cas l. auth_load login_env login_cfg = Inr (cas, l) \<and> ca_keys cas = [\<lparr>ca_blob = login_ca, ca_algo = bs ''ssh-rsa''\<rparr>]"
proof -
  let ?path = "cfg_trusted_ca_file login_cfg"
  obtain st cas logs where load: "ssoossh_ca_load login_ossl ?path (FileData login_ca_file) = (st, cas, logs)"
    by (metis prod_cases3)
  have "ssoossh_crypto_supports_key login_ossl (bs ''ssh-rsa'')" by (simp add: ssoossh_crypto_supports_key_def)
  then have keys: "usable_keys login_ossl (map ca_entry (split_lines login_ca_file)) = [\<lparr>ca_blob = login_ca, ca_algo = bs ''ssh-rsa''\<rparr>]"
    by (simp add: login_ca_lines login_ca_entry del: bs_simps)
  moreover have "\<not> MAX_CA_FILE \<le> length login_ca_file"
    by (simp add: login_ca_file_def length_b64_encode login_lengths MAX_CA_FILE_def)
  moreover have "\<not> bad_line_reached login_ossl 0 (map ca_entry (split_lines login_ca_file))"
    by (simp add: login_ca_lines login_ca_entry bad_line_reached_simps del: bs_simps)
  ultimately have "ca_keys cas = [\<lparr>ca_blob = login_ca, ca_algo = bs ''ssh-rsa''\<rparr>]" "st = CA_OK"
    using ca_load_described [where ossl = login_ossl and path = ?path and source = "FileData login_ca_file"] unfolding load
    by (simp_all add: Let_def SSOOSSH_MAX_CAS_def del: bs_simps)
  then show ?thesis unfolding auth_load_def Let_def login_env_fields load by simp
qed


section \<open>It is one the lemma is about\<close>

lemma login_cert_acceptable: "ca_keys cas = [\<lparr>ca_blob = login_ca, ca_algo = bs ''ssh-rsa''\<rparr>] \<Longrightarrow>
  acceptable_cert login_env login_cfg (bs ''alice'') cas login_key 150 login_cert"
proof -
  assume cas: "ca_keys cas = [\<lparr>ca_blob = login_ca, ca_algo = bs ''ssh-rsa''\<rparr>]"
  define t where "t = bs ''ssh-rsa''"
  have t: "t \<noteq> []" "length t < 64" "c_str t = t" "key_type_of (RsaKey [1, 0, 1] [5]) = t"
    by (simp_all add: t_def c_str_def)
  have ca: "login_ca = put_str t @ (put_str [1, 0, 1] @ put_str [5])" by (simp only: login_ca_def t_def)
  obtain d where d: "spki_of (RsaKey [1, 0, 1] [5]) 2048 = Some d"
    using small_rsa_spki by blast
  have cert: "cert_signature_algo login_cert = bs ''rsa-sha2-512''" "cert_signature login_cert = [9]"
      "cert_key_blob login_cert = login_key" "cert_principals login_cert = [bs ''alice'']"
      "cert_valid_after login_cert = 100" "cert_valid_before login_cert = 200"
    by (simp_all add: login_cert_def mk_cert_def)
  have "fst (ssoossh_crypto_verify login_ossl (bs ''rsa-sha2-512'') login_ca msg [9]) = VERIFY_OK" for msg
    unfolding crypto_verify_spec
    by (rule exI [of _ "RsaKey [1, 0, 1] [5]"], rule exI [of _ t], rule exI [of _ "put_str [1, 0, 1] @ put_str [5]"],
        rule exI [of _ "Some EVP_sha512"], rule exI [of _ d], rule exI [of _ d], rule exI [of _ "[9]"])
      (use ca t d in \<open>simp add: key_body_simps key_usable_def login_ossl_def\<close>)
  then have "fst (ssoossh_cert_verify login_ossl login_cert login_ca) = VERIFY_OK"
    by (simp add: ssoossh_cert_verify_def cert(1,2) del: bs_simps)
  moreover have "login_key \<noteq> []" using login_lengths(1) by auto
  moreover have "fst (ssoossh_check_validity login_cert 150 (cfg_skew_tolerance login_cfg))"
    using check_validity_spec [of login_cert "cfg_skew_tolerance login_cfg" 150]
    by (simp add: cert(5,6) clamp64_def tolerance_seconds_def int64_def SSOOSSH_DEFAULT_SKEW_TOLERANCE_def
        SSOOSSH_SECOND_def SSOOSSH_MILLISECOND_def INT64_MAX_def)
  ultimately show ?thesis unfolding acceptable_cert_def cas cert(3,4) by simp
qed


lemma login_cert_line_text: "set login_cert_line \<subseteq> set (p384_name @ CERT_SUFFIX @ [0x20]) \<union> set alphabet \<union> {0x3d}"
  using b64_encode_chars [of login_blob] by (auto simp: login_cert_line_def)

lemma login_cert_line_plain: "plain login_cert_line"
proof (rule plain_name)
  have "\<forall>c \<in> set (p384_name @ CERT_SUFFIX @ [0x20]) \<union> set alphabet \<union> {0x3d}. 0x20 \<le> c \<and> c \<noteq> 0x22 \<and> c \<noteq> 0x5c"
    by (simp add: p384_bytes CERT_SUFFIX_def alphabet_def)
  then show "list_all (\<lambda>c. 0x20 \<le> c \<and> c \<noteq> 0x22 \<and> c \<noteq> 0x5c) login_cert_line"
    using login_cert_line_text unfolding list_all_iff by blast
qed

lemma login_cert_line_length: "length login_cert_line < 800" "login_cert_line \<noteq> []"
  using login_blob_length(1) by (simp_all add: login_cert_line_def length_b64_encode p384_bytes CERT_SUFFIX_def)

lemma login_issue_text: "render login_issue = bs ''{'' @ lit (bs ''data'') @ bs '':{'' @ lit (bs ''certificate'') @ bs '':'' @
    0x22 # login_cert_line @ [0x22] @ bs ''}}''"
  using login_cert_line_plain unfolding login_issue_def plain_def
  by (simp add: sep_def lit_def del: literal_body_def)

lemma login_answers:
  "creates login_create [0x0a] login_cfg (bs ''/e'')" "issues login_issue login_cert_line"
proof -
  show "creates login_create [0x0a] login_cfg (bs ''/e'')"
    unfolding creates_def
    by (simp add: readable_def login_create_def blanks_def MAX_TOKENS_def SSOOSSH_MAX_RESPONSE_def lit_def sep_def
        literal_body_def json_esc_def data_text_def jget_def join_url_def)
  have "length (render login_issue) < 900"
    using login_cert_line_length by (simp add: login_issue_text lit_def literal_body_def json_esc_def)
  moreover have "proper login_issue" "tokens login_issue = 5"
    using login_cert_line_plain by (simp_all add: login_issue_def plain_def)
  moreover have "data_text login_issue ''certificate'' = Some login_cert_line" "jget (Some login_issue) (bs ''error'') = None"
    by (simp_all add: data_text_def jget_def login_issue_def)
  ultimately show "issues login_issue login_cert_line"
    using login_cert_line_length login_cert_line_plain unfolding issues_def readable_def plain_def
    by (simp add: blanks_def MAX_TOKENS_def SSOOSSH_MAX_RESPONSE_def SSOOSSH_MAX_CERT_LINE_def SSOOSSH_MAX_CERT_def)
qed

lemma login_items: "list_all item_ok [Event (bs ''approved'') [render login_issue]]"
  "list_all informational []"
proof -
  have "length (render login_issue) < 900"
    using login_cert_line_length by (simp add: login_issue_text lit_def literal_body_def json_esc_def)
  moreover have "plain_line (render login_issue)"
  proof -
    have "0x0a \<notin> set login_cert_line"
      using login_cert_line_text by (auto simp: p384_bytes CERT_SUFFIX_def alphabet_def)
    then show ?thesis using login_cert_line_plain login_cert_line_length(1)
      by (simp add: plain_line_def login_issue_text lit_def literal_body_def json_esc_def SSOOSSH_SSE_MAX_LINE_def)
  qed
  ultimately show "list_all item_ok [Event (bs ''approved'') [render login_issue]]"
    by (simp add: plain_line_def join_lines_def SSOOSSH_SSE_MAX_DATA_def SSOOSSH_SSE_MAX_LINE_def)
qed simp

lemma login_cooperates: "cooperates login_env [4, 1, 2] 150"
  by (simp add: cooperates_def)

lemma login_context: "ssoossh_context_read (ae_get_item login_env) (ae_hostname login_env) =
    \<lparr>ctx_service = [], ctx_tty = [], ctx_rhost = [], ctx_hostname = [], ctx_ruser = []\<rparr>"
  by (simp add: ssoossh_context_read_def read_item_def)

lemma login_browser_flow: "\<not> is_console_flow login_cfg (ssoossh_context_read (ae_get_item login_env) (ae_hostname login_env))"
  unfolding login_context by (simp add: is_console_flow_def ssoossh_context_is_console_def)


lemma length_literal_body: "length (literal_body s) \<le> 6 * length s"
proof -
  have "length (json_esc c) \<le> 6" for c by (simp add: json_esc_def)
  then show ?thesis
    by (induction s) (auto simp: literal_body_def intro: add_mono)
qed

lemma length_lit: "length (lit s) \<le> 6 * length s + 2"
  using length_literal_body [of s] by (simp add: lit_def)

lemma login_host:
  "hi_process (ssoossh_host_info_read (ae_host login_env)) = []"
  "hi_machine_id (ssoossh_host_info_read (ae_host login_env)) = []"
  "hi_os (ssoossh_host_info_read (ae_host login_env)) = []"
  "length (hi_client_time (ssoossh_host_info_read (ae_host login_env))) < 32"
proof -
  have sel: "hi_process (ssoossh_host_info_read h) = read_process (env_cmdline h) (SSOOSSH_HOSTINFO_CAP + 1)"
    "hi_machine_id (ssoossh_host_info_read h) = read_machine_id (env_machine_id h) (SSOOSSH_HOSTINFO_CAP + 1)"
    "hi_os (ssoossh_host_info_read h) = read_os (env_os_release h) (env_uname h) (SSOOSSH_HOSTINFO_CAP + 1)"
    "hi_client_time (ssoossh_host_info_read h) = read_client_time (env_time h) 32" for h
    unfolding ssoossh_host_info_read_def by simp_all
  have h: "env_cmdline (ae_host login_env) = None" "env_machine_id (ae_host login_env) = None"
    "env_os_release (ae_host login_env) = None" "env_uname (ae_host login_env) = None" by simp_all
  show "hi_process (ssoossh_host_info_read (ae_host login_env)) = []"
    "hi_machine_id (ssoossh_host_info_read (ae_host login_env)) = []"
    unfolding sel h read_process_def read_machine_id_def read_first_line_def by simp_all
  have "read_os None None cap = []" if "1 < cap" for cap
    using that by (simp add: read_os_def read_pretty_name_def cat_capped_def trim_end_def c_str_def)
  then show "hi_os (ssoossh_host_info_read (ae_host login_env)) = []"
    unfolding sel h by (simp add: SSOOSSH_HOSTINFO_CAP_def)
  have "length (read_client_time t 32) < 32" for t
    unfolding read_client_time_def utc_text_def by (auto simp: Let_def split: option.splits prod.splits if_splits)
  then show "length (hi_client_time (ssoossh_host_info_read (ae_host login_env))) < 32"
    unfolding sel .
qed

lemma login_body: "\<exists>body. build_body login_env cas (bs ''alice'') login_key_line
    (ssoossh_context_read (ae_get_item login_env) (ae_hostname login_env)) login_cfg = Some body"
  if "ca_keys cas = [\<lparr>ca_blob = login_ca, ca_algo = bs ''ssh-rsa''\<rparr>]"
proof -
  let ?ctx = "\<lparr>ctx_service = [], ctx_tty = [], ctx_rhost = [], ctx_hostname = [], ctx_ruser = []\<rparr>"
  let ?time = "hi_client_time (ssoossh_host_info_read (ae_host login_env))"
  have "length (c_str login_key_line) \<le> 77"
    using length_c_str [of login_key_line] by (simp add: login_key_line_def length_b64_encode login_lengths p384_bytes)
  then have key: "length (lit (c_str login_key_line)) \<le> 500"
    using length_lit [of "c_str login_key_line"] by simp
  have time: "length (lit (c_str ?time)) < 200"
    using login_host(4) length_c_str [of ?time] length_lit [of "c_str ?time"] by simp
  have name: "length (lit (bs n)) \<le> 6 * length n + 2" "length (lit (c_str (bs n))) \<le> 6 * length n + 2" for n
    using length_lit [of "bs n"] length_lit [of "c_str (bs n)"] length_c_str [of "bs n"] by (simp_all add: bs_def)
  have num: "length (dec_int v) \<le> 21" if "v \<in> {0, 1, 2}" for v
    using that by (intro dec_int_length) (auto simp: number64_def)
  have fp: "ssoossh_sshkey_fingerprint login_ossl login_ca = bs ''<none>''"
    by (simp add: ssoossh_sshkey_fingerprint_def ssoossh_crypto_sha256_def login_ossl_def)
  have addrs: "ssoossh_local_addresses (ae_inet_ntop login_env) (ae_getifaddrs login_env) SSOOSSH_MAX_LOCAL_ADDRS = []"
    by (simp add: ssoossh_local_addresses_def)
  have "length (render (request_document login_env cas (bs ''alice'') login_key_line ?ctx login_cfg)) < 8192"
    unfolding request_document_def request_facts_def Let_def that addrs login_host(1-3)
    using key time name [of "''public_key''"] name [of "''username''"] name [of "''alice''"] name [of "''caller_uid''"]
      name [of "''caller_pid''"] name [of "''caller_ppid''"] name [of "''client''"] name [of "''pam_ssoossh-c/''"]
      name [of "''mode''"] name [of "''client_time''"] name [of "''trusted_ca_fingerprints''"] name [of "''<none>''"]
      name [of "''requested_options''"] name [of "''auto''"] num [of 0] num [of 1] num [of 2]
    by (simp add: opt_def fp strings_def sep_def render_fields_append mode_name_def del: bs_simps login_env_fields(19))
  then show ?thesis unfolding login_context
    by (subst build_body_document) (simp_all add: number64_def Let_def)
qed

section \<open>The module's promises\<close>

lemma configured_login:
  assumes args: "acceptable ssoossh_console_flow_supported args"
      "cfg = described_config ssoossh_console_flow_supported default_config args"
    and user: "get_user w = ((PAM_SUCCESS, Some user), w)" "c_str user \<noteq> []"
    and login: "ssoossh_authenticate env (c_str user) cfg w = Some (rc, l, w')"
  shows "\<exists>logs. pam_sm_authenticate env built_for curl_info get_user (length args) (Some args) w = Some (rc, logs, w')"
proof -
  obtain status c bad l1 where parse: "ssoossh_args_parse ssoossh_console_flow_supported args = (status, c, bad, l1)"
    by (metis prod_cases4)
  have "args_loop ssoossh_console_flow_supported args default_config [] = (status, c, bad, l1)"
    using parse by (simp add: ssoossh_args_parse_def)
  from args_loop_described [OF this] args have st: "status = ARGS_OK" "c = cfg" by simp_all
  have "take (length args) args = args" by simp
  then show ?thesis using login user
    unfolding pam_sm_authenticate_def Let_def parse st by (auto simp: parse st)
qed

lemma approved_login:
  assumes "acceptable ssoossh_console_flow_supported args"
      "cfg = described_config ssoossh_console_flow_supported default_config args"
    and "get_user w = ((PAM_SUCCESS, Some user), w)" "c_str user \<noteq> []"
    and "\<exists>logs sg. ssoossh_authenticate env (c_str user) cfg w = Some (PAM_SUCCESS, logs, w\<lparr>hw_sigint := sg\<rparr>)"
  shows "\<exists>logs sg. pam_sm_authenticate env built_for curl_info get_user (length args) (Some args) w =
    Some (PAM_SUCCESS, logs, w\<lparr>hw_sigint := sg\<rparr>)"
  using configured_login [where get_user = get_user and w = w, OF assms(1-4)] assms(5) by blast

lemma login_succeeds:
  "\<exists>logs sg. pam_sm_authenticate login_env [] curl_info (\<lambda>w. ((PAM_SUCCESS, Some (bs ''alice'')), w)) (length login_argv)
     (Some login_argv) (world_at t) = Some (PAM_SUCCESS, logs, (world_at t)\<lparr>hw_sigint := sg\<rparr>)"
proof -
  obtain cas l where load: "auth_load login_env login_cfg = Inr (cas, l)"
      "ca_keys cas = [\<lparr>ca_blob = login_ca, ca_algo = bs ''ssh-rsa''\<rparr>]" using login_loads by blast
  obtain body where body: "build_body login_env cas (bs ''alice'') login_key_line
      (ssoossh_context_read (ae_get_item login_env) (ae_hostname login_env)) login_cfg = Some body"
    using login_body [OF load(2)] by blast
  have user: "c_str (bs ''alice'') = bs ''alice''" "bs ''alice'' \<noteq> []" by (simp_all add: c_str_def)
  have cfg: "cfg_server login_cfg \<noteq> []" "cfg_trusted_ca_file login_cfg \<noteq> []" "0 < timeout_ms (cfg_timeout login_cfg)"
    by (simp_all add: timeout_ms_def SSOOSSH_DEFAULT_TIMEOUT_def SSOOSSH_SECOND_def SSOOSSH_MILLISECOND_def)
  have net: "ae_net login_env = scripted (render login_create @ [0x0a])
      (concat (map item_text ([] @ Event (bs ''approved'') [render login_issue] # [])))" by simp
  have items: "list_all item_ok ([] @ Event (bs ''approved'') [render login_issue] # [])" using login_items(1) by simp
  have sig: "\<not> sig_pending (hw_sigint (world_at t))" by (simp add: world_at_def quiet_sigint_def)
  have "\<exists>logs sg. ssoossh_authenticate login_env (bs ''alice'') login_cfg (world_at t) =
      Some (PAM_SUCCESS, logs, (world_at t)\<lparr>hw_sigint := sg\<rparr>)"
    by (rule honest_login [OF net items login_items(2) login_answers login_cooperates load(1) login_cfg_fields(3) login_browser_flow
        cfg login_key_blob login_key_authorized body login_cert_line_parses login_cert_acceptable [OF load(2)] sig])
  then show ?thesis
    by (intro approved_login [where user = "bs ''alice''", OF login_config(1) login_config(2) [symmetric]]) (simp_all only: user not_False_eq_True)
qed

text \<open>
  C1: nobody is let in without the four checks.  If libpam is told success, the arguments were the
  acceptable configuration they spell, libpam named a user, a key pair was generated for this attempt,
  and in a world the attempt reached after that the wait on the server's stream brought a certificate
  line.  It parses to a certificate signed, over exactly its signed part, by a usable key of the
  configured CA file; for that key pair's public key; naming the account, or a principal the operator's
  map gives it; and valid at the time the clock showed then.
\<close>

theorem login_success_entitled:
  assumes "pam_sm_authenticate env built_for curl_info get_user argc argv w = Some (PAM_SUCCESS, logs, w')"
  shows "\<exists>args cfg user v kp x point key url dl u line l y cert now y'.
    (argv = Some args \<or> args = []) \<and>
    acceptable ssoossh_console_flow_supported (take argc args) \<and>
    cfg = described_config ssoossh_console_flow_supported default_config (take argc args) \<and>
    get_user w = ((PAM_SUCCESS, Some user), v) \<and> c_str user \<noteq> [] \<and>
    ssoossh_crypto_keygen (ae_keys env) v = (Some kp, x) \<and> ssoossh_crypto_public_point (ae_keys env) kp 256 = Some point \<and>
    ssoossh_sshkey_blob_p384 point SSOOSSH_MAX_KEY_BLOB = Some key \<and>
    reaches env x u \<and> auth_wait env cfg url dl u = Some (Inr (line, l, y)) \<and>
    ssoossh_cert_parse_line line SSOOSSH_MAX_CERT = Inr cert \<and> ae_time env y = (now, y') \<and>
    entitled env cfg (c_str user) key now cert"
proof -
  obtain args cfg user v l where login: "argv = Some args \<or> args = []"
      "acceptable ssoossh_console_flow_supported (take argc args)"
      "cfg = described_config ssoossh_console_flow_supported default_config (take argc args)"
      "get_user w = ((PAM_SUCCESS, Some user), v)" "c_str user \<noteq> []"
      "ssoossh_authenticate env (c_str user) cfg v = Some (PAM_SUCCESS, l, w')"
    by (rule pam_success_attempt [OF assms])
  from login(6) show ?thesis
    by (rule authenticate_entitled) (intro exI conjI; (rule login | assumption))
qed

theorem login_success_entitled_witness:
  "\<exists>cfg key now cert. entitled login_env cfg (bs ''alice'') key now cert"
proof -
  obtain logs sg where "pam_sm_authenticate login_env [] None (\<lambda>w. ((PAM_SUCCESS, Some (bs ''alice'')), w)) (length login_argv)
     (Some login_argv) (world_at 0) = Some (PAM_SUCCESS, logs, (world_at 0)\<lparr>hw_sigint := sg\<rparr>)" using login_succeeds by blast
  from login_success_entitled [OF this] have "\<exists>cfg key now cert. entitled login_env cfg (c_str (bs ''alice'')) key now cert"
    unfolding prod.inject option.inject by (elim exE conjE) (simp del: bs_simps, blast)
  moreover have "c_str (bs ''alice'') = bs ''alice''" by (simp add: c_str_def)
  ultimately show ?thesis by simp
qed






section \<open>A login under sudo, interrupted\<close>

text \<open>
  The same login in a process as sudo has it: SIGINT is blocked, and one, pressed before, is held pending.
\<close>

definition asks_alice :: "bytes host_world \<Rightarrow> (pam_code \<times> bytes option) \<times> bytes host_world" where
  "asks_alice w = ((PAM_SUCCESS, Some (bs ''alice'')), w)"

definition sudo_sigint :: "nat signals" where
  "sudo_sigint =
     \<lparr>sig_action = Host_disposition 7, sig_blocked = True, sig_pending = True, interrupted = False, host_took = 0\<rparr>"

definition sudo_world :: "bytes host_world" where
  "sudo_world = \<lparr>hw_ticks = 0, hw_sigint = sudo_sigint, hw_keys = []\<rparr>"

lemma login_env_keeps:
  assumes "\<And>w t. I w \<Longrightarrow> I (w\<lparr>hw_ticks := t\<rparr>)"
  shows "env_keeps I login_env"
proof -
  have "net_keeps I (ae_net login_env)"
    using assms by (simp add: net_keeps_def scripted_def demo_net_def case_prod_beta)
  then show ?thesis by (simp add: env_keeps_def login_env_def)
qed

lemma login_lawful:
  "sigint_lawful login_env asks_alice" "keys_lawful login_env asks_alice (\<lambda>w. mset (hw_keys w))"
  unfolding sigint_lawful_def keys_lawful_def evp_lawful_def
  by (simp_all add: login_env_keeps asks_alice_def) (simp_all add: login_env_def)

lemma sudo_login:
  "\<exists>rc logs w'. pam_sm_authenticate login_env [] None asks_alice (length login_argv) (Some login_argv) sudo_world =
     Some (rc, logs, w') \<and> interrupted (hw_sigint w')"
proof -
  let ?user = "bs ''alice''" and ?ctx = "ssoossh_context_read (ae_get_item login_env) (ae_hostname login_env)"
  let ?sig = "ssoossh_cancel_arm (ae_sigaction_ok login_env) (ae_sigmask_ok login_env) (sudo_sigint, ae_cancel login_env)"
  obtain cas l where load: "auth_load login_env login_cfg = Inr (cas, l)"
      "ca_keys cas = [\<lparr>ca_blob = login_ca, ca_algo = bs ''ssh-rsa''\<rparr>]" using login_loads by blast
  obtain body where body: "build_body login_env cas ?user login_key_line ?ctx login_cfg = Some body"
    using login_body [OF load(2)] by blast
  obtain c where arm: "auth_arm login_env (ae_cancel login_env) (sudo_world\<lparr>hw_keys := [[4, 1, 2]]\<rparr>) =
      (c, sudo_world\<lparr>hw_keys := [[4, 1, 2]], hw_sigint := fst ?sig\<rparr>)"
    by (cases ?sig) (simp add: auth_arm_def sudo_world_def)
  have seen: "interrupted (fst ?sig)"
    using armed_sees_pending [of sudo_sigint] by (simp add: ssoossh_cancel_fired_def sudo_sigint_def)
  obtain l2 where prep: "auth_prepare login_env ?user (ssoossh_log_escape_str ?user 256) login_cfg cas sudo_world =
      (Some [4, 1, 2], Inr (?ctx, False, login_key, body, l2, sudo_world\<lparr>hw_keys := [[4, 1, 2]]\<rparr>))"
    using honest_prepare [of login_env sudo_world "[4, 1, 2]" "sudo_world\<lparr>hw_keys := [[4, 1, 2]]\<rparr>", OF _ _ login_cfg_fields(3)
        login_browser_flow login_key_blob login_key_authorized body] by (auto simp: sudo_world_def)
  obtain rc logs w' where run: "ssoossh_authenticate login_env ?user login_cfg sudo_world = Some (rc, logs, w')"
  proof -
    have "clock_runs (ae_net login_env) hw_ticks 1" unfolding login_env_fields by (rule scripted_clock_runs)
    from authenticate_returns [OF this] show thesis by (metis prod_cases3 that)
  qed
  have cfg: "cfg_server login_cfg \<noteq> []" "cfg_trusted_ca_file login_cfg \<noteq> []" "ae_calloc_ok login_env" by simp_all
  have time: "ssoossh_monotonic_ms (ae_net login_env) (sudo_world\<lparr>hw_keys := [[4, 1, 2]]\<rparr>) =
      (0, sudo_world\<lparr>hw_keys := [[4, 1, 2]]\<rparr>)" by (simp add: sudo_world_def)
  obtain dl rc0 l0 l3 w4 where e: "auth_exchange login_env ?user (ssoossh_log_escape_str ?user 256) login_cfg cas ?ctx False
        login_key body dl (sudo_world\<lparr>hw_keys := [[4, 1, 2]], hw_sigint := fst ?sig\<rparr>) = Some (rc0, l0, w4)"
      and out: "(rc, logs, w') = auth_done login_env (Some c) (Some [4, 1, 2]) (rc0, l3, w4)"
    by (rule authenticate_armed [OF run cfg load(1) prep time arm])
  have "interrupted (hw_sigint w4)"
    by (rule auth_exchange_keeps [OF login_env_keeps _ e]) (use seen in simp_all)
  then have "interrupted (hw_sigint w')"
    using out by (auto simp: auth_done_def auth_disarm_def Let_def ssoossh_cancel_disarm_def disarm_block_def disarm_restore_def
        split: if_splits)
  moreover have "\<exists>logs. pam_sm_authenticate login_env [] None asks_alice (length login_argv) (Some login_argv) sudo_world =
      Some (rc, logs, w')"
    by (rule configured_login [OF login_config(1) login_config(2) [symmetric], where user = ?user and l = logs])
      (use run in \<open>simp_all add: asks_alice_def c_str_def\<close>)
  ultimately show ?thesis by blast
qed


theorem interrupted_login_stands_aside_witness:
  "\<exists>rc logs w'. pam_sm_authenticate login_env [] None asks_alice (length login_argv) (Some login_argv) sudo_world =
     Some (rc, logs, w') \<and> interrupted (hw_sigint w') \<and> (rc = PAM_SUCCESS \<or> rc = PAM_IGNORE)"
proof -
  obtain rc logs w' where run: "pam_sm_authenticate login_env [] None asks_alice (length login_argv) (Some login_argv) sudo_world =
     Some (rc, logs, w')" "interrupted (hw_sigint w')" using sudo_login by blast
  from interrupted_login_stands_aside [OF login_lawful(1) run(1) refl, of 7] run show ?thesis
    by (auto simp: sudo_world_def sudo_sigint_def)
qed

theorem login_frees_key_witness:
  "\<exists>rc logs w'. pam_sm_authenticate login_env [] None asks_alice (length login_argv) (Some login_argv) sudo_world =
     Some (rc, logs, w') \<and> hw_keys w' = []"
proof -
  obtain rc logs w' where run: "pam_sm_authenticate login_env [] None asks_alice (length login_argv) (Some login_argv) sudo_world =
     Some (rc, logs, w')" using sudo_login by blast
  from login_frees_key [OF login_lawful(2) this] run show ?thesis by (simp add: sudo_world_def)
qed

section \<open>Three theorems met again\<close>

theorem request_states_facts_witness:
  "\<exists>body. build_body login_env \<lparr>ca_keys = [\<lparr>ca_blob = login_ca, ca_algo = bs ''ssh-rsa''\<rparr>], ca_skipped = 0\<rparr> (bs ''alice'')
     login_key_line (ssoossh_context_read (ae_get_item login_env) (ae_hostname login_env)) login_cfg = Some body \<and>
     ssoossh_json_top_string body (bs ''username'') 64 = (True, bs ''alice'')"
proof -
  let ?cas = "\<lparr>ca_keys = [\<lparr>ca_blob = login_ca, ca_algo = bs ''ssh-rsa''\<rparr>], ca_skipped = 0\<rparr>"
  have cas: "ca_keys ?cas = [\<lparr>ca_blob = login_ca, ca_algo = bs ''ssh-rsa''\<rparr>]" by (simp only: ca_list.select_convs)
  obtain body where body: "build_body login_env ?cas (bs ''alice'') login_key_line
      (ssoossh_context_read (ae_get_item login_env) (ae_hostname login_env)) login_cfg = Some body"
    using login_body [OF cas] by blast
  have user: "c_str (bs ''alice'') = bs ''alice''" "length (bs ''alice'') < 64" "take (64 - 1) (bs ''alice'') = bs ''alice''"
    by (simp_all add: c_str_def)
  have "number64 (ae_uid login_env)" "number64 (ae_pid login_env)" "number64 (ae_ppid login_env)" "0 < (64 :: nat)"
    by (simp_all add: number64_def)
  from request_states_facts [OF this, of ?cas "bs ''alice''" login_key_line
      "ssoossh_context_read (ae_get_item login_env) (ae_hostname login_env)" login_cfg]
  have "ssoossh_json_top_string body (bs ''username'') 64 =
      (length (c_str (bs ''alice'')) < 64, take (64 - 1) (c_str (bs ''alice'')))"
    unfolding body option.case by blast
  then have "ssoossh_json_top_string body (bs ''username'') 64 = (True, bs ''alice'')"
    unfolding user(1,3) using user(2) by (simp only: simp_thms)
  with body show ?thesis by blast
qed

theorem refused_before_network_witness:
  "\<exists>logs. ssoossh_authenticate login_env (bs ''alice'') (login_cfg\<lparr>cfg_ssh_only := True\<rparr>) (world_at 5) = Some (PAM_IGNORE, logs, world_at 5)"
proof -
  let ?cfg = "login_cfg\<lparr>cfg_ssh_only := True\<rparr>"
  have load: "auth_load login_env ?cfg = auth_load login_env login_cfg" by (simp add: auth_load_def)
  have "\<not> (\<exists>e. auth_load login_env ?cfg = Inl e)" unfolding load using login_loads by auto
  moreover have "\<not> ssoossh_ssh_session (ae_getenv login_env) (ae_proc_stat login_env) (ae_pid login_env)"
  proof -
    have "\<not> ancestry_loop (ae_proc_stat login_env) n 2" for n
      by (cases n) (simp_all add: process_info_def)
    then show ?thesis by (simp add: ssoossh_ssh_session_def ssoossh_ssh_session_env_def ssoossh_ssh_session_ancestry_def)
  qed
  moreover have "cfg_server ?cfg \<noteq> []" "cfg_trusted_ca_file ?cfg \<noteq> []" by simp_all
  ultimately show ?thesis
    using refused_before_network [of login_env ?cfg "bs ''alice''" "world_at 5"] by simp
qed

theorem terminal_gets_safe_text_witness:
  "ssoossh_authenticate (login_env\<lparr>ae_conv := (PAM_SUCCESS, Some (\<lambda>style text w. (PAM_SUCCESS, None, w)))\<rparr>) (bs ''alice'') login_cfg (world_at 0) =
   ssoossh_authenticate (login_env\<lparr>ae_conv := (PAM_SUCCESS, Some (\<lambda>style text w.
     if 0x1b \<in> set text then (PAM_CONV_ERR, None, w) else (PAM_SUCCESS, None, w)))\<rparr>) (bs ''alice'') login_cfg (world_at 0)"
  by (rule terminal_gets_safe_text) (auto simp: list_all_iff terminal_safe_def)

end
