(* ===== verification/Host_Bsd.thy ===== *)
theory Host_Bsd
  imports Host
begin

text \<open>
  The FreeBSD and macOS branches of src/sshdetect.c and src/hostinfo.c: the same walk over the process
  tree with the kernel's own process records, and the machine id and the command line through sysctl.
  The lemmas: where the two kernels tell the same of their processes, the session is judged the same;
  and every field fits its buffer, as on Linux.
\<close>

section \<open>The process tree\<close>

text \<open>A process record of the kernel: the command name's bytes and the parent.\<close>

definition process_info_bsd :: "(int \<Rightarrow> (bytes \<times> int) option) \<Rightarrow> int \<Rightarrow> (bytes \<times> int) option" where
  "process_info_bsd kinfo pid =
     (case kinfo pid of None \<Rightarrow> None | Some (p_comm, ppid) \<Rightarrow> Some (take 31 (c_str p_comm), ppid))"

text \<open>The walk, on what the platform's \<open>process_info\<close> gives.\<close>

fun ancestry_walk :: "(int \<Rightarrow> (bytes \<times> int) option) \<Rightarrow> nat \<Rightarrow> int \<Rightarrow> bool" where
  "ancestry_walk info 0 pid = False"
| "ancestry_walk info (Suc hops) pid =
     (if \<not> pid > 1 then False
      else
        (case info pid of
           None \<Rightarrow> False
         | Some (comm, ppid) \<Rightarrow>
             if take 4 comm = bs ''sshd'' then True
             else if ppid = pid then False
             else ancestry_walk info hops ppid))"

definition ssoossh_ssh_session_bsd :: "(bytes \<Rightarrow> bytes option) \<Rightarrow> (int \<Rightarrow> (bytes \<times> int) option) \<Rightarrow> int \<Rightarrow> bool" where
  "ssoossh_ssh_session_bsd getenv kinfo pid \<longleftrightarrow>
     ssoossh_ssh_session_env getenv \<or> ancestry_walk (process_info_bsd kinfo) 64 pid"

lemma ancestry_loop_walk: "ancestry_loop proc_stat n pid = ancestry_walk (process_info proc_stat) n pid"
  by (induction n arbitrary: pid) (simp_all split: option.split)

lemma session_same_on_bsd:
  assumes "\<And>p. process_info proc_stat p = process_info_bsd kinfo p"
  shows "ssoossh_ssh_session getenv proc_stat pid = ssoossh_ssh_session_bsd getenv kinfo pid"
proof -
  have "process_info proc_stat = process_info_bsd kinfo" using assms by blast
  then show ?thesis
    by (simp add: ssoossh_ssh_session_def ssoossh_ssh_session_ancestry_def ssoossh_ssh_session_bsd_def ancestry_loop_walk)
qed

text \<open>The two kernels do agree on a process whose line in /proc is as proc(5) writes it.\<close>

lemma process_info_agrees:
  assumes "proc_stat pid = Some (stat_line p comm state ppid behind)" and "kinfo pid = Some (comm, int ppid)"
    and "length (stat_line p comm state ppid behind) \<le> 511" and "0 \<notin> set (stat_line p comm state ppid behind)"
    and "length comm \<le> 31" and "ppid < 2 ^ 31" and "\<not> is_c_space state \<and> state \<noteq> 0x29"
    and "no_digit behind" and "0x29 \<notin> set behind"
  shows "process_info proc_stat pid = process_info_bsd kinfo pid"
proof -
  have "0 \<notin> set comm" using assms(4) by (simp add: stat_line_def)
  then have "c_str comm = comm" by (simp add: c_str_id)
  then show ?thesis
    using process_info_stat [of proc_stat pid p comm state ppid behind] assms by (simp add: process_info_bsd_def)
qed

section \<open>Host facts\<close>

text \<open>\<open>sysctlbyname\<close> writes at most the room it is given, without a terminator.\<close>

definition read_machine_id_freebsd :: "(nat \<Rightarrow> bytes option) \<Rightarrow> nat \<Rightarrow> bytes" where
  "read_machine_id_freebsd hostuuid cap =
     (case hostuuid (cap - 1) of None \<Rightarrow> [] | Some out \<Rightarrow> trim_end (c_str (take (cap - 1) out)))"

definition read_machine_id_darwin :: "bytes option \<Rightarrow> (bytes \<Rightarrow> bytes) \<Rightarrow> nat \<Rightarrow> bytes" where
  "read_machine_id_darwin gethostuuid uuid_unparse_lower cap =
     (if cap < 37 then [] else (case gethostuuid of None \<Rightarrow> [] | Some uuid \<Rightarrow> uuid_unparse_lower uuid))"

text \<open>\<open>sysctl\<close> gives whether it succeeded and what it wrote; a vector that is too long fails with a part of it.\<close>

definition read_process_freebsd :: "(nat \<Rightarrow> bool \<times> bytes) \<Rightarrow> nat \<Rightarrow> bytes" where
  "read_process_freebsd proc_args cap =
     (case proc_args (cap - 1) of
        (ok, out) \<Rightarrow> if \<not> ok \<and> length out = 0 then [] else join_args (take (cap - 1) out))"

definition ssoossh_host_info_freebsd ::
    "(nat \<Rightarrow> bytes option) \<Rightarrow> (nat \<Rightarrow> bool \<times> bytes) \<Rightarrow> (bytes \<times> bytes) option \<Rightarrow> int \<Rightarrow> ssoossh_host_info" where
  "ssoossh_host_info_freebsd hostuuid proc_args uname now =
     \<lparr> hi_process = read_process_freebsd proc_args (SSOOSSH_HOSTINFO_CAP + 1),
       hi_machine_id = read_machine_id_freebsd hostuuid (SSOOSSH_HOSTINFO_CAP + 1),
       hi_os = read_os None uname (SSOOSSH_HOSTINFO_CAP + 1),
       hi_client_time = read_client_time now 32 \<rparr>"

definition ssoossh_host_info_darwin ::
    "bytes option \<Rightarrow> (bytes \<Rightarrow> bytes) \<Rightarrow> (bytes \<times> bytes) option \<Rightarrow> int \<Rightarrow> ssoossh_host_info" where
  "ssoossh_host_info_darwin gethostuuid uuid_unparse_lower uname now =
     \<lparr> hi_process = [],
       hi_machine_id = read_machine_id_darwin gethostuuid uuid_unparse_lower (SSOOSSH_HOSTINFO_CAP + 1),
       hi_os = read_os None uname (SSOOSSH_HOSTINFO_CAP + 1),
       hi_client_time = read_client_time now 32 \<rparr>"

lemma host_info_freebsd_fits:
  "length (hi_process (ssoossh_host_info_freebsd hostuuid proc_args uname now)) \<le> SSOOSSH_HOSTINFO_CAP"
  "length (hi_machine_id (ssoossh_host_info_freebsd hostuuid proc_args uname now)) \<le> SSOOSSH_HOSTINFO_CAP"
proof -
  show "length (hi_process (ssoossh_host_info_freebsd hostuuid proc_args uname now)) \<le> SSOOSSH_HOSTINFO_CAP"
    by (auto simp: ssoossh_host_info_freebsd_def read_process_freebsd_def join_args_def split: prod.split
        intro: order_trans [OF trim_end_length])
  have "length (trim_end (c_str (take SSOOSSH_HOSTINFO_CAP out))) \<le> SSOOSSH_HOSTINFO_CAP" for out
    using trim_end_length [of "c_str (take SSOOSSH_HOSTINFO_CAP out)"] length_c_str [of "take SSOOSSH_HOSTINFO_CAP out"]
    by simp
  then show "length (hi_machine_id (ssoossh_host_info_freebsd hostuuid proc_args uname now)) \<le> SSOOSSH_HOSTINFO_CAP"
    by (simp add: ssoossh_host_info_freebsd_def read_machine_id_freebsd_def split: option.split)
qed

end
